(* ===== verification/Prelude.thy ===== *)
theory Prelude
  imports
    Main
    "HOL-Library.Word"
    "HOL-Library.Sublist"
    "HOL-Library.Char_ord"
    "HOL-Library.List_Lexorder"
    "HOL-Library.Multiset"
begin

text \<open>
  Shared vocabulary of the development: Rust strings as lists of bytes, the operations of
  \<^verbatim>\<open>str\<close> the sources use (trimming, splitting, counting characters, decimal
  printing), the \<^verbatim>\<open>Result\<close> type, and generic facts on lists and maps that several
  components need.

  A Rust \<^verbatim>\<open>String\<close> is the list of its UTF-8 bytes, so \<^verbatim>\<open>s.len()\<close> is
  \<open>length s\<close>, string comparison is the lexicographic order of the bytes, and an ASCII
  literal is the same literal here.  \<^verbatim>\<open>s.chars()\<close> groups the bytes into characters.
\<close>

named_theorems inv_simps \<open>unfolding rules of component invariants\<close>
named_theorems step_simps \<open>unfolding rules of component operations\<close>

subsection \<open>Result values\<close>

type_synonym ('t, 'e) result = "'e + 't"

abbreviation Ok :: "'t \<Rightarrow> ('t, 'e) result" where "Ok \<equiv> Inr"
abbreviation Err :: "'e \<Rightarrow> ('t, 'e) result" where "Err \<equiv> Inl"

fun unwrap_or :: "'t \<Rightarrow> 't option \<Rightarrow> 't" where
  "unwrap_or d None = d"
| "unwrap_or d (Some x) = x"

subsection \<open>Characters of a UTF-8 string\<close>

text \<open>A byte \<open>10xxxxxx\<close> continues a character; every other byte starts one.\<close>

definition is_cont :: "char \<Rightarrow> bool" where
  "is_cont c \<longleftrightarrow> 128 \<le> (of_char c :: nat) \<and> (of_char c :: nat) < 192"

function str_chars :: "string \<Rightarrow> string list" where
  "str_chars [] = []"
| "str_chars (b # bs) = (b # takeWhile is_cont bs) # str_chars (dropWhile is_cont bs)"
  by pat_completeness auto
termination
  by (relation "measure length") (auto simp: le_imp_less_Suc length_dropWhile_le)

text \<open>\<^verbatim>\<open>s.chars().count()\<close> and \<^verbatim>\<open>s.chars().take(n).collect::<String>()\<close>\<close>

definition char_count :: "string \<Rightarrow> nat" where
  "char_count s = length (str_chars s)"

definition chars_take :: "nat \<Rightarrow> string \<Rightarrow> string" where
  "chars_take n s = concat (take n (str_chars s))"

lemma takeWhile_all_cont: "\<forall>x \<in> set (takeWhile is_cont bs). is_cont x"
  by (meson set_takeWhileD)

lemma str_chars_concat: "concat (str_chars s) = s"
  by (induction s rule: str_chars.induct) auto

lemma chars_take_prefix: "prefix (chars_take n s) s"
proof -
  have "s = concat (take n (str_chars s)) @ concat (drop n (str_chars s))"
    by (metis append_take_drop_id concat_append str_chars_concat)
  then show ?thesis unfolding chars_take_def prefix_def by blast
qed

lemma chars_take_all: "char_count s \<le> n \<Longrightarrow> chars_take n s = s"
  by (simp add: char_count_def chars_take_def str_chars_concat)

text \<open>Grouping is stable: a block of complete characters is grouped on its own.\<close>

lemma str_chars_app_ncont:
  "t = [] \<or> \<not> is_cont (hd t) \<Longrightarrow> str_chars (s @ t) = str_chars s @ str_chars t"
proof (induction s rule: str_chars.induct)
  case 1
  then show ?case by simp
next
  case (2 b bs)
  show ?case
  proof (cases "\<forall>x \<in> set bs. is_cont x")
    case True
    with "2.prems" have "takeWhile is_cont (bs @ t) = bs" "dropWhile is_cont (bs @ t) = t"
      by (cases t; simp add: takeWhile_append2 dropWhile_append2)+
    with True show ?thesis by (simp add: takeWhile_eq_all_conv[THEN iffD2] dropWhile_eq_Nil_conv[THEN iffD2])
  next
    case False
    then obtain x where x: "x \<in> set bs" "\<not> is_cont x" by blast
    then have "takeWhile is_cont (bs @ t) = takeWhile is_cont bs"
      "dropWhile is_cont (bs @ t) = dropWhile is_cont bs @ t"
      by (simp_all add: takeWhile_append1 dropWhile_append1)
    with "2.IH" "2.prems" show ?thesis by simp
  qed
qed

lemma str_chars_elem:
  "c \<in> set (tl (str_chars s)) \<Longrightarrow> \<not> is_cont (hd c) \<and> c \<noteq> []"
proof (induction s rule: str_chars.induct)
  case 1
  then show ?case by simp
next
  case (2 b bs)
  show ?case
  proof (cases "dropWhile is_cont bs")
    case Nil
    with 2 show ?thesis by simp
  next
    case (Cons x xs)
    then have nx: "\<not> is_cont x" by (metis hd_dropWhile list.distinct(1) list.sel(1))
    from 2(2) Cons have "c \<in> set (str_chars (x # xs))" by simp
    then have "c = x # takeWhile is_cont xs \<or> c \<in> set (tl (str_chars (x # xs)))" by simp
    then show ?thesis using nx 2(1) Cons by auto
  qed
qed

lemma str_chars_take_group:
  "str_chars (concat (take n (str_chars s))) = take n (str_chars s)"
proof (induction n arbitrary: s)
  case 0
  then show ?case by simp
next
  case (Suc n)
  show ?case
  proof (cases s)
    case Nil
    then show ?thesis by simp
  next
    case (Cons b bs)
    define r where "r = dropWhile is_cont bs"
    define u where "u = concat (take n (str_chars r))"
    have r: "r = [] \<or> \<not> is_cont (hd r)"
      unfolding r_def using hd_dropWhile by blast
    have u: "u = [] \<or> \<not> is_cont (hd u)"
    proof (cases r)
      case Nil
      then show ?thesis by (simp add: u_def)
    next
      case (Cons x xs)
      with r show ?thesis by (cases n) (simp_all add: u_def)
    qed
    have w: "str_chars (b # takeWhile is_cont bs) = [b # takeWhile is_cont bs]"
      by (simp add: takeWhile_eq_all_conv[THEN iffD2] dropWhile_eq_Nil_conv[THEN iffD2]
          takeWhile_all_cont)
    have "str_chars ((b # takeWhile is_cont bs) @ u)
        = str_chars (b # takeWhile is_cont bs) @ str_chars u"
      by (rule str_chars_app_ncont[OF u])
    with w have "str_chars ((b # takeWhile is_cont bs) @ u) = (b # takeWhile is_cont bs) # str_chars u"
      by simp
    moreover have "str_chars u = take n (str_chars r)"
      unfolding u_def by (rule Suc.IH)
    ultimately show ?thesis using Cons by (simp add: r_def u_def)
  qed
qed

lemma char_count_chars_take: "char_count (chars_take n s) = min n (char_count s)"
  by (simp add: char_count_def chars_take_def str_chars_take_group min.commute)

subsection \<open>White space and trimming\<close>

text \<open>
  \<^verbatim>\<open>char::is_whitespace\<close> is the Unicode property White\_Space.  \<open>ws_len s\<close> is the
  number of bytes of the white space character that \<open>s\<close> starts with, 0 if it starts with
  none; \<open>ws_len_rev\<close> is the same for the last character, on the reversed bytes.
\<close>

definition ascii_ws :: "char list" where
  "ascii_ws = [CHR 0x09, CHR 0x0A, CHR 0x0B, CHR 0x0C, CHR 0x0D, CHR 0x20]"

definition ws2 :: "char \<Rightarrow> char \<Rightarrow> bool" where
  "ws2 a b \<longleftrightarrow> a = CHR 0xC2 \<and> (b = CHR 0x85 \<or> b = CHR 0xA0)"

definition ws3 :: "char \<Rightarrow> char \<Rightarrow> char \<Rightarrow> bool" where
  "ws3 a b c \<longleftrightarrow>
     (a = CHR 0xE1 \<and> b = CHR 0x9A \<and> c = CHR 0x80) \<or>
     (a = CHR 0xE2 \<and> b = CHR 0x80 \<and>
        ((CHR 0x80 \<le> c \<and> c \<le> CHR 0x8A) \<or> c = CHR 0xA8 \<or> c = CHR 0xA9 \<or> c = CHR 0xAF)) \<or>
     (a = CHR 0xE2 \<and> b = CHR 0x81 \<and> c = CHR 0x9F) \<or>
     (a = CHR 0xE3 \<and> b = CHR 0x80 \<and> c = CHR 0x80)"

fun ws_len :: "string \<Rightarrow> nat" where
  "ws_len [] = 0"
| "ws_len [a] = (if a \<in> set ascii_ws then 1 else 0)"
| "ws_len [a, b] = (if a \<in> set ascii_ws then 1 else if ws2 a b then 2 else 0)"
| "ws_len (a # b # c # _) =
     (if a \<in> set ascii_ws then 1 else if ws2 a b then 2 else if ws3 a b c then 3 else 0)"

fun ws_len_rev :: "string \<Rightarrow> nat" where
  "ws_len_rev [] = 0"
| "ws_len_rev [a] = (if a \<in> set ascii_ws then 1 else 0)"
| "ws_len_rev [b, a] = (if b \<in> set ascii_ws then 1 else if ws2 a b then 2 else 0)"
| "ws_len_rev (c # b # a # _) =
     (if c \<in> set ascii_ws then 1 else if ws2 b c then 2 else if ws3 a b c then 3 else 0)"

lemma ws_len_le: "ws_len s \<le> length s" by (cases s rule: ws_len.cases) auto
lemma ws_len_rev_le: "ws_len_rev s \<le> length s" by (cases s rule: ws_len_rev.cases) auto

lemma ws_len_drop: "ws_len s \<noteq> 0 \<Longrightarrow> length (drop (ws_len s) s) < length s"
  using ws_len_le[of s] by (cases s) auto

lemma ws_len_rev_drop: "ws_len_rev s \<noteq> 0 \<Longrightarrow> length (drop (ws_len_rev s) s) < length s"
  using ws_len_rev_le[of s] by (cases s) auto

function trim_start :: "string \<Rightarrow> string" where
  "trim_start s = (if ws_len s = 0 then s else trim_start (drop (ws_len s) s))"
  by pat_completeness auto
termination
  by (relation "measure length") (simp_all add: ws_len_drop del: length_drop)

function trim_start_rev :: "string \<Rightarrow> string" where
  "trim_start_rev s = (if ws_len_rev s = 0 then s else trim_start_rev (drop (ws_len_rev s) s))"
  by pat_completeness auto
termination
  by (relation "measure length") (simp_all add: ws_len_rev_drop del: length_drop)

declare trim_start.simps [simp del] trim_start_rev.simps [simp del]

definition trim_end :: "string \<Rightarrow> string" where
  "trim_end s = rev (trim_start_rev (rev s))"

definition str_trim :: "string \<Rightarrow> string" where
  "str_trim s = trim_end (trim_start s)"

text \<open>Split a string before its first white space character: \<^verbatim>\<open>find(char::is_whitespace)\<close>.\<close>

fun break_ws :: "string \<Rightarrow> string \<times> string" where
  "break_ws [] = ([], [])"
| "break_ws (c # cs) =
     (if ws_len (c # cs) \<noteq> 0 then ([], c # cs)
      else (let (h, t) = break_ws cs in (c # h, t)))"

lemma break_ws_append: "fst (break_ws s) @ snd (break_ws s) = s"
  by (induction s) (auto simp: Let_def split: prod.splits)

text \<open>\<^verbatim>\<open>s.split_whitespace().next()\<close>\<close>

definition first_word :: "string \<Rightarrow> string option" where
  "first_word s = (let t = trim_start s in if t = [] then None else Some (fst (break_ws t)))"

subsection \<open>ASCII case and searching\<close>

definition ascii_lower :: "char \<Rightarrow> char" where
  "ascii_lower c =
     (if CHR ''A'' \<le> c \<and> c \<le> CHR ''Z'' then char_of ((of_char c :: nat) + 32) else c)"

definition to_ascii_lowercase :: "string \<Rightarrow> string" where
  "to_ascii_lowercase s = map ascii_lower s"

abbreviation starts_with :: "string \<Rightarrow> string \<Rightarrow> bool" where
  "starts_with s p \<equiv> prefix p s"

abbreviation ends_with :: "string \<Rightarrow> string \<Rightarrow> bool" where
  "ends_with s p \<equiv> suffix p s"

text \<open>\<^verbatim>\<open>s.split(p)\<close> on a predicate of ASCII characters: the pieces between the separators.\<close>

fun split_on :: "(char \<Rightarrow> bool) \<Rightarrow> string \<Rightarrow> string list" where
  "split_on p [] = [[]]"
| "split_on p (c # cs) =
     (if p c then [] # split_on p cs
      else (case split_on p cs of [] \<Rightarrow> [[c]] | w # ws \<Rightarrow> (c # w) # ws))"

lemma split_on_not_Nil: "split_on p s \<noteq> []"
  by (induction s) (auto split: list.splits)

text \<open>Joining strings with a separator: \<^verbatim>\<open>parts.join(sep)\<close>\<close>

fun str_join :: "string \<Rightarrow> string list \<Rightarrow> string" where
  "str_join sep [] = []"
| "str_join sep [x] = x"
| "str_join sep (x # y # xs) = x @ sep @ str_join sep (y # xs)"

subsection \<open>Decimal printing\<close>

definition digit_char :: "nat \<Rightarrow> char" where
  "digit_char d = char_of (48 + d)"

fun show_nat :: "nat \<Rightarrow> string" where
  "show_nat n = (if n < 10 then [digit_char n] else show_nat (n div 10) @ [digit_char (n mod 10)])"

declare show_nat.simps [simp del]

definition show_int :: "int \<Rightarrow> string" where
  "show_int i = (if i < 0 then ''-'' @ show_nat (nat (- i)) else show_nat (nat i))"

lemma of_char_digit: "d < 10 \<Longrightarrow> (of_char (digit_char d) :: nat) = 48 + d"
  unfolding digit_char_def of_char_of by simp

lemma digit_char_inj: "d < 10 \<Longrightarrow> e < 10 \<Longrightarrow> digit_char d = digit_char e \<Longrightarrow> d = e"
  by (metis add_left_imp_eq of_char_digit)

lemma show_nat_not_Nil [simp]: "show_nat n \<noteq> []"
  by (subst show_nat.simps) simp

lemma Nil_not_show_nat [simp]: "[] \<noteq> show_nat n"
  by (metis show_nat_not_Nil)

lemma show_nat_inj: "show_nat m = show_nat n \<Longrightarrow> m = n"
proof (induction m arbitrary: n rule: show_nat.induct)
  case (1 m)
  consider "m < 10" "n < 10" | "m < 10" "\<not> n < 10" | "\<not> m < 10" "n < 10" | "\<not> m < 10" "\<not> n < 10"
    by blast
  then show ?case
  proof cases
    case 1
    with "1.prems" have "digit_char m = digit_char n"
      by (simp add: show_nat.simps[of m] show_nat.simps[of n])
    with 1 show ?thesis by (simp add: digit_char_inj)
  next
    case 2
    with "1.prems" show ?thesis
      by (simp add: show_nat.simps[of m] show_nat.simps[of n])
  next
    case 3
    with "1.prems" show ?thesis
      by (simp add: show_nat.simps[of m] show_nat.simps[of n])
  next
    case 4
    with "1.prems" have "show_nat (m div 10) = show_nat (n div 10)"
      and d: "digit_char (m mod 10) = digit_char (n mod 10)"
      by (simp_all add: show_nat.simps[of m] show_nat.simps[of n])
    with 4 "1.IH" have "m div 10 = n div 10" by blast
    moreover from d have "m mod 10 = n mod 10" by (simp add: digit_char_inj)
    ultimately show ?thesis by (metis div_mult_mod_eq)
  qed
qed

lemma show_nat_eq [simp]: "show_nat m = show_nat n \<longleftrightarrow> m = n"
  using show_nat_inj by blast

lemma show_nat_digits: "c \<in> set (show_nat n) \<Longrightarrow> 48 \<le> (of_char c :: nat) \<and> (of_char c :: nat) < 58"
proof (induction n rule: show_nat.induct)
  case (1 n)
  then show ?case
    using of_char_digit[of n] of_char_digit[of "n mod 10"] by (subst (asm) (2) show_nat.simps) (auto split: if_splits)
qed

subsection \<open>Lists, maps and folds\<close>

text \<open>The fold of a loop body over the events it reads, in the order it reads them.\<close>

lemma foldl_invariant:
  assumes "P s" and "\<And>s x. x \<in> set xs \<Longrightarrow> P s \<Longrightarrow> P (f s x)"
  shows "P (foldl f s xs)"
  using assms by (induction xs arbitrary: s) auto

lemma nth_list_update_cases:
  "i < length xs \<Longrightarrow> xs[i := v] ! j = (if i = j then v else xs ! j)"
  by (simp add: nth_list_update)

lemma map_of_eq_Some_set: "distinct (map fst m) \<Longrightarrow> map_of m k = Some v \<longleftrightarrow> (k, v) \<in> set m"
  by simp

lemma distinct_set_singleton: "distinct xs \<Longrightarrow> set xs = {k} \<Longrightarrow> xs = [k]"
proof (cases xs)
  case (Cons y ys)
  assume "distinct xs" "set xs = {k}"
  with Cons have "y = k" "set ys \<subseteq> {k}" "k \<notin> set ys" by auto
  then have "ys = []" by (cases ys) auto
  with Cons \<open>y = k\<close> show ?thesis by simp
qed simp

lemma sort_key_unique:
  assumes "mset xs = mset ys" and "distinct (map f xs)"
  shows "sort_key f xs = sort_key f ys"
proof (rule properties_for_sort_key)
  show "mset (sort_key f ys) = mset xs" using assms(1) by simp
  show "sorted (map f (sort_key f ys))" by simp
next
  fix k assume "k \<in> set (sort_key f ys)"
  then have k: "k \<in> set xs" using assms(1) by (metis mset_eq_setD set_sort)
  have inj: "inj_on f (set xs)" and dx: "distinct xs"
    using assms(2) by (auto simp: distinct_map)
  have dy: "distinct ys" using assms(1) dx by (metis mset_eq_imp_distinct_iff)
  have "filter (\<lambda>x. f k = f x) zs = [k]" if "set zs = set xs" "distinct zs" for zs
  proof -
    have "set (filter (\<lambda>x. f k = f x) zs) = {k}"
      using that(1) k inj by (auto simp: inj_on_def)
    moreover have "distinct (filter (\<lambda>x. f k = f x) zs)" using that(2) by simp
    ultimately show ?thesis by (rule distinct_set_singleton[rotated])
  qed
  then have "filter (\<lambda>x. f k = f x) (sort_key f ys) = [k]" "filter (\<lambda>x. f k = f x) xs = [k]"
    using assms(1) dx dy by (auto dest: mset_eq_setD)
  then show "filter (\<lambda>x. f k = f x) (sort_key f ys) = filter (\<lambda>x. f k = f x) xs" by simp
qed

end
