(* ===== verification/Json.thy ===== *)
theory Json
  imports Prelude
begin

text \<open>
  JSON values (\<^verbatim>\<open>serde_json::Value\<close>) with the accessors the program uses, and
  \<^verbatim>\<open>sort_value_keys\<close> of \<^verbatim>\<open>meepo-core/src/runtime_event.rs\<close>: the
  canonical member order behind the ledger's payloads and the argument digests.

  An object is the list of its members in the map's iteration order; \<open>json_wf\<close> says that
  no object has two members with one key, which \<^verbatim>\<open>serde_json::Map\<close> guarantees.
  A number that is no integer is kept as its text.
\<close>

datatype json =
    JNull
  | JBool bool
  | JInt int
  | JFloat string
  | JStr string
  | JArr "json list"
  | JObj "(string \<times> json) list"

subsection \<open>Accessors\<close>

fun json_get :: "json \<Rightarrow> string \<Rightarrow> json option" where
  "json_get (JObj m) k = map_of m k"
| "json_get _ k = None"

fun as_str :: "json \<Rightarrow> string option" where
  "as_str (JStr s) = Some s"
| "as_str _ = None"

fun as_bool :: "json \<Rightarrow> bool option" where
  "as_bool (JBool b) = Some b"
| "as_bool _ = None"

text \<open>\<^verbatim>\<open>as_i64\<close> answers for the integers an \<^verbatim>\<open>i64\<close> can hold.\<close>

fun as_i64 :: "json \<Rightarrow> int option" where
  "as_i64 (JInt i) = (if - (2 ^ 63) \<le> i \<and> i < 2 ^ 63 then Some i else None)"
| "as_i64 _ = None"

fun as_array :: "json \<Rightarrow> json list option" where
  "as_array (JArr xs) = Some xs"
| "as_array _ = None"

fun is_object :: "json \<Rightarrow> bool" where
  "is_object (JObj _) = True"
| "is_object _ = False"

text \<open>
  \<^verbatim>\<open>pointer("/a/b")\<close>, with the path split into its tokens; the tokens used by the
  program are names, which never index an array.
\<close>

fun json_pointer :: "json \<Rightarrow> string list \<Rightarrow> json option" where
  "json_pointer v [] = Some v"
| "json_pointer v (k # ks) = (case json_get v k of None \<Rightarrow> None | Some w \<Rightarrow> json_pointer w ks)"

text \<open>\<^verbatim>\<open>v[k] = w\<close> on an object: replace the member or add it at the end.\<close>

fun assoc_set :: "'k \<Rightarrow> 'a \<Rightarrow> ('k \<times> 'a) list \<Rightarrow> ('k \<times> 'a) list" where
  "assoc_set k w [] = [(k, w)]"
| "assoc_set k w ((k', w') # m) = (if k = k' then (k, w) # m else (k', w') # assoc_set k w m)"

lemma map_of_assoc_set [simp]: "map_of (assoc_set k w m) = (map_of m)(k \<mapsto> w)"
  by (induction m) auto

definition str_of :: "json option \<Rightarrow> string option" where
  "str_of v = Option.bind v as_str"

definition get_str :: "json \<Rightarrow> string \<Rightarrow> string option" where
  "get_str v k = str_of (json_get v k)"

subsection \<open>Canonical member order\<close>

fun sort_value_keys :: "json \<Rightarrow> json" where
  "sort_value_keys (JObj m) =
     JObj (sort_key fst (map (\<lambda>(k, v). (k, sort_value_keys v)) m))"
| "sort_value_keys (JArr xs) = JArr (map sort_value_keys xs)"
| "sort_value_keys v = v"

fun json_wf :: "json \<Rightarrow> bool" where
  "json_wf (JObj m) = (distinct (map fst m) \<and> (\<forall>(k, v) \<in> set m. json_wf v))"
| "json_wf (JArr xs) = (\<forall>v \<in> set xs. json_wf v)"
| "json_wf _ = True"

fun keys_sorted :: "json \<Rightarrow> bool" where
  "keys_sorted (JObj m) = (sorted (map fst m) \<and> (\<forall>(k, v) \<in> set m. keys_sorted v))"
| "keys_sorted (JArr xs) = (\<forall>v \<in> set xs. keys_sorted v)"
| "keys_sorted _ = True"

text \<open>
  Two values that differ in the order of object members only, at any depth: the members
  are the same up to a permutation, member by member related.
\<close>

inductive same_members :: "json \<Rightarrow> json \<Rightarrow> bool" where
  same_obj: "list_all2 (\<lambda>a b. fst a = fst b \<and> same_members (snd a) (snd b)) m m' \<Longrightarrow>
     mset m' = mset m'' \<Longrightarrow> same_members (JObj m) (JObj m'')"
| same_arr: "list_all2 same_members xs ys \<Longrightarrow> same_members (JArr xs) (JArr ys)"
| same_atom: "same_members v v"

lemma sort_value_keys_sorted: "keys_sorted (sort_value_keys v)"
  by (induction v rule: sort_value_keys.induct) auto

lemma map_fst_sort_members:
  "distinct (map fst (sort_key fst (map (\<lambda>(k, v). (k, f v)) m))) \<longleftrightarrow> distinct (map fst m)"
proof -
  have "mset (map fst (sort_key fst (map (\<lambda>(k, v). (k, f v)) m))) = mset (map fst m)"
    by (simp add: image_mset.compositionality comp_def case_prod_beta)
  then show ?thesis by (rule mset_eq_imp_distinct_iff)
qed

lemma sort_value_keys_wf: "json_wf v \<Longrightarrow> json_wf (sort_value_keys v)"
proof (induction v rule: sort_value_keys.induct)
  case (1 m)
  then have "\<forall>(k, v) \<in> set m. json_wf (sort_value_keys v)" by fastforce
  with "1.prems" show ?case
    by (auto simp: map_fst_sort_members simp del: distinct_map)
qed auto

lemma sort_value_keys_fixed: "keys_sorted v \<Longrightarrow> sort_value_keys v = v"
proof (induction v rule: sort_value_keys.induct)
  case (1 m)
  then have "map (\<lambda>(k, v). (k, sort_value_keys v)) m = m"
    by (intro map_idI) auto
  with "1.prems" show ?case by (simp add: sort_key_id_if_sorted)
next
  case (2 xs)
  then show ?case by (auto intro: map_idI)
qed auto

lemma map_of_sort_key:
  assumes "distinct (map fst m)"
  shows "map_of (sort_key fst m) = map_of m"
proof -
  have "distinct (map fst (sort_key fst m))"
    by (metis assms mset_eq_imp_distinct_iff mset_map mset_sort)
  then show ?thesis using assms by (simp add: map_of_inject_set)
qed

lemma json_get_sort_value_keys:
  assumes "json_wf v"
  shows "json_get (sort_value_keys v) k = map_option sort_value_keys (json_get v k)"
proof (cases v)
  case (JObj m)
  have d: "distinct (map fst (map (\<lambda>(k, v). (k, sort_value_keys v)) m))"
    using assms JObj by (simp add: comp_def case_prod_beta)
  show ?thesis
    unfolding JObj sort_value_keys.simps json_get.simps map_of_sort_key[OF d]
    by (simp add: map_of_map case_prod_beta)
qed auto

lemma sort_value_keys_same_members:
  assumes "same_members v w" and "json_wf v"
  shows "sort_value_keys v = sort_value_keys w"
  using assms
proof (induction rule: same_members.induct)
  case (same_obj m m' m'')
  let ?f = "\<lambda>(k, v). (k, sort_value_keys v)"
  have "map ?f m = map ?f m'"
    using same_obj.IH same_obj.prems
  proof (induction m arbitrary: m')
    case (Cons a m)
    then show ?case by (cases a) (fastforce simp: list_all2_Cons1)
  qed simp
  moreover have "sort_key fst (map ?f m') = sort_key fst (map ?f m'')"
  proof (rule sort_key_unique)
    show "mset (map ?f m') = mset (map ?f m'')" using same_obj.hyps by simp
    have "map fst (map ?f m') = map fst m'" by (simp add: comp_def case_prod_beta)
    moreover have "map fst (map ?f m) = map fst m" by (simp add: comp_def case_prod_beta)
    ultimately have "map fst m' = map fst m" using \<open>map ?f m = map ?f m'\<close> by metis
    then show "distinct (map fst (map ?f m'))"
      using same_obj.prems \<open>map fst (map ?f m') = map fst m'\<close> by (metis json_wf.simps(1))
  qed
  ultimately show ?case by simp
next
  case (same_arr xs ys)
  then have "map sort_value_keys xs = map sort_value_keys ys"
  proof (induction xs arbitrary: ys)
    case (Cons x xs)
    then show ?case by (auto simp: list_all2_Cons1)
  qed simp
  then show ?case by simp
qed simp

end
