(* ===== verification/Permission.thy ===== *)
theory Permission
  imports Json
begin

text \<open>
  Tool categories, the mode and category policy, and the shell command categorizer
  (\<^verbatim>\<open>meepo-core/src/permission.rs\<close>).

  The regular expression engine is another crate: \<open>re_match\<close> says whether a pattern matches
  somewhere in a text, \<open>re_group\<close> gives the first capture group of a match.  The patterns are
  the source's, with a tilde for the backslash (\<open>re_lit\<close>); every property here holds for any
  engine.
\<close>

datatype permission_mode = Mode_Explore | Mode_Ask | Mode_Execute | Mode_Bypass

datatype tool_category =
  Cat_Read | Cat_WebRead | Cat_FileWrite | Cat_FsDestructive | Cat_ShellUnsafe
| Cat_GitDestructive | Cat_Privileged | Cat_CustomTool

datatype policy_decision = Policy_Allow | Policy_Prompt | Policy_Block

definition builtin_tool_category :: "string \<Rightarrow> tool_category option" where
  "builtin_tool_category name =
     (if name \<in> set [''read_file'', ''Read'', ''grep'', ''Grep'', ''glob'', ''Glob'', ''list_dir'']
      then Some Cat_Read
      else if name \<in> set [''web_fetch'', ''WebFetch'', ''web_search'', ''WebSearch''] then Some Cat_WebRead
      else if name \<in> set [''write_file'', ''Write'', ''edit'', ''Edit'', ''multi_edit'', ''MultiEdit'']
      then Some Cat_FileWrite
      else if name \<in> set [''bash'', ''Bash''] then Some Cat_ShellUnsafe
      else None)"

definition decide_policy :: "permission_mode \<Rightarrow> tool_category \<Rightarrow> policy_decision" where
  "decide_policy mode cat =
     (case (mode, cat) of
        (Mode_Bypass, _) \<Rightarrow> Policy_Allow
      | (Mode_Explore, Cat_Read) \<Rightarrow> Policy_Allow
      | (Mode_Explore, Cat_WebRead) \<Rightarrow> Policy_Allow
      | (Mode_Explore, _) \<Rightarrow> Policy_Block
      | (Mode_Ask, Cat_Read) \<Rightarrow> Policy_Allow
      | (Mode_Ask, Cat_WebRead) \<Rightarrow> Policy_Allow
      | (Mode_Ask, _) \<Rightarrow> Policy_Prompt
      | (Mode_Execute, Cat_Read) \<Rightarrow> Policy_Allow
      | (Mode_Execute, Cat_WebRead) \<Rightarrow> Policy_Allow
      | (Mode_Execute, Cat_FileWrite) \<Rightarrow> Policy_Allow
      | (Mode_Execute, _) \<Rightarrow> Policy_Prompt)"

subsection \<open>Patterns\<close>

definition re_lit :: "string \<Rightarrow> string" where
  "re_lit p = map (\<lambda>c. if c = CHR 0x7E then CHR 0x5C else c) p"

definition WRAPPER_COMMANDS :: "string list" where
  "WRAPPER_COMMANDS = [''nohup'', ''nice'', ''time'', ''timeout'', ''env'', ''command'', ''exec'', ''stdbuf'']"

definition privileged_prefixes :: "string list" where
  "privileged_prefixes = [''sudo '', ''su '', ''chmod '', ''chown '', ''chgrp '', ''mount '', ''umount '',
     ''kill '', ''killall '', ''systemctl '', ''launchctl '', ''shutdown'', ''reboot'']"

definition privileged_patterns :: "string list" where
  "privileged_patterns = map re_lit
     [''(?i)^(kill|stop-process|spps|taskkill)~b'',
      ''(?i)(^|~s)-verb~s+runas~b'',
      ''(?i)^((start|stop|restart|set|new|remove|suspend|resume)-service|sasv|spsv)~b'',
      ''(?i)^sc~s+(stop|start|pause|continue|delete|config|create|failure|sdset)~b'',
      ''(?i)^net~s+(stop|start|pause|continue)~b'',
      ''(?i)^(stop-computer|restart-computer)~b'',
      ''(?i)^(icacls|takeown|set-acl|runas)~b'']"

definition fs_destructive_patterns :: "string list" where
  "fs_destructive_patterns = map re_lit
     [''^dd~s+'', ''^truncate~b'', ''^shred~b'', ''^mkfs~b'',
      ''^git~s+restore~s+(~.~s*$|--~s+~S+)'',
      ''^git~s+checkout~s+--~s+~S+'',
      ''^find~s+.*~s-delete~b'',
      ''^find~s+.*~s-exec~s+.*~b(rm|shred|truncate|dd)~b'',
      ''^xargs~s+.*~b(rm|shred|truncate|dd)~b'',
      ''(?i)^remove-item~b'',
      ''(?i)^(rm|rmdir|ri|del|erase|rd)~b'',
      ''(?i)^(clear-content|clc)~b'']"

definition pipe_destructive_patterns :: "string list" where
  "pipe_destructive_patterns = map re_lit
     [''~|~s*xargs~b[^~n;&|]*~b(rm|shred|truncate|dd)~b'',
      ''~|~s*(sh|bash|zsh)~b'']"

definition git_destructive_patterns :: "string list" where
  "git_destructive_patterns = map re_lit
     [''^git~s+reset~s+--hard~b'', ''^git~s+push~s+(--force|-f)~b'', ''^git~s+branch~s+-D~b'',
      ''^git~s+clean~s+-fd?~b'', ''^git~s+checkout~s+~.~s*$'', ''^git~s+rebase~s+-i~b'']"

definition nested_shell_patterns :: "(string \<times> string) list" where
  "nested_shell_patterns = map (\<lambda>(a, b). (re_lit a, re_lit b))
     [(''^(sh|bash|zsh)$'', ''(?:^|~s)-~w*c~s+([~s~S]+)$''),
      (''(?i)^(pwsh|powershell)$'', ''(?i)~s-c(?:ommand)?~s+([~s~S]+)$''),
      (''(?i)^cmd$'', ''(?i)~s/[ck]~s+([~s~S]+)$'')]"

subsection \<open>Segments\<close>

definition segment_separator :: "char \<Rightarrow> bool" where
  "segment_separator c \<longleftrightarrow>
     c \<in> set [CHR ''|'', CHR '';'', CHR ''&'', CHR 0x0A, CHR ''('', CHR '')'', CHR ''{'', CHR ''}'', CHR 0x60]"

definition command_segments :: "string \<Rightarrow> string list" where
  "command_segments cmd = filter (\<lambda>s. s \<noteq> []) (map str_trim (split_on segment_separator cmd))"

definition is_quote :: "char \<Rightarrow> bool" where
  "is_quote c \<longleftrightarrow> c = CHR 0x27 \<or> c = CHR 0x22"

definition split_head :: "string \<Rightarrow> (string \<times> string) option" where
  "split_head rest =
     (case trim_start rest of
        [] \<Rightarrow> None
      | first # after_quote \<Rightarrow>
          (if is_quote first
           then let inner = takeWhile (\<lambda>c. c \<noteq> first) after_quote in
             (if first \<notin> set after_quote then None
              else if inner = [] then None
              else Some (inner, trim_start (tl (dropWhile (\<lambda>c. c \<noteq> first) after_quote))))
           else let (head, tail) = break_ws (first # after_quote) in Some (head, trim_start tail)))"

definition is_digit :: "char \<Rightarrow> bool" where
  "is_digit c \<longleftrightarrow> CHR ''0'' \<le> c \<and> c \<le> CHR ''9''"

definition option_like :: "string \<Rightarrow> bool" where
  "option_like token \<longleftrightarrow>
     (starts_with token ''-'' \<and> 1 < length token) \<or> CHR ''='' \<in> set token \<or>
     (list_all (\<lambda>c. is_digit c \<or> c \<in> set ''smhd'') token \<and> list_ex is_digit token)"

lemma first_word_length: "first_word r = Some t \<Longrightarrow> t \<noteq> [] \<and> length t \<le> length (trim_start r)"
proof -
  assume a: "first_word r = Some t"
  then have t: "t = fst (break_ws (trim_start r))" "trim_start r \<noteq> []"
    by (auto simp: first_word_def Let_def split: if_splits)
  have "ws_len (trim_start r) = 0"
    by (induction r rule: trim_start.induct) (simp add: trim_start.simps)
  with t have "t \<noteq> []" by (cases "trim_start r") (auto split: prod.splits)
  moreover have "length t \<le> length (trim_start r)"
    unfolding t(1) by (metis break_ws_append length_append le_add1)
  ultimately show ?thesis by simp
qed

lemma trim_start_length: "length (trim_start s) \<le> length s"
  by (induction s rule: trim_start.induct) (subst trim_start.simps, auto)

function strip_options :: "string \<Rightarrow> string" where
  "strip_options rest =
     (case first_word rest of
        None \<Rightarrow> rest
      | Some token \<Rightarrow>
          if option_like token then strip_options (trim_start (drop (length token) rest)) else rest)"
  by pat_completeness auto
termination
proof (relation "measure length", simp)
  fix rest token assume "first_word rest = Some token"
  with first_word_length[of rest token] trim_start_length[of rest] trim_start_length[of "drop (length token) rest"]
  have "length (trim_start (drop (length token) rest)) < length rest" by (cases token) auto
  then show "(trim_start (drop (length token) rest), rest) \<in> measure length" by simp
qed

declare strip_options.simps [simp del]

definition strip_leading_options :: "string \<Rightarrow> string" where
  "strip_leading_options tail = strip_options (trim_start tail)"

text \<open>The first token without quotes, carets, a leading backslash, a path and \<^verbatim>\<open>.exe\<close>.\<close>

definition clean_head :: "string \<Rightarrow> string" where
  "clean_head head =
     (let h = filter (\<lambda>c. \<not> is_quote c \<and> c \<noteq> CHR ''^'') head;
          h = (if starts_with h [CHR 0x5C] then tl h else h);
          h = rev (takeWhile (\<lambda>c. c \<noteq> CHR ''/'' \<and> c \<noteq> CHR 0x5C) (rev h))
      in if ends_with (to_ascii_lowercase h) ''.exe'' then take (length h - 4) h else h)"

fun normalize_rounds :: "nat \<Rightarrow> string \<Rightarrow> string" where
  "normalize_rounds 0 rest = rest"
| "normalize_rounds (Suc n) rest =
     (case split_head rest of
        None \<Rightarrow> rest
      | Some (head, tail) \<Rightarrow>
          (let h = clean_head head in
           if to_ascii_lowercase h \<in> set WRAPPER_COMMANDS
           then normalize_rounds n (strip_leading_options tail)
           else if tail = [] then h else h @ '' '' @ tail))"

definition normalize_segment_head :: "string \<Rightarrow> string" where
  "normalize_segment_head segment = normalize_rounds 5 segment"

definition unquote :: "string \<Rightarrow> string" where
  "unquote payload =
     (if 2 \<le> length payload \<and> is_quote (hd payload) \<and> hd payload = last payload
      then butlast (tl payload) else payload)"

fun first_shell_payload ::
    "(string \<Rightarrow> string \<Rightarrow> bool) \<Rightarrow> (string \<Rightarrow> string \<Rightarrow> string option) \<Rightarrow> string \<Rightarrow> string \<Rightarrow>
     (string \<times> string) list \<Rightarrow> string option" where
  "first_shell_payload re_match re_group segment head [] = None"
| "first_shell_payload re_match re_group segment head ((head_re, flag_re) # ps) =
     (if \<not> re_match head_re head then first_shell_payload re_match re_group segment head ps
      else map_option (\<lambda>m. unquote (str_trim m)) (re_group flag_re segment))"

definition nested_shell_payload ::
    "(string \<Rightarrow> string \<Rightarrow> bool) \<Rightarrow> (string \<Rightarrow> string \<Rightarrow> string option) \<Rightarrow> string \<Rightarrow> string option" where
  "nested_shell_payload re_match re_group segment =
     (case first_word segment of
        None \<Rightarrow> None
      | Some head \<Rightarrow> first_shell_payload re_match re_group segment head nested_shell_patterns)"

fun scan_segments ::
    "(string \<Rightarrow> string \<Rightarrow> bool) \<Rightarrow> (string \<Rightarrow> string \<Rightarrow> string option) \<Rightarrow> string \<Rightarrow> nat \<Rightarrow> string list" where
  "scan_segments re_match re_group cmd 0 = map normalize_segment_head (command_segments cmd)"
| "scan_segments re_match re_group cmd (Suc depth) =
     concat (map (\<lambda>raw. let segment = normalize_segment_head raw in
       segment # (case nested_shell_payload re_match re_group segment of
                    None \<Rightarrow> [] | Some payload \<Rightarrow> scan_segments re_match re_group payload depth))
       (command_segments cmd))"

definition is_privileged_segment :: "(string \<Rightarrow> string \<Rightarrow> bool) \<Rightarrow> string \<Rightarrow> bool" where
  "is_privileged_segment re_match segment \<longleftrightarrow>
     list_ex (starts_with (to_ascii_lowercase segment)) privileged_prefixes \<or>
     list_ex (\<lambda>re. re_match re segment) privileged_patterns"

definition all_segments ::
    "(string \<Rightarrow> string \<Rightarrow> bool) \<Rightarrow> (string \<Rightarrow> string \<Rightarrow> string option) \<Rightarrow> string \<Rightarrow> string list" where
  "all_segments re_match re_group cmd =
     scan_segments re_match re_group cmd 2 @
     (if CHR 0x60 \<in> set cmd
      then scan_segments re_match re_group (filter (\<lambda>c. c \<noteq> CHR 0x60) cmd) 2 else [])"

definition categorize_bash ::
    "(string \<Rightarrow> string \<Rightarrow> bool) \<Rightarrow> (string \<Rightarrow> string \<Rightarrow> string option) \<Rightarrow> string \<Rightarrow> tool_category" where
  "categorize_bash re_match re_group cmd =
     (let segments = all_segments re_match re_group cmd in
      if list_ex (is_privileged_segment re_match) segments then Cat_Privileged
      else if list_ex (\<lambda>s. list_ex (\<lambda>re. re_match re s) fs_destructive_patterns) segments
      then Cat_FsDestructive
      else if list_ex (\<lambda>re. re_match re (str_trim cmd)) pipe_destructive_patterns
      then Cat_FsDestructive
      else if list_ex (\<lambda>s. list_ex (\<lambda>re. re_match re s) git_destructive_patterns) segments
      then Cat_GitDestructive
      else Cat_ShellUnsafe)"

definition classify_tool_use ::
    "(string \<Rightarrow> string \<Rightarrow> bool) \<Rightarrow> (string \<Rightarrow> string \<Rightarrow> string option) \<Rightarrow> string \<Rightarrow> json \<Rightarrow> tool_category" where
  "classify_tool_use re_match re_group name args =
     (let category = (case builtin_tool_category name of Some c \<Rightarrow> c | None \<Rightarrow> Cat_CustomTool) in
      if category = Cat_ShellUnsafe
      then (case get_str args ''command'' of
              Some cmd \<Rightarrow> categorize_bash re_match re_group cmd | None \<Rightarrow> category)
      else category)"

subsection \<open>What the policy guarantees\<close>

lemma categorize_bash_range:
  "categorize_bash re_match re_group cmd \<in> {Cat_Privileged, Cat_FsDestructive, Cat_GitDestructive, Cat_ShellUnsafe}"
  by (simp add: categorize_bash_def Let_def)

lemma classify_cases:
  "classify_tool_use re_match re_group name args \<in>
     (case builtin_tool_category name of
        None \<Rightarrow> {Cat_CustomTool}
      | Some c \<Rightarrow> if c = Cat_ShellUnsafe
          then {Cat_Privileged, Cat_FsDestructive, Cat_GitDestructive, Cat_ShellUnsafe} else {c})"
proof (cases "builtin_tool_category name")
  case None
  then show ?thesis by (simp add: classify_tool_use_def)
next
  case (Some c)
  show ?thesis
  proof (cases "c = Cat_ShellUnsafe")
    case True
    with Some categorize_bash_range show ?thesis
      by (simp add: classify_tool_use_def split: option.split)
  next
    case False
    with Some show ?thesis by (simp add: classify_tool_use_def)
  qed
qed

definition read_tools :: "string list" where
  "read_tools = [''read_file'', ''Read'', ''grep'', ''Grep'', ''glob'', ''Glob'', ''list_dir'']"

definition web_tools :: "string list" where
  "web_tools = [''web_fetch'', ''WebFetch'', ''web_search'', ''WebSearch'']"

definition write_tools :: "string list" where
  "write_tools = [''write_file'', ''Write'', ''edit'', ''Edit'', ''multi_edit'', ''MultiEdit'']"

lemma tool_names_disjoint:
  "set read_tools \<inter> set web_tools = {}" "(set read_tools \<union> set web_tools) \<inter> set write_tools = {}"
  by (simp_all add: read_tools_def web_tools_def write_tools_def)

lemma builtin_tool_category_eq:
  "builtin_tool_category name =
     (if name \<in> set read_tools then Some Cat_Read else if name \<in> set web_tools then Some Cat_WebRead
      else if name \<in> set write_tools then Some Cat_FileWrite
      else if name \<in> set [''bash'', ''Bash''] then Some Cat_ShellUnsafe else None)"
  unfolding builtin_tool_category_def read_tools_def web_tools_def write_tools_def by (rule refl)

lemma classify_reads:
  "classify_tool_use re_match re_group name args \<in> {Cat_Read, Cat_WebRead} \<longleftrightarrow> name \<in> set (read_tools @ web_tools)"
  using classify_cases[of re_match re_group name args] unfolding builtin_tool_category_eq
  by (auto split: if_splits)

lemma classify_writes:
  "classify_tool_use re_match re_group name args = Cat_FileWrite \<longleftrightarrow> name \<in> set write_tools"
proof -
  have "name \<in> set write_tools \<Longrightarrow> name \<notin> set read_tools \<and> name \<notin> set web_tools"
    using tool_names_disjoint by blast
  then show ?thesis
    using classify_cases[of re_match re_group name args] unfolding builtin_tool_category_eq
    by (auto split: if_splits)
qed

lemma builtin_shell: "name \<in> set [''bash'', ''Bash''] \<Longrightarrow> builtin_tool_category name = Some Cat_ShellUnsafe"
  by (elim set_ConsD[THEN disjE]) (simp_all add: builtin_tool_category_def)

text \<open>
  No shell command is ever allowed without asking outside Bypass, whatever
  the command and whatever the patterns match: Explore refuses it, Ask and Execute prompt.
\<close>

lemma no_shell_auto_allowed:
  assumes "name \<in> set [''bash'', ''Bash''] \<or> builtin_tool_category name = None"
  shows "decide_policy mode (classify_tool_use re_match re_group name args) =
    (case mode of Mode_Bypass \<Rightarrow> Policy_Allow | Mode_Explore \<Rightarrow> Policy_Block | _ \<Rightarrow> Policy_Prompt)"
proof -
  have "builtin_tool_category name \<in> {None, Some Cat_ShellUnsafe}"
    using assms builtin_shell[of name] by blast
  then have "classify_tool_use re_match re_group name args \<notin> {Cat_Read, Cat_WebRead, Cat_FileWrite}"
    using classify_cases[of re_match re_group name args] by auto
  then show ?thesis
    by (cases "classify_tool_use re_match re_group name args"; cases mode) (auto simp: decide_policy_def)
qed

lemma no_shell_auto_allowed_witness:
  "decide_policy Mode_Execute (classify_tool_use (\<lambda>_ _. False) (\<lambda>_ _. None) ''Bash''
     (JObj [(''command'', JStr ''ls'')])) = Policy_Prompt"
  by (subst no_shell_auto_allowed) simp_all

text \<open>
  In Explore the only calls that run are those of the eleven read tools, and
  nothing is ever prompted; in Ask and Execute every other call is prompted, except that Execute
  also runs the six file writers.  Modes are ordered: what a stricter mode allows every weaker
  one allows.
\<close>

lemma explore_only_reads:
  "let d = (\<lambda>mode. decide_policy mode (classify_tool_use re_match re_group name args));
       reads = [''read_file'', ''Read'', ''grep'', ''Grep'', ''glob'', ''Glob'', ''list_dir'',
                ''web_fetch'', ''WebFetch'', ''web_search'', ''WebSearch''];
       writes = [''write_file'', ''Write'', ''edit'', ''Edit'', ''multi_edit'', ''MultiEdit'']
   in (d Mode_Explore = Policy_Allow \<longleftrightarrow> name \<in> set reads) \<and> d Mode_Explore \<noteq> Policy_Prompt \<and>
      (d Mode_Ask = Policy_Allow \<longleftrightarrow> name \<in> set reads) \<and> d Mode_Ask \<noteq> Policy_Block \<and>
      (d Mode_Execute = Policy_Allow \<longleftrightarrow> name \<in> set (reads @ writes)) \<and> d Mode_Execute \<noteq> Policy_Block \<and>
      d Mode_Bypass = Policy_Allow"
proof -
  let ?c = "classify_tool_use re_match re_group name args"
  note tools = read_tools_def web_tools_def write_tools_def append.simps
  note rd = classify_reads[of re_match re_group name args, unfolded tools]
  note wr = classify_writes[of re_match re_group name args, unfolded tools]
  have ex: "decide_policy Mode_Explore c = (if c \<in> {Cat_Read, Cat_WebRead} then Policy_Allow else Policy_Block)"
    "decide_policy Mode_Ask c = (if c \<in> {Cat_Read, Cat_WebRead} then Policy_Allow else Policy_Prompt)"
    "decide_policy Mode_Execute c =
       (if c \<in> {Cat_Read, Cat_WebRead} \<or> c = Cat_FileWrite then Policy_Allow else Policy_Prompt)"
    "decide_policy Mode_Bypass c = Policy_Allow" for c
    by (cases c; simp add: decide_policy_def)+
  show ?thesis unfolding Let_def ex rd wr append.simps set_append by simp
qed

subsection \<open>The categorizer looks at every segment\<close>

lemma split_on_concat: "concat (split_on p s) = filter (\<lambda>c. \<not> p c) s"
proof (induction s)
  case (Cons c s)
  then show ?case using split_on_not_Nil[of p s] by (cases "split_on p s") auto
qed simp

lemma scan_segments_top:
  "s \<in> set (command_segments cmd) \<Longrightarrow> normalize_segment_head s \<in> set (scan_segments re_match re_group cmd d)"
  by (cases d) (auto simp: Let_def)

text \<open>
  A destructive command cannot hide behind others: splitting drops
  nothing but separators, and whenever one of the segments, with wrappers, quotes, paths and
  escapes of its head removed, matches a destructive pattern, the command is reported as
  destructive or privileged.
\<close>

lemma destructive_segment_found:
  assumes "s \<in> set (command_segments cmd)" and "re \<in> set fs_destructive_patterns"
    and "re_match re (normalize_segment_head s)"
  shows "categorize_bash re_match re_group cmd \<in> {Cat_Privileged, Cat_FsDestructive} \<and>
    concat (split_on segment_separator cmd) = filter (\<lambda>c. \<not> segment_separator c) cmd"
proof -
  have "normalize_segment_head s \<in> set (all_segments re_match re_group cmd)"
    using scan_segments_top[OF assms(1)] by (simp add: all_segments_def)
  with assms(2,3) have "list_ex (\<lambda>s. list_ex (\<lambda>re. re_match re s) fs_destructive_patterns)
      (all_segments re_match re_group cmd)" by (auto simp: list_ex_iff)
  then show ?thesis by (simp add: categorize_bash_def Let_def split_on_concat)
qed

text \<open>An engine for the witness: it knows one pattern, a first word \<^verbatim>\<open>rm\<close>.\<close>

definition sample_engine :: "string \<Rightarrow> string \<Rightarrow> bool" where
  "sample_engine re s \<longleftrightarrow> re = re_lit ''(?i)^(rm|rmdir|ri|del|erase|rd)~b'' \<and> starts_with s ''rm ''"

lemmas trim_simps = str_trim_def trim_end_def trim_start.simps trim_start_rev.simps ascii_ws_def ws2_def ws3_def

lemma sample_segments: "command_segments ''cd x; timeout 30 /bin/rm y'' = [''cd x'', ''timeout 30 /bin/rm y'']"
  by (simp add: command_segments_def segment_separator_def trim_simps)

lemma sample_normalized: "normalize_segment_head ''timeout 30 /bin/rm y'' = ''rm y''"
proof -
  have h: "split_head ''timeout 30 /bin/rm y'' = Some (''timeout'', ''30 /bin/rm y'')"
    "split_head ''/bin/rm y'' = Some (''/bin/rm'', ''y'')"
    by (simp_all add: split_head_def trim_simps is_quote_def)
  have o: "strip_leading_options ''30 /bin/rm y'' = ''/bin/rm y''"
  proof -
    have "option_like ''30''" "\<not> option_like ''/bin/rm''"
      by (simp_all add: option_like_def is_digit_def less_eq_char_def)
    then show ?thesis
      by (simp add: strip_leading_options_def strip_options.simps first_word_def trim_simps Let_def)
  qed
  have c: "clean_head ''timeout'' = ''timeout''" "clean_head ''/bin/rm'' = ''rm''"
    by (simp_all add: clean_head_def is_quote_def to_ascii_lowercase_def ascii_lower_def less_eq_char_def suffix_def Let_def)
  show ?thesis
    by (simp add: normalize_segment_head_def h o c eval_nat_numeral to_ascii_lowercase_def ascii_lower_def
        WRAPPER_COMMANDS_def less_eq_char_def Let_def)
qed

lemma destructive_segment_found_witness:
  "categorize_bash sample_engine (\<lambda>_ _. None) ''cd x; timeout 30 /bin/rm y'' \<in> {Cat_Privileged, Cat_FsDestructive}"
proof -
  have "re_lit ''(?i)^(rm|rmdir|ri|del|erase|rd)~b'' \<in> set fs_destructive_patterns"
    by (simp add: fs_destructive_patterns_def)
  moreover have "sample_engine (re_lit ''(?i)^(rm|rmdir|ri|del|erase|rd)~b'')
      (normalize_segment_head ''timeout 30 /bin/rm y'')"
    by (simp add: sample_engine_def sample_normalized)
  ultimately show ?thesis
    using destructive_segment_found[of "''timeout 30 /bin/rm y''" "''cd x; timeout 30 /bin/rm y''" _ sample_engine
        "\<lambda>_ _. None"] sample_segments by simp
qed

subsection \<open>Wider modes\<close>

text \<open>The modes from the narrowest to the widest, the decisions from the most to the least permissive.\<close>

fun mode_rank :: "permission_mode \<Rightarrow> nat" where
  "mode_rank Mode_Explore = 0"
| "mode_rank Mode_Ask = 1"
| "mode_rank Mode_Execute = 2"
| "mode_rank Mode_Bypass = 3"

fun policy_rank :: "policy_decision \<Rightarrow> nat" where
  "policy_rank Policy_Allow = 0"
| "policy_rank Policy_Prompt = 1"
| "policy_rank Policy_Block = 2"

lemma mode_rank_inj: "mode_rank a = mode_rank b \<Longrightarrow> a = b"
  by (cases a; cases b) simp_all

lemma policy_rank_inj: "policy_rank a = policy_rank b \<Longrightarrow> a = b"
  by (cases a; cases b) simp_all

instantiation permission_mode :: linorder
begin

definition less_eq_permission_mode :: "permission_mode \<Rightarrow> permission_mode \<Rightarrow> bool" where
  "less_eq_permission_mode a b \<longleftrightarrow> mode_rank a \<le> mode_rank b"

definition less_permission_mode :: "permission_mode \<Rightarrow> permission_mode \<Rightarrow> bool" where
  "less_permission_mode a b \<longleftrightarrow> mode_rank a < mode_rank b"

instance
  by standard (auto simp: less_eq_permission_mode_def less_permission_mode_def intro: mode_rank_inj)

end

instantiation policy_decision :: linorder
begin

definition less_eq_policy_decision :: "policy_decision \<Rightarrow> policy_decision \<Rightarrow> bool" where
  "less_eq_policy_decision a b \<longleftrightarrow> policy_rank a \<le> policy_rank b"

definition less_policy_decision :: "policy_decision \<Rightarrow> policy_decision \<Rightarrow> bool" where
  "less_policy_decision a b \<longleftrightarrow> policy_rank a < policy_rank b"

instance
  by standard (auto simp: less_eq_policy_decision_def less_policy_decision_def intro: policy_rank_inj)

end

text \<open>A wider mode is never stricter about any category.\<close>

lemma decide_policy_antimono: "m \<le> m' \<Longrightarrow> decide_policy m' c \<le> decide_policy m c"
  by (cases m; cases m'; cases c)
    (simp_all add: less_eq_permission_mode_def less_eq_policy_decision_def decide_policy_def)

end
