(* ===== verification/Events.thy ===== *)
theory Events
  imports Json
begin

text \<open>
  The data contracts of \<^verbatim>\<open>meepo-core\<close>: the canonical runtime event
  (\<^verbatim>\<open>runtime_event.rs\<close>), the recovery facts (\<^verbatim>\<open>recovery_fact.rs\<close>), the
  backend's event stream (\<^verbatim>\<open>session_event.rs\<close>) and the conversation
  (\<^verbatim>\<open>backend.rs\<close>), with the operation identities derived from SHA-256.

  SHA-256 and the text form of a JSON value belong to other crates: they are the parameters
  \<open>sha256\<close> and \<open>json_text\<close> of the definitions that use them.
\<close>

subsection \<open>Provenance\<close>

datatype role = Role_User | Role_Model | Role_Tool | Role_System

datatype author = Author_User | Author_Host | Author_Agent | Author_Tool | Author_System

datatype status = Status_Streaming | Status_Completed | Status_Failed | Status_Aborted | Status_Cancelled

fun is_terminal :: "status \<Rightarrow> bool" where
  "is_terminal Status_Streaming = False"
| "is_terminal Status_Completed = True"
| "is_terminal Status_Failed = True"
| "is_terminal Status_Aborted = True"
| "is_terminal Status_Cancelled = True"

datatype origin = Origin_Provider | Origin_CodeMode

datatype model_visibility = Visible | Hidden

subsection \<open>Content\<close>

datatype content =
    Content_Text string "json option" "bool option"
  | Content_Thinking string "string option" "json option"
  | Content_FunctionCall (fc_id: string) (fc_name: string) (fc_args: json)
      "json option" (fc_provider_executed: "bool option")
  | Content_FunctionResponse (fr_id: string) (fr_name: string) (fr_result: json)
      (fr_is_error: "bool option") (fr_provider_executed: "bool option")
      (fr_provider_output: "json option")
  | Content_Error (err_message: string) (err_code: "string option")
      (err_reason: "string option") (err_details: "json option")

subsection \<open>Recovery facts\<close>

definition TOOL_RECONCILE_RESULT_FACT_KIND :: string where
  "TOOL_RECONCILE_RESULT_FACT_KIND = ''maka.tool.reconcile_result''"

definition TOOL_RECOVERY_DECISION_FACT_KIND :: string where
  "TOOL_RECOVERY_DECISION_FACT_KIND = ''maka.tool.recovery_decision''"

datatype reconcile_observation =
  MatchesExpectedState | MatchesPriorState | Diverged | Unreadable

record reconcile_result_fact =
  rr_protocol :: string
  rr_operation_id :: string
  rr_observation :: reconcile_observation
  rr_observation_schema :: string
  rr_observation_digest :: string

datatype recovery_disposition = Disposition_Completed | Disposition_Parked

record recovery_decision_fact =
  rd_protocol :: string
  rd_operation_id :: string
  rd_disposition :: recovery_disposition
  rd_reason_code :: string
  rd_evidence_event_ids :: "string list"
  rd_outcome_event_id :: "string option"

datatype recovery_fact =
    ReconcileResultFact nat reconcile_result_fact
  | RecoveryDecisionFact nat recovery_decision_fact

fun kind_str :: "recovery_fact \<Rightarrow> string" where
  "kind_str (ReconcileResultFact _ _) = TOOL_RECONCILE_RESULT_FACT_KIND"
| "kind_str (RecoveryDecisionFact _ _) = TOOL_RECOVERY_DECISION_FACT_KIND"

subsection \<open>Actions and references\<close>

definition TOOL_BOUNDARY_PROTOCOL_V1 :: string where
  "TOOL_BOUNDARY_PROTOCOL_V1 = ''t1_after_preflight_v1''"

datatype tool_recovery_mode =
  ReplaySafe | Idempotent | Reconcile | Reattach | OutcomeUnknown | NeverAutoRetry

record tool_dispatch =
  td_protocol :: string
  td_operation_id :: string
  td_provider_tool_call_id :: string
  td_tool_name :: string
  td_canonical_args_hash :: string
  td_recovery_mode :: tool_recovery_mode

record protocol_marker =
  tool_boundary :: string

datatype permission_decision = Decision_Allow | Decision_Deny

record permission_decision_action =
  pd_request_id :: string
  pd_decision :: permission_decision
  pd_remember_for_turn :: "bool option"
  pd_tool_name :: "string option"

record event_actions =
  state_delta :: "json option"
  artifact_delta :: "json option"
  permission_request :: "json option"
  permission_decision :: "permission_decision_action option"
  permission_answer_accepted :: "json option"
  permission_closure_accepted :: "json option"
  user_question_request :: "json option"
  user_question_answer_accepted :: "json option"
  transfer_to_agent :: "string option"
  end_invocation :: "bool option"
  token_usage :: "json option"
  tool_dispatch :: "tool_dispatch option"
  tool_recovery :: "recovery_fact option"
  runtime_protocol :: "protocol_marker option"
  continuation_start :: "json option"
  workspace_fact :: "json option"

definition default_actions :: event_actions where
  "default_actions = \<lparr>state_delta = None, artifact_delta = None, permission_request = None,
     permission_decision = None, permission_answer_accepted = None,
     permission_closure_accepted = None, user_question_request = None,
     user_question_answer_accepted = None, transfer_to_agent = None, end_invocation = None,
     token_usage = None, tool_dispatch = None, tool_recovery = None, runtime_protocol = None,
     continuation_start = None, workspace_fact = None\<rparr>"

record event_refs =
  stored_message_id :: "string option"
  trace_event_id :: "string option"
  ref_tool_call_id :: "string option"
  provider_event_id :: "string option"
  source_message_digest :: "string option"
  provider_request_trace_id :: "string option"
  artifact_id :: "string option"
  ref_operation_id :: "string option"
  parent_tool_call_id :: "string option"
  parent_operation_id :: "string option"
  step_id :: "string option"
  source_invocation_id :: "string option"
  source_run_id :: "string option"
  source_turn_id :: "string option"
  source_runtime_event_high_water :: "int option"

definition default_refs :: event_refs where
  "default_refs = \<lparr>stored_message_id = None, trace_event_id = None, ref_tool_call_id = None,
     provider_event_id = None, source_message_digest = None, provider_request_trace_id = None,
     artifact_id = None, ref_operation_id = None, parent_tool_call_id = None,
     parent_operation_id = None, step_id = None, source_invocation_id = None,
     source_run_id = None, source_turn_id = None, source_runtime_event_high_water = None\<rparr>"

subsection \<open>The runtime event\<close>

record runtime_event =
  ev_session_id :: string
  ev_invocation_id :: string
  ev_run_id :: string
  ev_turn_id :: string
  ev_branch :: "string option"
  ev_id :: string
  ev_ts :: int
  ev_role :: role
  ev_author :: author
  ev_origin :: "origin option"
  ev_model_visibility :: "model_visibility option"
  ev_status :: "status option"
  ev_content :: "content option"
  ev_actions :: "event_actions option"
  ev_refs :: "event_refs option"
  ev_partial :: "bool option"

text \<open>\<^verbatim>\<open>e.status.is_some_and(|s| s.is_terminal())\<close>\<close>

definition ev_terminal :: "runtime_event \<Rightarrow> bool" where
  "ev_terminal e = (case ev_status e of None \<Rightarrow> False | Some s \<Rightarrow> is_terminal s)"

subsection \<open>Identities derived from SHA-256\<close>

definition hex_digit :: "nat \<Rightarrow> char" where
  "hex_digit d = char_of (if d < 10 then 48 + d else 87 + d)"

definition hex_lower :: "string \<Rightarrow> string" where
  "hex_lower bs = concat (map (\<lambda>b. [hex_digit ((of_char b :: nat) div 16),
                                    hex_digit ((of_char b :: nat) mod 16)]) bs)"

definition canonical_tool_args_hash ::
    "(string \<Rightarrow> string) \<Rightarrow> (json \<Rightarrow> string) \<Rightarrow> string \<Rightarrow> json \<Rightarrow> string" where
  "canonical_tool_args_hash sha256 json_text tool_name args =
     ''sha256:'' @ hex_lower (sha256 (tool_name @ [CHR 0x1F] @ json_text (sort_value_keys args)))"

definition operation_id :: "(string \<Rightarrow> string) \<Rightarrow> string \<Rightarrow> string \<Rightarrow> string" where
  "operation_id sha256 invocation_id tool_call_id =
     ''op_'' @ hex_lower (sha256 (invocation_id @ [CHR 0x1F] @ tool_call_id))"

lemma hex_digit_inj: "d < 16 \<Longrightarrow> e < 16 \<Longrightarrow> hex_digit d = hex_digit e \<Longrightarrow> d = e"
proof -
  have h: "of_char (hex_digit d) = (if d < 10 then 48 + d else 87 + d)" if "d < 16" for d :: nat
    using that unfolding hex_digit_def of_char_of by simp
  assume "d < 16" "e < 16" "hex_digit d = hex_digit e"
  with h[of d] h[of e] have "(if d < 10 then 48 + d else 87 + d) = (if e < 10 then 48 + e else 87 + e)"
    by metis
  then show "d = e" using \<open>d < 16\<close> \<open>e < 16\<close> by (auto split: if_splits)
qed

lemma of_char_div_16: "(of_char c :: nat) div 16 < 16"
  using nat_of_char_less_256[of c] by (simp only: less_mult_imp_div_less)

lemma hex_lower_inj: "hex_lower xs = hex_lower ys \<Longrightarrow> xs = ys"
proof (induction xs arbitrary: ys)
  case Nil
  then show ?case by (cases ys) (simp_all add: hex_lower_def)
next
  case (Cons x xs)
  then obtain y zs where ys: "ys = y # zs" by (cases ys) (auto simp: hex_lower_def)
  from Cons.prems ys have t: "hex_lower xs = hex_lower zs"
    and d: "hex_digit ((of_char x :: nat) div 16) = hex_digit ((of_char y :: nat) div 16)"
    and m: "hex_digit ((of_char x :: nat) mod 16) = hex_digit ((of_char y :: nat) mod 16)"
    by (simp_all add: hex_lower_def)
  have "(of_char x :: nat) div 16 = of_char y div 16"
    using d by (intro hex_digit_inj of_char_div_16)
  moreover have "(of_char x :: nat) mod 16 = of_char y mod 16"
    using m by (intro hex_digit_inj) auto
  ultimately have "(of_char x :: nat) = of_char y" by (metis div_mult_mod_eq)
  then have "x = y" by (rule injD[OF inj_of_char])
  with Cons.IH[OF t] ys show ?case by simp
qed

lemma sep_append_inj:
  assumes "a @ [c] @ b = a' @ [c] @ b'" and "c \<notin> set a" and "c \<notin> set a'"
  shows "a = a' \<and> b = b'"
  using assms
proof (induction a arbitrary: a')
  case Nil
  then show ?case by (cases a') auto
next
  case (Cons x a)
  then show ?case by (cases a') auto
qed

text \<open>
  The durable operation id separates the calls of the ledger: when the invocation ids
  carry no unit separator and SHA-256 does not collide on the two inputs, two calls have one
  operation id only if they are the same call of the same invocation.
\<close>

lemma operation_id_separates_calls:
  assumes "operation_id sha256 i t = operation_id sha256 i' t'"
    and "CHR 0x1F \<notin> set i" and "CHR 0x1F \<notin> set i'"
    and "sha256 (i @ [CHR 0x1F] @ t) = sha256 (i' @ [CHR 0x1F] @ t') \<Longrightarrow>
         i @ [CHR 0x1F] @ t = i' @ [CHR 0x1F] @ t'"
  shows "i = i' \<and> t = t'"
proof -
  from assms(1) have "hex_lower (sha256 (i @ [CHR 0x1F] @ t)) = hex_lower (sha256 (i' @ [CHR 0x1F] @ t'))"
    unfolding operation_id_def by (simp only: same_append_eq)
  then have "i @ [CHR 0x1F] @ t = i' @ [CHR 0x1F] @ t'"
    by (rule assms(4)[OF hex_lower_inj])
  then show ?thesis using assms(2,3) by (rule sep_append_inj)
qed

lemma operation_id_separates_calls_witness:
  "operation_id (\<lambda>x. x) ''inv-1'' ''call_1'' \<noteq> operation_id (\<lambda>x. x) ''inv-1'' ''call_2''"
  using operation_id_separates_calls[of "\<lambda>x. x" "''inv-1''" "''call_1''" "''inv-1''" "''call_2''"]
  by auto

text \<open>Arguments that differ in the order of object members have one canonical hash.\<close>

lemma canonical_args_hash_order_independent:
  assumes "same_members a b" and "json_wf a"
  shows "canonical_tool_args_hash sha256 json_text tool a = canonical_tool_args_hash sha256 json_text tool b"
  unfolding canonical_tool_args_hash_def
  using sort_value_keys_same_members[OF assms] by simp

lemma canonical_args_hash_order_independent_witness:
  "canonical_tool_args_hash (\<lambda>x. x) (\<lambda>j. case j of JObj m \<Rightarrow> concat (map fst m) | _ \<Rightarrow> []) ''Bash''
      (JObj [(''command'', JStr ''ls''), (''background'', JBool True)]) =
   canonical_tool_args_hash (\<lambda>x. x) (\<lambda>j. case j of JObj m \<Rightarrow> concat (map fst m) | _ \<Rightarrow> []) ''Bash''
      (JObj [(''background'', JBool True), (''command'', JStr ''ls'')])"
proof (rule canonical_args_hash_order_independent)
  show "same_members (JObj [(''command'', JStr ''ls''), (''background'', JBool True)])
      (JObj [(''background'', JBool True), (''command'', JStr ''ls'')])"
    by (rule same_obj[where m' = "[(''command'', JStr ''ls''), (''background'', JBool True)]"])
      (auto intro: same_atom)
qed simp

subsection \<open>The backend's stream\<close>

datatype stop_reason =
    Stop_EndTurn | Stop_UserStop | Stop_Error | Stop_PlanHandoff | Stop_GraphYield
  | Stop_PermissionHandoff | Stop_StepLimit | Stop_MaxTokens | Stop_ContextBudgetExhausted

datatype abort_reason = Abort_UserStop | Abort_Redirect | Abort_Timeout | Abort_Crash

text \<open>Every variant carries its id, turn id and time stamp first.\<close>

datatype session_event =
    SE_TextDelta (se_id: string) (se_turn_id: string) (se_ts: int) string "nat option" string
  | SE_TextComplete (se_id: string) (se_turn_id: string) (se_ts: int) string string "json option"
  | SE_ThinkingDelta (se_id: string) (se_turn_id: string) (se_ts: int) string string
  | SE_ThinkingComplete (se_id: string) (se_turn_id: string) (se_ts: int) string string "string option"
  | SE_ToolCall (se_id: string) (se_turn_id: string) (se_ts: int) string string json
  | SE_ToolDispatch (se_id: string) (se_turn_id: string) (se_ts: int) string string string string
      tool_recovery_mode
  | SE_ToolResult (se_id: string) (se_turn_id: string) (se_ts: int) string string string bool
  | SE_Complete (se_id: string) (se_turn_id: string) (se_ts: int) stop_reason
  | SE_Error (se_id: string) (se_turn_id: string) (se_ts: int) bool string "string option"
      "string option" "json option"
  | SE_Abort (se_id: string) (se_turn_id: string) (se_ts: int) abort_reason

fun is_terminal_se :: "session_event \<Rightarrow> bool" where
  "is_terminal_se (SE_Complete _ _ _ _) = True"
| "is_terminal_se (SE_Error _ _ _ _ _ _ _ _) = True"
| "is_terminal_se (SE_Abort _ _ _ _) = True"
| "is_terminal_se _ = False"

subsection \<open>The conversation\<close>

record assistant_tool_call =
  atc_id :: string
  atc_name :: string
  atc_args :: json

record thinking_block =
  tb_text :: string
  tb_signature :: "string option"

datatype chat_message =
    User_Msg string
  | Assistant_Msg "string option" "assistant_tool_call list" "thinking_block list"
  | Tool_Msg string string

record backend_send_input =
  in_turn_id :: string
  in_run_id :: "string option"
  in_invocation_id :: "string option"
  in_max_steps :: "nat option"
  in_messages :: "chat_message list"
  in_system_prompt :: "string option"
  in_tools :: "json list"

subsection \<open>Sample events\<close>

text \<open>Concrete events for the witnesses of the properties.\<close>

definition sample_event :: "string \<Rightarrow> role \<Rightarrow> content option \<Rightarrow> event_actions option \<Rightarrow> runtime_event" where
  "sample_event eid r c a = \<lparr>ev_session_id = ''s'', ev_invocation_id = ''i'', ev_run_id = ''r'',
     ev_turn_id = ''t'', ev_branch = None, ev_id = eid, ev_ts = 0, ev_role = r,
     ev_author = Author_Host, ev_origin = None, ev_model_visibility = None, ev_status = None,
     ev_content = c, ev_actions = a, ev_refs = None, ev_partial = None\<rparr>"

definition sample_call :: runtime_event where
  "sample_call = sample_event ''e1'' Role_Model
     (Some (Content_FunctionCall ''c1'' ''Bash'' JNull None None)) None"

definition sample_dispatch :: "string \<Rightarrow> tool_recovery_mode \<Rightarrow> runtime_event" where
  "sample_dispatch opid m = sample_event ''e2'' Role_System None
     (Some (default_actions\<lparr>tool_dispatch := Some \<lparr>td_protocol = TOOL_BOUNDARY_PROTOCOL_V1,
        td_operation_id = opid, td_provider_tool_call_id = ''c1'', td_tool_name = ''Bash'',
        td_canonical_args_hash = ''h'', td_recovery_mode = m\<rparr>\<rparr>))"

definition sample_response :: runtime_event where
  "sample_response = sample_event ''e3'' Role_Tool
     (Some (Content_FunctionResponse ''c1'' ''Bash'' (JStr ''ok'') None None None)) None"

end
