(* ===== verification/Gate.thy ===== *)
theory Gate
  imports Permission Events
begin

text \<open>
  The permission gate (\<^verbatim>\<open>meepo-core/src/interaction.rs\<close>) and the execution boundary
  of a tool call (\<^verbatim>\<open>dispatch_tool_call\<close> and \<^verbatim>\<open>prune_result\<close> of
  \<^verbatim>\<open>meepo-providers/src/aimux_backend.rs\<close>).

  The boundary's effects are written into a \<open>gate_world\<close>: what the prompter was asked, what the
  interaction store was told, which calls reached the executor, and what was archived to disk.
  The prompter and the executor are functions; a store call's own result is ignored by the code.
  A gate is the locale \<open>permission_gate\<close>; the default gate interprets it.
\<close>

datatype permission_reason =
  Reason_ShellDangerous | Reason_FileWrite | Reason_FsDestructive | Reason_GitDestructive
| Reason_Privileged | Reason_Custom

fun reason_for_category :: "tool_category \<Rightarrow> permission_reason" where
  "reason_for_category Cat_ShellUnsafe = Reason_ShellDangerous"
| "reason_for_category Cat_FileWrite = Reason_FileWrite"
| "reason_for_category Cat_FsDestructive = Reason_FsDestructive"
| "reason_for_category Cat_GitDestructive = Reason_GitDestructive"
| "reason_for_category Cat_Privileged = Reason_Privileged"
| "reason_for_category _ = Reason_Custom"

record permission_request =
  pr_tool_call_id :: string
  pr_tool_name :: string
  pr_category :: tool_category
  pr_reason :: permission_reason
  pr_summary :: string
  pr_remember_for_turn_allowed :: bool

record permission_answer =
  pa_decision :: permission_decision
  pa_remember_for_turn :: bool

record permission_outcome =
  po_tool_call_id :: string
  po_decision :: permission_decision
  po_remember_for_turn :: bool
  po_committed_at :: int

datatype permission_verdict = Verdict_Allow | Verdict_Deny

record permission_resolution =
  pz_verdict :: permission_verdict
  pz_request :: permission_request

record recorded_permission =
  rp_session_id :: string
  rp_run_id :: string
  rp_turn_id :: string
  rp_request_id :: string
  rp_created_at :: int
  rp_request :: permission_request
  rp_outcome :: permission_outcome

record gate_world =
  gw_asked :: "permission_request list"
  gw_recorded :: "recorded_permission list"
  gw_executed :: "(string \<times> json) list"
  gw_archived :: "(string \<times> string) list"

definition summarize_call :: "string \<Rightarrow> json \<Rightarrow> string" where
  "summarize_call name args =
     (case get_str args ''command'' of
        Some cmd \<Rightarrow> cmd
      | None \<Rightarrow> (case get_str args ''path'' of Some p \<Rightarrow> name @ '' '' @ p | None \<Rightarrow> name))"

type_synonym gate_check = "string \<Rightarrow> string \<Rightarrow> json \<Rightarrow> gate_world \<Rightarrow> permission_resolution \<times> gate_world"

definition default_gate_check ::
    "(string \<Rightarrow> string \<Rightarrow> bool) \<Rightarrow> (string \<Rightarrow> string \<Rightarrow> string option) \<Rightarrow> permission_mode \<Rightarrow>
     (permission_request \<Rightarrow> permission_answer) \<Rightarrow> gate_check" where
  "default_gate_check re_match re_group mode ask tool_call_id name args w =
     (let category = classify_tool_use re_match re_group name args;
          request = \<lparr>pr_tool_call_id = tool_call_id, pr_tool_name = name, pr_category = category,
                     pr_reason = reason_for_category category, pr_summary = summarize_call name args,
                     pr_remember_for_turn_allowed = True\<rparr>
      in case decide_policy mode category of
           Policy_Allow \<Rightarrow> (\<lparr>pz_verdict = Verdict_Allow, pz_request = request\<rparr>, w)
         | Policy_Block \<Rightarrow> (\<lparr>pz_verdict = Verdict_Deny, pz_request = request\<rparr>, w)
         | Policy_Prompt \<Rightarrow>
             (\<lparr>pz_verdict = (case pa_decision (ask request) of
                               Decision_Allow \<Rightarrow> Verdict_Allow | Decision_Deny \<Rightarrow> Verdict_Deny),
               pz_request = request\<rparr>, w\<lparr>gw_asked := gw_asked w @ [request]\<rparr>))"

subsection \<open>Pruning a result\<close>

definition ARCHIVE_THRESHOLD_CHARS :: nat where "ARCHIVE_THRESHOLD_CHARS = 4000"

text \<open>\<^verbatim>\<open>Path::join\<close>: an absolute path replaces the base.\<close>

definition path_join :: "string \<Rightarrow> string \<Rightarrow> string" where
  "path_join base p = (if starts_with p ''/'' then p else base @ ''/'' @ p)"

definition archive_path :: "string \<Rightarrow> string \<Rightarrow> string \<Rightarrow> string" where
  "archive_path tmp sid tool_call_id =
     path_join (path_join (path_join tmp ''meepo-archives'') sid) (tool_call_id @ ''.txt'')"

definition ellipsis :: string where
  "ellipsis = [CHR 0xE2, CHR 0x80, CHR 0xA6]"

definition prune_result ::
    "string \<Rightarrow> string \<Rightarrow> string \<Rightarrow> string \<Rightarrow> gate_world \<Rightarrow> string \<times> gate_world" where
  "prune_result tmp sid tool_call_id body w =
     (let n = char_count body in
      if n \<le> ARCHIVE_THRESHOLD_CHARS then (body, w)
      else
        let path = archive_path tmp sid tool_call_id;
            preview = chars_take ARCHIVE_THRESHOLD_CHARS body
        in (preview @ [CHR 0x0A, CHR 0x0A] @ ellipsis @ ''['' @ show_nat n @
              '' chars total. Full result archived to '' @ path @ '']'',
            w\<lparr>gw_archived := gw_archived w @ [(path, body)]\<rparr>))"

subsection \<open>The execution boundary\<close>

definition dispatch_tool_call ::
    "string \<Rightarrow> gate_check option \<Rightarrow> bool \<Rightarrow> (string \<Rightarrow> json \<Rightarrow> (string, string) result) option \<Rightarrow>
     string \<Rightarrow> string \<Rightarrow> string \<Rightarrow> int \<Rightarrow> string \<Rightarrow> string \<Rightarrow> json \<Rightarrow> gate_world \<Rightarrow>
     (string \<times> bool) \<times> gate_world" where
  "dispatch_tool_call tmp gate has_store executor sid run_id turn_id created_at tool_call_id name args w =
     (let (verdict, w) =
        (case gate of
           None \<Rightarrow> (Verdict_Allow, w)
         | Some check \<Rightarrow>
             (let (res, w) = check tool_call_id name args w;
                  outcome = \<lparr>po_tool_call_id = tool_call_id,
                    po_decision = (case pz_verdict res of Verdict_Allow \<Rightarrow> Decision_Allow | Verdict_Deny \<Rightarrow> Decision_Deny),
                    po_remember_for_turn = False, po_committed_at = created_at\<rparr>;
                  w = (if has_store
                       then w\<lparr>gw_recorded := gw_recorded w @
                              [\<lparr>rp_session_id = sid, rp_run_id = run_id, rp_turn_id = turn_id,
                                rp_request_id = tool_call_id, rp_created_at = created_at,
                                rp_request = pz_request res, rp_outcome = outcome\<rparr>]\<rparr>
                       else w)
              in (pz_verdict res, w)))
      in if verdict = Verdict_Deny
         then ((''[permission denied: tool '' @ name @ '' was not approved]'', True), w)
         else
           (case executor of
              None \<Rightarrow> ((''[no executor]'', True), w)
            | Some exec \<Rightarrow>
                (let w = w\<lparr>gw_executed := gw_executed w @ [(name, args)]\<rparr>
                 in case exec name args of
                      Ok c \<Rightarrow> (let (body, w) = prune_result tmp sid tool_call_id c w in ((body, False), w))
                    | Err e \<Rightarrow> (let (body, w) = prune_result tmp sid tool_call_id e w in ((body, True), w)))))"

lemma prune_world [simp]:
  "gw_asked (snd (prune_result tmp sid t c w)) = gw_asked w"
  "gw_recorded (snd (prune_result tmp sid t c w)) = gw_recorded w"
  "gw_executed (snd (prune_result tmp sid t c w)) = gw_executed w"
  by (simp_all add: prune_result_def Let_def)

subsection \<open>What a gate promises its caller\<close>

text \<open>
  A gate resolves the call it was asked about and touches nothing but the list of prompts: it
  neither executes nor records by itself.
\<close>

locale permission_gate =
  fixes check :: gate_check
  assumes names_call: "check t n a w = (res, w') \<Longrightarrow>
      pr_tool_call_id (pz_request res) = t \<and> pr_tool_name (pz_request res) = n"
    and only_asks: "check t n a w = (res, w') \<Longrightarrow>
      gw_executed w' = gw_executed w \<and> gw_recorded w' = gw_recorded w \<and> gw_archived w' = gw_archived w"
begin

lemma gated_dispatch:
  assumes "dispatch_tool_call tmp (Some check) has_store executor sid run_id turn_id z t n a w = ((body, is_err), w')"
    and "check t n a w = (res, w1)"
  shows "gw_executed w' = gw_executed w @
      (if pz_verdict res = Verdict_Allow \<and> executor \<noteq> None then [(n, a)] else [])"
    and "pz_verdict res = Verdict_Deny \<Longrightarrow> is_err \<and> gw_archived w' = gw_archived w"
    and "gw_recorded w' = gw_recorded w @
      (if has_store then [\<lparr>rp_session_id = sid, rp_run_id = run_id, rp_turn_id = turn_id, rp_request_id = t,
         rp_created_at = z, rp_request = pz_request res,
         rp_outcome = \<lparr>po_tool_call_id = t,
           po_decision = (case pz_verdict res of Verdict_Allow \<Rightarrow> Decision_Allow | Verdict_Deny \<Rightarrow> Decision_Deny),
           po_remember_for_turn = False, po_committed_at = z\<rparr>\<rparr>] else [])"
proof -
  note w1 = only_asks[OF assms(2)]
  define w2 where "w2 = (if has_store
     then w1\<lparr>gw_recorded := gw_recorded w1 @
       [\<lparr>rp_session_id = sid, rp_run_id = run_id, rp_turn_id = turn_id, rp_request_id = t,
         rp_created_at = z, rp_request = pz_request res,
         rp_outcome = \<lparr>po_tool_call_id = t,
           po_decision = (case pz_verdict res of Verdict_Allow \<Rightarrow> Decision_Allow | Verdict_Deny \<Rightarrow> Decision_Deny),
           po_remember_for_turn = False, po_committed_at = z\<rparr>\<rparr>]\<rparr> else w1)"
  have d: "((body, is_err), w') = (if pz_verdict res = Verdict_Deny
      then ((''[permission denied: tool '' @ n @ '' was not approved]'', True), w2)
      else (case executor of
              None \<Rightarrow> ((''[no executor]'', True), w2)
            | Some exec \<Rightarrow>
                (let w = w2\<lparr>gw_executed := gw_executed w2 @ [(n, a)]\<rparr>
                 in case exec n a of
                      Ok c \<Rightarrow> (let (body, w) = prune_result tmp sid t c w in ((body, False), w))
                    | Err e \<Rightarrow> (let (body, w) = prune_result tmp sid t e w in ((body, True), w)))))"
    using assms unfolding dispatch_tool_call_def w2_def by (simp add: Let_def)
  have pr: "gw_executed x = gw_executed v" "gw_recorded x = gw_recorded v"
    if "prune_result tmp sid t c v = (b, x)" for b x v c
    using prune_world(2,3)[of tmp sid t c v] that by simp_all
  have w2: "gw_executed w2 = gw_executed w" "gw_archived w2 = gw_archived w"
    using w1 by (simp_all add: w2_def)
  show "gw_executed w' = gw_executed w @ (if pz_verdict res = Verdict_Allow \<and> executor \<noteq> None then [(n, a)] else [])"
    using d w2 by (cases "pz_verdict res") (auto simp: Let_def dest: pr split: option.splits sum.splits prod.splits)
  show "is_err \<and> gw_archived w' = gw_archived w" if "pz_verdict res = Verdict_Deny"
    using d that w2 by simp
  have "gw_recorded w' = gw_recorded w2"
    using d by (cases "pz_verdict res") (auto simp: Let_def dest: pr split: option.splits sum.splits prod.splits)
  then show "gw_recorded w' = gw_recorded w @
      (if has_store then [\<lparr>rp_session_id = sid, rp_run_id = run_id, rp_turn_id = turn_id, rp_request_id = t,
         rp_created_at = z, rp_request = pz_request res,
         rp_outcome = \<lparr>po_tool_call_id = t,
           po_decision = (case pz_verdict res of Verdict_Allow \<Rightarrow> Decision_Allow | Verdict_Deny \<Rightarrow> Decision_Deny),
           po_remember_for_turn = False, po_committed_at = z\<rparr>\<rparr>] else [])"
    using w1 by (simp add: w2_def)
qed

end

interpretation default_gate: permission_gate "default_gate_check re_match re_group mode ask"
  for re_match re_group mode ask
  by unfold_locales (auto simp: default_gate_check_def Let_def split: policy_decision.splits)

subsection \<open>The default gate at the boundary\<close>

text \<open>
  C9. A tool reaches the executor exactly once when its call was allowed
  and never when it was denied; a denial is an error result that archives nothing; and with a
  store configured exactly one outcome is recorded, for this call, with the gate's decision.
\<close>

theorem denied_call_never_executes:
  assumes "dispatch_tool_call tmp (Some (default_gate_check re_match re_group mode ask)) has_store executor
      sid run_id turn_id z t n a w = ((body, is_err), w')"
  shows "\<exists>res. fst (default_gate_check re_match re_group mode ask t n a w) = res \<and>
    gw_executed w' = gw_executed w @ (if pz_verdict res = Verdict_Allow \<and> executor \<noteq> None then [(n, a)] else []) \<and>
    (pz_verdict res = Verdict_Deny \<longrightarrow> is_err \<and> gw_archived w' = gw_archived w) \<and>
    (has_store \<longrightarrow> (\<exists>r. gw_recorded w' = gw_recorded w @ [r] \<and> rp_request_id r = t \<and>
       pr_tool_call_id (rp_request r) = t \<and> pr_tool_name (rp_request r) = n \<and>
       po_decision (rp_outcome r) = (if pz_verdict res = Verdict_Allow then Decision_Allow else Decision_Deny)))"
proof -
  obtain res w1 where c: "default_gate_check re_match re_group mode ask t n a w = (res, w1)" by fastforce
  show ?thesis
    using default_gate.gated_dispatch[OF assms c] default_gate.names_call[OF c] c
    by (cases "pz_verdict res") auto
qed

text \<open>
  In Explore nothing but the read tools ever runs: whatever the prompter
  would answer it is not asked, and the executor is not reached.
\<close>

lemma explore_never_runs_writes:
  assumes "n \<notin> set (read_tools @ web_tools)"
    and "dispatch_tool_call tmp (Some (default_gate_check re_match re_group Mode_Explore ask)) has_store executor
      sid run_id turn_id z t n a w = ((body, is_err), w')"
  shows "gw_executed w' = gw_executed w \<and> gw_asked w' = gw_asked w \<and> is_err"
proof -
  let ?c = "classify_tool_use re_match re_group n a"
  have "?c \<notin> {Cat_Read, Cat_WebRead}" using assms(1) classify_reads[of re_match re_group n a] by blast
  then have "decide_policy Mode_Explore ?c = Policy_Block"
    by (cases ?c) (auto simp: decide_policy_def)
  then obtain res where c: "default_gate_check re_match re_group Mode_Explore ask t n a w = (res, w)"
    "pz_verdict res = Verdict_Deny" by (simp add: default_gate_check_def Let_def)
  have "gw_asked w' = gw_asked w"
    using assms(2) c by (auto simp: dispatch_tool_call_def Let_def)
  with default_gate.gated_dispatch(1,2)[OF assms(2) c(1)] c(2) show ?thesis by simp
qed

text \<open>
  What the model sees of a tool result is the result itself up to 4000
  characters; beyond that it is exactly its first 4000 characters and a notice, and the full
  result is archived unchanged.
\<close>

lemma result_pruning_bounded:
  assumes "prune_result tmp sid t body w = (shown, w')"
  shows "if char_count body \<le> 4000 then shown = body \<and> w' = w
    else (\<exists>preview notice. shown = preview @ notice \<and> prefix preview body \<and> char_count preview = 4000 \<and>
            length notice = 45 + length (show_nat (char_count body)) + length (archive_path tmp sid t)) \<and>
         gw_archived w' = gw_archived w @ [(archive_path tmp sid t, body)]"
proof (cases "char_count body \<le> 4000")
  case True
  with assms show ?thesis by (simp add: prune_result_def ARCHIVE_THRESHOLD_CHARS_def)
next
  case False
  let ?p = "chars_take 4000 body"
  let ?n = "[CHR 0x0A, CHR 0x0A] @ ellipsis @ ''['' @ show_nat (char_count body) @
      '' chars total. Full result archived to '' @ archive_path tmp sid t @ '']''"
  have shown: "shown = ?p @ ?n" and archived: "gw_archived w' = gw_archived w @ [(archive_path tmp sid t, body)]"
    using assms False by (auto simp: prune_result_def ARCHIVE_THRESHOLD_CHARS_def Let_def)
  have pre: "prefix ?p body" "char_count ?p = 4000"
    using False by (simp_all add: chars_take_prefix char_count_chars_take)
  have len: "length ?n = 45 + length (show_nat (char_count body)) + length (archive_path tmp sid t)"
    by (simp add: ellipsis_def)
  show ?thesis unfolding if_not_P[OF False]
    by (intro conjI exI[of _ ?p] exI[of _ ?n]) (fact shown pre len archived)+
qed

text \<open>
  The archive file is named by the provider's tool call id without any check:
  an absolute id leaves the archive directory, whatever the session.
\<close>

lemma archive_path_escapes:
  "archive_path tmp sid (''/'' @ rest) = ''/'' @ rest @ ''.txt''"
  by (simp add: archive_path_def path_join_def)

subsection \<open>Witnesses\<close>

definition empty_world :: gate_world where
  "empty_world = \<lparr>gw_asked = [], gw_recorded = [], gw_executed = [], gw_archived = []\<rparr>"

definition sample_ask :: "permission_request \<Rightarrow> permission_answer" where
  "sample_ask r = \<lparr>pa_decision = Decision_Allow, pa_remember_for_turn = False\<rparr>"

theorem denied_call_never_executes_witness:
  "\<exists>body is_err w'. dispatch_tool_call ''/tmp'' (Some (default_gate_check (\<lambda>_ _. False) (\<lambda>_ _. None) Mode_Bypass sample_ask))
      True (Some (\<lambda>_ _. Ok ''out'')) ''s'' ''r'' ''t'' 1 ''c'' ''Bash'' JNull empty_world = ((body, is_err), w') \<and>
    length (gw_recorded w') = 1"
proof -
  obtain body is_err w' where d: "dispatch_tool_call ''/tmp'' (Some (default_gate_check (\<lambda>_ _. False) (\<lambda>_ _. None) Mode_Bypass sample_ask))
      True (Some (\<lambda>_ _. Ok ''out'')) ''s'' ''r'' ''t'' 1 ''c'' ''Bash'' JNull empty_world = ((body, is_err), w')"
    by (metis prod.exhaust)
  from denied_call_never_executes[OF d] d show ?thesis by (auto simp: empty_world_def)
qed

lemma explore_never_runs_writes_witness:
  "\<exists>body is_err w'. dispatch_tool_call ''/tmp'' (Some (default_gate_check (\<lambda>_ _. False) (\<lambda>_ _. None) Mode_Explore sample_ask))
      True (Some (\<lambda>_ _. Ok ''out'')) ''s'' ''r'' ''t'' 1 ''c'' ''Write'' JNull empty_world = ((body, is_err), w') \<and>
    gw_executed w' = []"
proof -
  obtain body is_err w' where d: "dispatch_tool_call ''/tmp'' (Some (default_gate_check (\<lambda>_ _. False) (\<lambda>_ _. None) Mode_Explore sample_ask))
      True (Some (\<lambda>_ _. Ok ''out'')) ''s'' ''r'' ''t'' 1 ''c'' ''Write'' JNull empty_world = ((body, is_err), w')"
    by (metis prod.exhaust)
  have "''Write'' \<notin> set (read_tools @ web_tools)" by (simp add: read_tools_def web_tools_def)
  from explore_never_runs_writes[OF this d] d show ?thesis by (auto simp: empty_world_def)
qed

lemma char_count_ascii: "char_count (replicate n CHR ''x'') = n"
proof -
  have "str_chars (replicate n CHR ''x'') = replicate n ''x''"
    by (induction n) (simp_all add: is_cont_def takeWhile_eq_Nil_iff dropWhile_replicate hd_replicate split: nat.splits)
  then show ?thesis by (simp add: char_count_def)
qed

lemma result_pruning_bounded_witness:
  "\<exists>shown w'. prune_result ''/tmp'' ''s'' ''c'' (replicate 5000 CHR ''x'') empty_world = (shown, w') \<and>
     gw_archived w' = [(archive_path ''/tmp'' ''s'' ''c'', replicate 5000 CHR ''x'')]"
proof -
  obtain shown w' where p: "prune_result ''/tmp'' ''s'' ''c'' (replicate 5000 CHR ''x'') empty_world = (shown, w')"
    by (metis prod.exhaust)
  from result_pruning_bounded[OF p] p show ?thesis by (simp add: char_count_ascii empty_world_def)
qed

subsection \<open>Wider modes at the gate\<close>

text \<open>
  The gate is monotone in its mode: with the same prompter a wider mode allows every call a narrower
  one allows, and from Ask on asks about no call the narrower one does not ask about.
\<close>

lemma wider_mode_allows:
  assumes "m \<le> m'" and "pz_verdict (fst (default_gate_check re_match re_group m ask t n a w)) = Verdict_Allow"
  shows "pz_verdict (fst (default_gate_check re_match re_group m' ask t n a w)) = Verdict_Allow"
  using decide_policy_antimono[OF assms(1), of "classify_tool_use re_match re_group n a"] assms(2)
  by (auto simp: default_gate_check_def Let_def less_eq_policy_decision_def split: policy_decision.splits)

lemma wider_mode_asks_less:
  assumes "m \<le> m'" and "Mode_Ask \<le> m" and "gw_asked (snd (default_gate_check re_match re_group m ask t n a w)) = gw_asked w"
  shows "gw_asked (snd (default_gate_check re_match re_group m' ask t n a w)) = gw_asked w"
proof -
  let ?c = "classify_tool_use re_match re_group n a"
  have "decide_policy m ?c \<noteq> Policy_Block"
    using assms(2) by (cases m; cases ?c) (simp_all add: decide_policy_def less_eq_permission_mode_def)
  then show ?thesis
    using decide_policy_antimono[OF assms(1), of ?c] assms(3)
    by (auto simp: default_gate_check_def Let_def less_eq_policy_decision_def split: policy_decision.splits)
qed

end
