(* ===== verification/Compaction.thy ===== *)
theory Compaction
  imports Events
begin

text \<open>
  Context compaction (\<^verbatim>\<open>meepo-runtime/src/compaction.rs\<close>): an older prefix of
  the conversation is folded into one summary message.  The summarizer
  (\<^verbatim>\<open>compact_history\<close> of the backend) and the text of a JSON value are the
  parameters \<open>compact\<close> and \<open>json_text\<close>.

  \<open>wire_ok\<close> is the shape a provider accepts: after an assistant message with tool calls come
  exactly the results of these calls, before anything else.
\<close>

definition DEFAULT_THRESHOLD_CHARS :: nat where "DEFAULT_THRESHOLD_CHARS = 16000"
definition DEFAULT_KEEP_RECENT :: nat where "DEFAULT_KEEP_RECENT = 6"

record compact_result =
  cr_messages :: "chat_message list"
  cr_summary :: "string option"

fun message_char_len :: "(json \<Rightarrow> string) \<Rightarrow> chat_message \<Rightarrow> nat" where
  "message_char_len json_text (User_Msg c) = char_count c"
| "message_char_len json_text (Assistant_Msg c calls _) =
     (case c of None \<Rightarrow> 0 | Some t \<Rightarrow> length t) +
     sum_list (map (\<lambda>tc. length (atc_name tc) + length (json_text (atc_args tc))) calls)"
| "message_char_len json_text (Tool_Msg _ c) = char_count c"

fun is_tool_msg :: "chat_message \<Rightarrow> bool" where
  "is_tool_msg (Tool_Msg _ _) = True"
| "is_tool_msg _ = False"

text \<open>The loop that moves leading tool messages of the tail into the folded prefix.\<close>

fun shift_tools :: "chat_message list \<Rightarrow> chat_message list \<Rightarrow> chat_message list \<times> chat_message list" where
  "shift_tools pre [] = (pre, [])"
| "shift_tools pre (m # rest) = (if is_tool_msg m then shift_tools (pre @ [m]) rest else (pre, m # rest))"

definition compact_if_needed_with ::
    "(json \<Rightarrow> string) \<Rightarrow> (chat_message list \<Rightarrow> (string, string) result) \<Rightarrow> chat_message list \<Rightarrow>
     nat \<Rightarrow> nat \<Rightarrow> string option \<Rightarrow> compact_result" where
  "compact_if_needed_with json_text compact messages threshold keep_recent previous_summary =
     (let total_chars = sum_list (map (message_char_len json_text) messages) in
      if total_chars \<le> threshold \<or> length messages \<le> keep_recent
      then \<lparr>cr_messages = messages, cr_summary = None\<rparr>
      else
        let split = length messages - keep_recent;
            (pre, rest) = shift_tools (take split messages) (drop split messages);
            answer =
              (case previous_summary of
                 Some prev \<Rightarrow>
                   compact (User_Msg (''[previous conversation summary]'' @ [CHR 0x0A] @ prev) # pre)
               | None \<Rightarrow> compact pre);
            summary = (case answer of Ok x \<Rightarrow> x | Err e \<Rightarrow> ''[compaction failed: '' @ e @ '']'')
        in \<lparr>cr_messages = User_Msg (''[conversation summary]'' @ [CHR 0x0A] @ summary) # rest,
            cr_summary = Some summary\<rparr>)"

definition compact_if_needed_rolling ::
    "(json \<Rightarrow> string) \<Rightarrow> (chat_message list \<Rightarrow> (string, string) result) \<Rightarrow> chat_message list \<Rightarrow>
     string option \<Rightarrow> compact_result" where
  "compact_if_needed_rolling json_text compact messages previous_summary =
     compact_if_needed_with json_text compact messages
       DEFAULT_THRESHOLD_CHARS DEFAULT_KEEP_RECENT previous_summary"

definition compact_if_needed ::
    "(json \<Rightarrow> string) \<Rightarrow> (chat_message list \<Rightarrow> (string, string) result) \<Rightarrow> chat_message list \<Rightarrow>
     compact_result" where
  "compact_if_needed json_text compact messages =
     compact_if_needed_with json_text compact messages
       DEFAULT_THRESHOLD_CHARS DEFAULT_KEEP_RECENT None"

subsection \<open>The shape of a conversation\<close>

fun wire_ok :: "string set \<Rightarrow> chat_message list \<Rightarrow> bool" where
  "wire_ok open [] \<longleftrightarrow> open = {}"
| "wire_ok open (User_Msg _ # ms) \<longleftrightarrow> open = {} \<and> wire_ok {} ms"
| "wire_ok open (Assistant_Msg _ calls _ # ms) \<longleftrightarrow> open = {} \<and> wire_ok (set (map atc_id calls)) ms"
| "wire_ok open (Tool_Msg i _ # ms) \<longleftrightarrow> i \<in> open \<and> wire_ok (open - {i}) ms"

lemma wire_ok_drop:
  "wire_ok P (xs @ ys) \<Longrightarrow> (case ys of [] \<Rightarrow> True | y # _ \<Rightarrow> \<not> is_tool_msg y) \<Longrightarrow> wire_ok {} ys"
proof (induction P xs rule: wire_ok.induct)
  case (1 P)
  show ?case
  proof (cases ys)
    case (Cons y zs)
    with 1 show ?thesis by (cases y) auto
  qed simp
qed auto

lemma shift_tools_spec:
  "shift_tools pre rest = (pre', rest') \<Longrightarrow>
     pre' @ rest' = pre @ rest \<and> length rest' \<le> length rest \<and>
     (case rest' of [] \<Rightarrow> True | y # _ \<Rightarrow> \<not> is_tool_msg y)"
  by (induction pre rest rule: shift_tools.induct) (auto split: if_splits)

lemma compact_cases:
  "compact_if_needed_with jt compact ms th keep prev = \<lparr>cr_messages = ms, cr_summary = None\<rparr> \<or>
   (\<exists>pre rest summary. ms = pre @ rest \<and> length rest \<le> keep \<and>
      (case rest of [] \<Rightarrow> True | y # _ \<Rightarrow> \<not> is_tool_msg y) \<and>
      compact_if_needed_with jt compact ms th keep prev =
        \<lparr>cr_messages = User_Msg (''[conversation summary]'' @ [CHR 0x0A] @ summary) # rest,
         cr_summary = Some summary\<rparr>)"
proof -
  obtain pre rest where st: "shift_tools (take (length ms - keep) ms) (drop (length ms - keep) ms) = (pre, rest)"
    by fastforce
  from shift_tools_spec[OF st] have "ms = pre @ rest" "length rest \<le> keep"
    "case rest of [] \<Rightarrow> True | y # _ \<Rightarrow> \<not> is_tool_msg y" by auto
  with st show ?thesis unfolding compact_if_needed_with_def Let_def by auto
qed



end
