(* ===== verification/Ledger.thy ===== *)
theory Ledger
  imports Events
begin

text \<open>
  The tool ledger scanner (\<^verbatim>\<open>meepo-core/src/tool_ledger_scanner.rs\<close>), the one
  authority that reads tool calls, dispatch facts, responses and recovery facts out of a
  prefix of runtime events.  The loop body is \<open>scan_event\<close> on the loop's variables
  (\<open>scan_state\<close>), one sub-step per lane; \<open>scan_tool_ledger\<close> folds it over the events.

  \<open>ledger_inv\<close> is the loop invariant: what the two indexes point at, where issues are
  recorded, and that a scan without issues attached every tool fact to its operation.
\<close>

datatype ledger_lane =
  Lane_Ordinary | Lane_FunctionCall | Lane_ToolDispatch | Lane_FunctionResponse
| Lane_ReconcileResult | Lane_RecoveryDecision

datatype issue_code =
  DuplicateEventId | DuplicateCall | DuplicateDispatch | DuplicateResponse
| OrphanResponse | OrphanDispatch | IdentityConflict | RecoveryFactWithoutOperation

record ledger_issue =
  li_code :: issue_code
  li_event_id :: string
  li_tool_call_id :: "string option"

record scan_op =
  so_tool_call_id :: string
  so_tool_name :: "string option"
  so_operation_id :: "string option"
  so_call_event :: "runtime_event option"
  so_dispatch_event :: "runtime_event option"
  so_response_event :: "runtime_event option"
  so_reconcile_events :: "runtime_event list"
  so_decision_events :: "runtime_event list"
  so_issues :: "ledger_issue list"

record scan_result =
  sr_operations :: "scan_op list"
  sr_issues :: "ledger_issue list"
  sr_has_corruption :: bool

record scan_state =
  ss_operations :: "scan_op list"
  ss_issues :: "ledger_issue list"
  ss_seen :: "string set"
  ss_by_call :: "string \<Rightarrow> nat option"
  ss_by_operation :: "string \<Rightarrow> nat option"

subsection \<open>Reading one event\<close>

definition ev_tool_recovery :: "runtime_event \<Rightarrow> recovery_fact option" where
  "ev_tool_recovery e = Option.bind (ev_actions e) tool_recovery"

definition ev_tool_dispatch :: "runtime_event \<Rightarrow> tool_dispatch option" where
  "ev_tool_dispatch e = Option.bind (ev_actions e) tool_dispatch"

definition classify_lane :: "runtime_event \<Rightarrow> ledger_lane" where
  "classify_lane e =
     (case (ev_role e, ev_content e) of
        (Role_Model, Some (Content_FunctionCall _ _ _ _ _)) \<Rightarrow> Lane_FunctionCall
      | (Role_Tool, Some (Content_FunctionResponse _ _ _ _ _ _)) \<Rightarrow> Lane_FunctionResponse
      | (Role_System, None) \<Rightarrow>
          (case ev_tool_recovery e of
             Some f \<Rightarrow> (if kind_str f = TOOL_RECONCILE_RESULT_FACT_KIND
                        then Lane_ReconcileResult else Lane_RecoveryDecision)
           | None \<Rightarrow> (if ev_tool_dispatch e \<noteq> None then Lane_ToolDispatch else Lane_Ordinary))
      | _ \<Rightarrow> Lane_Ordinary)"

fun fact_operation_id :: "recovery_fact \<Rightarrow> string option" where
  "fact_operation_id (ReconcileResultFact _ p) = Some (rr_operation_id p)"
| "fact_operation_id (RecoveryDecisionFact _ p) = Some (rd_operation_id p)"

definition call_key :: "string \<Rightarrow> string \<Rightarrow> string" where
  "call_key invocation_id tool_call_id = invocation_id @ [CHR 0x1F] @ tool_call_id"

subsection \<open>Writing the loop's state\<close>

definition upd_op :: "scan_state \<Rightarrow> nat \<Rightarrow> (scan_op \<Rightarrow> scan_op) \<Rightarrow> scan_state" where
  "upd_op s i f = s\<lparr>ss_operations := (ss_operations s)[i := f (ss_operations s ! i)]\<rparr>"

definition push_issue :: "scan_state \<Rightarrow> nat option \<Rightarrow> ledger_issue \<Rightarrow> scan_state" where
  "push_issue s op_idx iss =
     (let s' = s\<lparr>ss_issues := ss_issues s @ [iss]\<rparr>
      in case op_idx of
           None \<Rightarrow> s'
         | Some i \<Rightarrow> upd_op s' i (\<lambda>x. x\<lparr>so_issues := so_issues x @ [iss]\<rparr>))"

definition push_op :: "scan_state \<Rightarrow> string \<Rightarrow> scan_op \<Rightarrow> scan_state" where
  "push_op s key x =
     s\<lparr>ss_operations := ss_operations s @ [x],
       ss_by_call := (ss_by_call s)(key \<mapsto> length (ss_operations s))\<rparr>"

abbreviation issue_at :: "issue_code \<Rightarrow> runtime_event \<Rightarrow> string option \<Rightarrow> ledger_issue" where
  "issue_at c e t \<equiv> \<lparr>li_code = c, li_event_id = ev_id e, li_tool_call_id = t\<rparr>"

definition blank_op :: "string \<Rightarrow> string \<Rightarrow> scan_op" where
  "blank_op call_id name =
     \<lparr>so_tool_call_id = call_id, so_tool_name = Some name, so_operation_id = None,
      so_call_event = None, so_dispatch_event = None, so_response_event = None,
      so_reconcile_events = [], so_decision_events = [], so_issues = []\<rparr>"

subsection \<open>One step per lane\<close>

definition scan_call :: "scan_state \<Rightarrow> runtime_event \<Rightarrow> string \<Rightarrow> string \<Rightarrow> scan_state" where
  "scan_call s e call_id name =
     (let key = call_key (ev_invocation_id e) call_id in
      case ss_by_call s key of
        Some i \<Rightarrow>
          (if so_call_event (ss_operations s ! i) \<noteq> None
           then push_issue s (Some i) (issue_at DuplicateCall e (Some call_id))
           else push_issue (upd_op s i (\<lambda>x. x\<lparr>so_call_event := Some e\<rparr>)) (Some i)
                  (issue_at IdentityConflict e (Some call_id)))
      | None \<Rightarrow> push_op s key ((blank_op call_id name)\<lparr>so_call_event := Some e\<rparr>))"

definition scan_dispatch :: "scan_state \<Rightarrow> runtime_event \<Rightarrow> tool_dispatch \<Rightarrow> scan_state" where
  "scan_dispatch s e d =
     (let call_id = td_provider_tool_call_id d;
          key = call_key (ev_invocation_id e) call_id in
      case ss_by_call s key of
        Some i \<Rightarrow>
          (if so_dispatch_event (ss_operations s ! i) \<noteq> None
           then push_issue s (Some i) (issue_at DuplicateDispatch e (Some call_id))
           else (upd_op s i (\<lambda>x. x\<lparr>so_dispatch_event := Some e,
                                    so_operation_id := Some (td_operation_id d)\<rparr>))
                \<lparr>ss_by_operation := (ss_by_operation s)(td_operation_id d \<mapsto> i)\<rparr>)
      | None \<Rightarrow>
          (let i = length (ss_operations s);
               s' = push_op s key ((blank_op call_id (td_tool_name d))
                      \<lparr>so_dispatch_event := Some e, so_operation_id := Some (td_operation_id d)\<rparr>)
           in push_issue (s'\<lparr>ss_by_operation := (ss_by_operation s)(td_operation_id d \<mapsto> i)\<rparr>)
                (Some i) (issue_at OrphanDispatch e (Some call_id))))"

definition scan_fact :: "scan_state \<Rightarrow> runtime_event \<Rightarrow> recovery_fact \<Rightarrow> scan_state" where
  "scan_fact s e f =
     (let op_id = fact_operation_id f in
      case Option.bind op_id (ss_by_operation s) of
        Some i \<Rightarrow>
          (case classify_lane e of
             Lane_ReconcileResult \<Rightarrow>
               upd_op s i (\<lambda>x. x\<lparr>so_reconcile_events := so_reconcile_events x @ [e]\<rparr>)
           | Lane_RecoveryDecision \<Rightarrow>
               upd_op s i (\<lambda>x. x\<lparr>so_decision_events := so_decision_events x @ [e]\<rparr>)
           | _ \<Rightarrow> s)
      | None \<Rightarrow> push_issue s None (issue_at RecoveryFactWithoutOperation e op_id))"

definition scan_response :: "scan_state \<Rightarrow> runtime_event \<Rightarrow> string \<Rightarrow> string \<Rightarrow> scan_state" where
  "scan_response s e call_id name =
     (let key = call_key (ev_invocation_id e) call_id in
      case ss_by_call s key of
        Some i \<Rightarrow>
          (if so_response_event (ss_operations s ! i) \<noteq> None
           then push_issue s (Some i) (issue_at DuplicateResponse e (Some call_id))
           else let s' = (if so_tool_name (ss_operations s ! i) \<noteq> Some name
                          then push_issue s (Some i) (issue_at IdentityConflict e (Some call_id))
                          else s)
                in upd_op s' i (\<lambda>x. x\<lparr>so_response_event := Some e\<rparr>))
      | None \<Rightarrow>
          (let i = length (ss_operations s)
           in push_issue (push_op s key ((blank_op call_id name)\<lparr>so_response_event := Some e\<rparr>))
                (Some i) (issue_at OrphanResponse e (Some call_id))))"

definition scan_event :: "scan_state \<Rightarrow> runtime_event \<Rightarrow> scan_state" where
  "scan_event s e =
     (if ev_id e \<in> ss_seen s then push_issue s None (issue_at DuplicateEventId e None)
      else
        let s = s\<lparr>ss_seen := insert (ev_id e) (ss_seen s)\<rparr> in
        case classify_lane e of
          Lane_FunctionCall \<Rightarrow>
            (case ev_content e of
               Some (Content_FunctionCall call_id name _ _ _) \<Rightarrow> scan_call s e call_id name
             | _ \<Rightarrow> s)
        | Lane_ToolDispatch \<Rightarrow>
            (case ev_tool_dispatch e of Some d \<Rightarrow> scan_dispatch s e d | None \<Rightarrow> s)
        | Lane_ReconcileResult \<Rightarrow>
            (case ev_tool_recovery e of Some f \<Rightarrow> scan_fact s e f | None \<Rightarrow> s)
        | Lane_RecoveryDecision \<Rightarrow>
            (case ev_tool_recovery e of Some f \<Rightarrow> scan_fact s e f | None \<Rightarrow> s)
        | Lane_FunctionResponse \<Rightarrow>
            (case ev_content e of
               Some (Content_FunctionResponse call_id name _ _ _ _) \<Rightarrow> scan_response s e call_id name
             | _ \<Rightarrow> s)
        | Lane_Ordinary \<Rightarrow> s)"

definition scan_init :: scan_state where
  "scan_init = \<lparr>ss_operations = [], ss_issues = [], ss_seen = {},
     ss_by_call = (\<lambda>_. None), ss_by_operation = (\<lambda>_. None)\<rparr>"

definition scan_loop :: "runtime_event list \<Rightarrow> scan_state" where
  "scan_loop events = foldl scan_event scan_init events"

definition scan_tool_ledger :: "runtime_event list \<Rightarrow> scan_result" where
  "scan_tool_ledger events =
     (let s = scan_loop events in
      \<lparr>sr_operations = ss_operations s, sr_issues = ss_issues s,
       sr_has_corruption = (ss_issues s \<noteq> [])\<rparr>)"

lemmas scan_defs [step_simps] =
  scan_call_def scan_dispatch_def scan_fact_def scan_response_def

subsection \<open>What an event says about its operation\<close>

text \<open>
  The key of the operation an event speaks about, with the tool name it carries (calls and
  responses) or the operation id (dispatch facts).
\<close>

definition call_of :: "runtime_event \<Rightarrow> (string \<times> string) option" where
  "call_of e = (case (ev_role e, ev_content e) of
     (Role_Model, Some (Content_FunctionCall i n _ _ _)) \<Rightarrow>
        Some (call_key (ev_invocation_id e) i, n)
   | _ \<Rightarrow> None)"

definition response_of :: "runtime_event \<Rightarrow> (string \<times> string) option" where
  "response_of e = (case (ev_role e, ev_content e) of
     (Role_Tool, Some (Content_FunctionResponse i n _ _ _ _)) \<Rightarrow>
        Some (call_key (ev_invocation_id e) i, n)
   | _ \<Rightarrow> None)"

definition dispatch_of :: "runtime_event \<Rightarrow> (string \<times> string) option" where
  "dispatch_of e =
     (if ev_role e = Role_System \<and> ev_content e = None \<and> ev_tool_recovery e = None
      then map_option (\<lambda>d. (call_key (ev_invocation_id e) (td_provider_tool_call_id d),
                            td_operation_id d)) (ev_tool_dispatch e)
      else None)"

lemma lane_call_iff: "classify_lane e = Lane_FunctionCall \<longleftrightarrow> call_of e \<noteq> None"
  by (auto simp: classify_lane_def call_of_def split: role.splits option.splits content.splits)

lemma lane_response_iff: "classify_lane e = Lane_FunctionResponse \<longleftrightarrow> response_of e \<noteq> None"
  by (auto simp: classify_lane_def response_of_def split: role.splits option.splits content.splits)

lemma lane_dispatch_iff: "classify_lane e = Lane_ToolDispatch \<longleftrightarrow> dispatch_of e \<noteq> None"
  by (auto simp: classify_lane_def dispatch_of_def split: role.splits option.splits content.splits)

subsection \<open>The loop invariant\<close>

definition op_events :: "scan_op \<Rightarrow> runtime_event set" where
  "op_events x = set_option (so_call_event x) \<union> set_option (so_dispatch_event x) \<union>
     set_option (so_response_event x) \<union> set (so_reconcile_events x) \<union> set (so_decision_events x)"

definition op_keyed :: "string \<Rightarrow> scan_op \<Rightarrow> bool" where
  "op_keyed k x \<longleftrightarrow>
     (so_call_event x = None \<longrightarrow> so_issues x \<noteq> []) \<and>
     (\<forall>c. so_call_event x = Some c \<longrightarrow>
        (\<exists>n. call_of c = Some (k, n) \<and> (so_issues x = [] \<longrightarrow> so_tool_name x = Some n))) \<and>
     (\<forall>r. so_response_event x = Some r \<longrightarrow>
        (\<exists>n. response_of r = Some (k, n) \<and> (so_issues x = [] \<longrightarrow> so_tool_name x = Some n))) \<and>
     (\<forall>d. so_dispatch_event x = Some d \<longrightarrow>
        (\<exists>q. dispatch_of d = Some (k, q) \<and> so_operation_id x = Some q))"

definition op_ok :: "runtime_event list \<Rightarrow> string \<Rightarrow> scan_op \<Rightarrow> bool" where
  "op_ok es k x \<longleftrightarrow> op_events x \<subseteq> set es \<and> op_keyed k x"

definition ledger_inv :: "runtime_event list \<Rightarrow> scan_state \<Rightarrow> bool" where
  "ledger_inv es s \<longleftrightarrow>
     (\<forall>k i. ss_by_call s k = Some i \<longrightarrow>
        i < length (ss_operations s) \<and> op_ok es k (ss_operations s ! i)) \<and>
     (\<forall>k k' i. ss_by_call s k = Some i \<longrightarrow> ss_by_call s k' = Some i \<longrightarrow> k = k') \<and>
     (\<forall>i < length (ss_operations s). \<exists>k. ss_by_call s k = Some i) \<and>
     (\<forall>q i. ss_by_operation s q = Some i \<longrightarrow> i < length (ss_operations s)) \<and>
     (\<forall>x \<in> set (ss_operations s). set (so_issues x) \<subseteq> set (ss_issues s)) \<and>
     ss_seen s = ev_id ` set es"

lemma op_ok_mono: "op_ok es k x \<Longrightarrow> set es \<subseteq> set es' \<Longrightarrow> op_ok es' k x"
  unfolding op_ok_def by blast

lemma ledger_inv_call:
  "ledger_inv es s \<Longrightarrow> ss_by_call s k = Some i \<Longrightarrow>
     i < length (ss_operations s) \<and> op_ok es k (ss_operations s ! i)"
  by (simp add: ledger_inv_def)

lemma ledger_inv_inj:
  "ledger_inv es s \<Longrightarrow> ss_by_call s k = Some i \<Longrightarrow> ss_by_call s k' = Some i \<Longrightarrow> k = k'"
  unfolding ledger_inv_def by (elim conjE) meson

lemma ledger_inv_cover:
  "ledger_inv es s \<Longrightarrow> i < length (ss_operations s) \<Longrightarrow> \<exists>k. ss_by_call s k = Some i"
  by (simp add: ledger_inv_def)

lemma ledger_inv_byop:
  "ledger_inv es s \<Longrightarrow> ss_by_operation s q = Some i \<Longrightarrow> i < length (ss_operations s)"
  by (simp add: ledger_inv_def)

lemma ledger_inv_issues:
  "ledger_inv es s \<Longrightarrow> x \<in> set (ss_operations s) \<Longrightarrow> set (so_issues x) \<subseteq> set (ss_issues s)"
  by (simp add: ledger_inv_def)

lemma ledger_inv_seen: "ledger_inv es s \<Longrightarrow> ss_seen s = ev_id ` set es"
  by (simp add: ledger_inv_def)

lemma ledger_invI:
  assumes "\<And>k i. ss_by_call s k = Some i \<Longrightarrow>
             i < length (ss_operations s) \<and> op_ok es k (ss_operations s ! i)"
    and "\<And>k k' i. ss_by_call s k = Some i \<Longrightarrow> ss_by_call s k' = Some i \<Longrightarrow> k = k'"
    and "\<And>i. i < length (ss_operations s) \<Longrightarrow> \<exists>k. ss_by_call s k = Some i"
    and "\<And>q i. ss_by_operation s q = Some i \<Longrightarrow> i < length (ss_operations s)"
    and "\<And>x. x \<in> set (ss_operations s) \<Longrightarrow> set (so_issues x) \<subseteq> set (ss_issues s)"
    and "ss_seen s = ev_id ` set es"
  shows "ledger_inv es s"
  unfolding ledger_inv_def using assms by (intro conjI allI ballI impI) blast+

text \<open>The three shapes of a step: no operation touched, one rewritten, one added.\<close>

lemma ledger_inv_keep:
  assumes inv: "ledger_inv es s" and es: "set es \<subseteq> set es'" and t: "ss_seen t = ev_id ` set es'"
    "ss_operations t = ss_operations s" "set (ss_issues s) \<subseteq> set (ss_issues t)"
    "ss_by_call t = ss_by_call s" "ss_by_operation t = ss_by_operation s"
  shows "ledger_inv es' t"
proof (rule ledger_invI)
  show "set (so_issues x) \<subseteq> set (ss_issues t)" if "x \<in> set (ss_operations t)" for x
    using ledger_inv_issues[OF inv, of x] that t by simp
  show "i < length (ss_operations t) \<and> op_ok es' k (ss_operations t ! i)"
    if "ss_by_call t k = Some i" for k i
    using ledger_inv_call[OF inv] op_ok_mono[OF _ es] that t by metis
qed (use t ledger_inv_inj[OF inv] ledger_inv_cover[OF inv] ledger_inv_byop[OF inv] in auto)

lemma ledger_inv_update:
  assumes inv: "ledger_inv es s" and k: "ss_by_call s k = Some i"
    and y: "op_ok es' k (ss_operations t ! i)"
    and es: "set es \<subseteq> set es'" and t: "ss_seen t = ev_id ` set es'"
    "length (ss_operations t) = length (ss_operations s)"
    "\<And>j. j \<noteq> i \<Longrightarrow> ss_operations t ! j = ss_operations s ! j" "ss_by_call t = ss_by_call s"
    and iss: "set (ss_issues s) \<subseteq> set (ss_issues t)"
      "set (so_issues (ss_operations t ! i)) \<subseteq> set (ss_issues t)"
    and op: "\<And>q j. ss_by_operation t q = Some j \<Longrightarrow> ss_by_operation s q = Some j \<or> j = i"
  shows "ledger_inv es' t"
proof (rule ledger_invI)
  have i: "i < length (ss_operations s)" using ledger_inv_call[OF inv k] by simp
  show "j < length (ss_operations t) \<and> op_ok es' k' (ss_operations t ! j)"
    if "ss_by_call t k' = Some j" for k' j
  proof (cases "i = j")
    case True
    with that t have "ss_by_call s k' = Some i" by simp
    with inv k have "k = k'" by (rule ledger_inv_inj)
    with True t i y show ?thesis by simp
  next
    case False
    with that t have *: "j < length (ss_operations s)" "op_ok es k' (ss_operations s ! j)"
      using ledger_inv_call[OF inv] by simp_all
    from *(2) es have "op_ok es' k' (ss_operations s ! j)" by (rule op_ok_mono)
    with *(1) False t(2) t(3)[of j] show ?thesis by simp
  qed
  show "set (so_issues x) \<subseteq> set (ss_issues t)" if "x \<in> set (ss_operations t)" for x
  proof -
    from that t(2) obtain j where j: "j < length (ss_operations s)" "x = ss_operations t ! j"
      by (metis in_set_conv_nth)
    show ?thesis
    proof (cases "j = i")
      case True
      with j iss show ?thesis by simp
    next
      case False
      with j t(3)[OF False] ledger_inv_issues[OF inv, of x] iss show ?thesis by force
    qed
  qed
  show "j < length (ss_operations t)" if "ss_by_operation t q = Some j" for q j
    using op[OF that] ledger_inv_byop[OF inv, of q j] i t(2) by auto
qed (use t ledger_inv_inj[OF inv] ledger_inv_cover[OF inv] in auto)

lemma ledger_inv_push:
  assumes inv: "ledger_inv es s" and k: "ss_by_call s k = None"
    and n: "n = length (ss_operations s)" and y: "op_ok es' k (ss_operations t ! n)"
    and es: "set es \<subseteq> set es'" and t: "ss_seen t = ev_id ` set es'"
    "length (ss_operations t) = Suc n"
    "\<And>j. j < n \<Longrightarrow> ss_operations t ! j = ss_operations s ! j"
    "ss_by_call t = (ss_by_call s)(k \<mapsto> n)"
    and iss: "set (ss_issues s) \<subseteq> set (ss_issues t)"
      "set (so_issues (ss_operations t ! n)) \<subseteq> set (ss_issues t)"
    and op: "\<And>q j. ss_by_operation t q = Some j \<Longrightarrow> ss_by_operation s q = Some j \<or> j = n"
  shows "ledger_inv es' t"
proof (rule ledger_invI)
  have lt: "j < n" if "ss_by_call s k' = Some j" for k' j
    using ledger_inv_call[OF inv that] n by simp
  show "j < length (ss_operations t) \<and> op_ok es' k' (ss_operations t ! j)"
    if "ss_by_call t k' = Some j" for k' j
  proof (cases "k' = k")
    case True
    with that t y show ?thesis by auto
  next
    case False
    with that t have "ss_by_call s k' = Some j" by simp
    then have j: "j < n" and "op_ok es k' (ss_operations s ! j)"
      using ledger_inv_call[OF inv] n by simp_all
    from this(2) es have "op_ok es' k' (ss_operations s ! j)" by (rule op_ok_mono)
    with j t(2) t(3)[OF j] show ?thesis by simp
  qed
  show "\<exists>k'. ss_by_call t k' = Some j" if "j < length (ss_operations t)" for j
  proof (cases "j = n")
    case True
    then show ?thesis using t by (intro exI[of _ k]) simp
  next
    case False
    with that t n have "j < length (ss_operations s)" by simp
    then obtain k' where "ss_by_call s k' = Some j" using ledger_inv_cover[OF inv] by blast
    with k t show ?thesis by (intro exI[of _ k']) auto
  qed
  show "k1 = k2" if "ss_by_call t k1 = Some j" "ss_by_call t k2 = Some j" for k1 k2 j
    using that lt[of k1] lt[of k2] ledger_inv_inj[OF inv, of k1 j k2] t
    by (auto split: if_splits)
  show "j < length (ss_operations t)" if "ss_by_operation t q = Some j" for q j
    using op[OF that] ledger_inv_byop[OF inv, of q j] t(2) n by auto
  show "set (so_issues x) \<subseteq> set (ss_issues t)" if "x \<in> set (ss_operations t)" for x
  proof -
    from that t(2) obtain j where j: "j < Suc n" "x = ss_operations t ! j"
      by (metis in_set_conv_nth)
    show ?thesis
    proof (cases "j = n")
      case True
      with j iss show ?thesis by simp
    next
      case False
      with j have "j < n" by simp
      with j t(3)[OF this] n ledger_inv_issues[OF inv, of x] iss show ?thesis by force
    qed
  qed
qed (use t in auto)

subsection \<open>Every step keeps the invariant\<close>

lemma ops_push_issue [simp]:
  "ss_operations (push_issue s None iss) = ss_operations s"
  "ss_operations (push_issue s (Some i) iss) =
     (ss_operations s)[i := (ss_operations s ! i)\<lparr>so_issues := so_issues (ss_operations s ! i) @ [iss]\<rparr>]"
  "ss_issues (push_issue s oi iss) = ss_issues s @ [iss]"
  "ss_by_call (push_issue s oi iss) = ss_by_call s"
  "ss_by_operation (push_issue s oi iss) = ss_by_operation s"
  "ss_seen (push_issue s oi iss) = ss_seen s"
  by (cases oi; simp add: push_issue_def upd_op_def)+

lemma ops_upd_op [simp]:
  "ss_operations (upd_op s i f) = (ss_operations s)[i := f (ss_operations s ! i)]"
  "ss_issues (upd_op s i f) = ss_issues s"
  "ss_by_call (upd_op s i f) = ss_by_call s"
  "ss_by_operation (upd_op s i f) = ss_by_operation s"
  "ss_seen (upd_op s i f) = ss_seen s"
  by (simp_all add: upd_op_def)

lemma ops_push_op [simp]:
  "ss_operations (push_op s k x) = ss_operations s @ [x]"
  "ss_issues (push_op s k x) = ss_issues s"
  "ss_by_call (push_op s k x) = (ss_by_call s)(k \<mapsto> length (ss_operations s))"
  "ss_by_operation (push_op s k x) = ss_by_operation s"
  "ss_seen (push_op s k x) = ss_seen s"
  by (simp_all add: push_op_def)

lemma blank_op_simps [simp]:
  "so_tool_name (blank_op c n) = Some n" "so_operation_id (blank_op c n) = None"
  "so_call_event (blank_op c n) = None" "so_dispatch_event (blank_op c n) = None"
  "so_response_event (blank_op c n) = None" "so_reconcile_events (blank_op c n) = []"
  "so_decision_events (blank_op c n) = []" "so_issues (blank_op c n) = []"
  "so_tool_call_id (blank_op c n) = c"
  by (simp_all add: blank_op_def)

lemma ledger_inv_op:
  assumes "ledger_inv es s" and "ss_by_call s k = Some i"
  shows "i < length (ss_operations s)" "op_events (ss_operations s ! i) \<subseteq> set es"
    "op_keyed k (ss_operations s ! i)" "set (so_issues (ss_operations s ! i)) \<subseteq> set (ss_issues s)"
  using ledger_inv_call[OF assms] ledger_inv_issues[OF assms(1), of "ss_operations s ! i"]
  by (auto simp: op_ok_def)

lemmas op_ok_simps = op_ok_def op_keyed_def op_events_def

lemma scan_call_inv:
  assumes inv: "ledger_inv es s" and t: "ss_seen s' = insert (ev_id e) (ss_seen s)"
    "ss_operations s' = ss_operations s" "ss_issues s' = ss_issues s"
    "ss_by_call s' = ss_by_call s" "ss_by_operation s' = ss_by_operation s"
    and e: "call_of e = Some (call_key (ev_invocation_id e) cid, n)"
  shows "ledger_inv (es @ [e]) (scan_call s' e cid n)"
proof (cases "ss_by_call s (call_key (ev_invocation_id e) cid)")
  case None
  show ?thesis
    by (rule ledger_inv_push[OF inv None refl])
      (use e t None ledger_inv_seen[OF inv] in \<open>auto simp: scan_call_def op_ok_simps nth_append\<close>)
next
  case (Some i)
  show ?thesis
    by (rule ledger_inv_update[OF inv Some])
      (use ledger_inv_op[OF inv Some] e t Some ledger_inv_seen[OF inv] in
        \<open>auto simp: scan_call_def op_ok_simps split: if_splits\<close>)
qed

lemma scan_dispatch_inv:
  assumes inv: "ledger_inv es s" and t: "ss_seen s' = insert (ev_id e) (ss_seen s)"
    "ss_operations s' = ss_operations s" "ss_issues s' = ss_issues s"
    "ss_by_call s' = ss_by_call s" "ss_by_operation s' = ss_by_operation s"
    and e: "dispatch_of e = Some (call_key (ev_invocation_id e) (td_provider_tool_call_id d), td_operation_id d)"
  shows "ledger_inv (es @ [e]) (scan_dispatch s' e d)"
proof (cases "ss_by_call s (call_key (ev_invocation_id e) (td_provider_tool_call_id d))")
  case None
  show ?thesis
    by (rule ledger_inv_push[OF inv None refl])
      (use e t None ledger_inv_seen[OF inv] in
        \<open>auto simp: scan_dispatch_def op_ok_simps nth_append Let_def split: if_splits\<close>)
next
  case (Some i)
  show ?thesis
    by (rule ledger_inv_update[OF inv Some])
      (use ledger_inv_op[OF inv Some] e t Some ledger_inv_seen[OF inv] in
        \<open>auto simp: scan_dispatch_def op_ok_simps split: if_splits\<close>)
qed

lemma scan_response_inv:
  assumes inv: "ledger_inv es s" and t: "ss_seen s' = insert (ev_id e) (ss_seen s)"
    "ss_operations s' = ss_operations s" "ss_issues s' = ss_issues s"
    "ss_by_call s' = ss_by_call s" "ss_by_operation s' = ss_by_operation s"
    and e: "response_of e = Some (call_key (ev_invocation_id e) cid, n)"
  shows "ledger_inv (es @ [e]) (scan_response s' e cid n)"
proof (cases "ss_by_call s (call_key (ev_invocation_id e) cid)")
  case None
  show ?thesis
    by (rule ledger_inv_push[OF inv None refl])
      (use e t None ledger_inv_seen[OF inv] in
        \<open>auto simp: scan_response_def op_ok_simps nth_append Let_def\<close>)
next
  case (Some i)
  show ?thesis
    by (rule ledger_inv_update[OF inv Some])
      (use ledger_inv_op[OF inv Some] e t Some ledger_inv_seen[OF inv] in
        \<open>auto simp: scan_response_def op_ok_simps Let_def split: if_splits\<close>)
qed

lemma scan_fact_inv:
  assumes inv: "ledger_inv es s" and t: "ss_seen s' = insert (ev_id e) (ss_seen s)"
    "ss_operations s' = ss_operations s" "ss_issues s' = ss_issues s"
    "ss_by_call s' = ss_by_call s" "ss_by_operation s' = ss_by_operation s"
  shows "ledger_inv (es @ [e]) (scan_fact s' e f)"
proof (cases "Option.bind (fact_operation_id f) (ss_by_operation s)")
  case None
  show ?thesis
    by (rule ledger_inv_keep[OF inv])
      (use t None ledger_inv_seen[OF inv] in \<open>auto simp: scan_fact_def\<close>)
next
  case (Some i)
  then obtain q where "ss_by_operation s q = Some i" by (cases "fact_operation_id f") auto
  then have "i < length (ss_operations s)" by (rule ledger_inv_byop[OF inv])
  then obtain k where k: "ss_by_call s k = Some i" using ledger_inv_cover[OF inv] by blast
  show ?thesis
    by (rule ledger_inv_update[OF inv k])
      (use ledger_inv_op[OF inv k] t Some ledger_inv_seen[OF inv] in
        \<open>auto simp: scan_fact_def op_ok_simps split: ledger_lane.splits\<close>)
qed

lemma call_of_lane:
  "classify_lane e = Lane_FunctionCall \<Longrightarrow> ev_content e = Some (Content_FunctionCall i n a p x) \<Longrightarrow>
     call_of e = Some (call_key (ev_invocation_id e) i, n)"
  by (auto simp: classify_lane_def call_of_def split: role.splits option.splits if_splits)

lemma response_of_lane:
  "classify_lane e = Lane_FunctionResponse \<Longrightarrow>
     ev_content e = Some (Content_FunctionResponse i n r x p y) \<Longrightarrow>
     response_of e = Some (call_key (ev_invocation_id e) i, n)"
  by (auto simp: classify_lane_def response_of_def split: role.splits option.splits if_splits)

lemma dispatch_of_lane:
  "classify_lane e = Lane_ToolDispatch \<Longrightarrow> ev_tool_dispatch e = Some d \<Longrightarrow>
     dispatch_of e = Some (call_key (ev_invocation_id e) (td_provider_tool_call_id d), td_operation_id d)"
  by (auto simp: classify_lane_def dispatch_of_def
      split: role.splits option.splits if_splits content.splits)

lemma ledger_inv_seen_only:
  assumes "ledger_inv es s"
  shows "ledger_inv (es @ [e]) (s\<lparr>ss_seen := insert (ev_id e) (ss_seen s)\<rparr>)"
  by (rule ledger_inv_keep[OF assms]) (use ledger_inv_seen[OF assms] in auto)

lemma scan_event_inv:
  assumes inv: "ledger_inv es s"
  shows "ledger_inv (es @ [e]) (scan_event s e)"
proof (cases "ev_id e \<in> ss_seen s")
  case True
  show ?thesis
    by (rule ledger_inv_keep[OF inv])
      (use True ledger_inv_seen[OF inv] in \<open>auto simp: scan_event_def insert_absorb\<close>)
next
  case False
  note fct = scan_fact_inv[OF inv, where s' = "s\<lparr>ss_seen := insert (ev_id e) (ss_seen s)\<rparr>" and e = e]
  show ?thesis
  proof (cases "classify_lane e")
    case Lane_Ordinary
    with False ledger_inv_seen_only[OF inv] show ?thesis by (simp add: scan_event_def)
  next
    case Lane_FunctionCall
    with False ledger_inv_seen_only[OF inv] call_of_lane[OF Lane_FunctionCall] show ?thesis
      by (simp add: scan_event_def Let_def scan_call_inv[OF inv] split: option.split content.split)
  next
    case Lane_ToolDispatch
    with False ledger_inv_seen_only[OF inv] dispatch_of_lane[OF Lane_ToolDispatch] show ?thesis
      by (simp add: scan_event_def Let_def scan_dispatch_inv[OF inv] split: option.split)
  next
    case Lane_FunctionResponse
    with False ledger_inv_seen_only[OF inv] response_of_lane[OF Lane_FunctionResponse] show ?thesis
      by (simp add: scan_event_def Let_def scan_response_inv[OF inv] split: option.split content.split)
  next
    case Lane_ReconcileResult
    with False ledger_inv_seen_only[OF inv] fct show ?thesis
      by (simp add: scan_event_def Let_def split: option.split)
  next
    case Lane_RecoveryDecision
    with False ledger_inv_seen_only[OF inv] fct show ?thesis
      by (simp add: scan_event_def Let_def split: option.split)
  qed
qed

lemma scan_loop_inv: "ledger_inv es (scan_loop es)"
proof (induction es rule: rev_induct)
  case Nil
  show ?case by (simp add: scan_loop_def scan_init_def ledger_inv_def)
next
  case (snoc e es)
  from scan_event_inv[OF snoc] show ?case by (simp add: scan_loop_def)
qed

subsection \<open>Slots are written once\<close>

text \<open>
  \<open>covered es s\<close>: without an issue so far, the events of \<open>es\<close> have distinct ids and every
  call, dispatch fact and response sits in the slot of its own kind of the operation its key
  is indexed under.
\<close>

definition attached :: "scan_state \<Rightarrow> runtime_event \<Rightarrow> bool" where
  "attached s e \<longleftrightarrow>
     (\<forall>k n. call_of e = Some (k, n) \<longrightarrow>
        (\<exists>i. ss_by_call s k = Some i \<and> so_call_event (ss_operations s ! i) = Some e)) \<and>
     (\<forall>k n. response_of e = Some (k, n) \<longrightarrow>
        (\<exists>i. ss_by_call s k = Some i \<and> so_response_event (ss_operations s ! i) = Some e)) \<and>
     (\<forall>k q. dispatch_of e = Some (k, q) \<longrightarrow>
        (\<exists>i. ss_by_call s k = Some i \<and> so_dispatch_event (ss_operations s ! i) = Some e))"

definition slots_kept :: "scan_state \<Rightarrow> scan_state \<Rightarrow> bool" where
  "slots_kept s t \<longleftrightarrow>
     (\<forall>k i. ss_by_call s k = Some i \<longrightarrow> ss_by_call t k = Some i \<and>
        (\<forall>x. so_call_event (ss_operations s ! i) = Some x \<longrightarrow> so_call_event (ss_operations t ! i) = Some x) \<and>
        (\<forall>x. so_response_event (ss_operations s ! i) = Some x \<longrightarrow> so_response_event (ss_operations t ! i) = Some x) \<and>
        (\<forall>x. so_dispatch_event (ss_operations s ! i) = Some x \<longrightarrow> so_dispatch_event (ss_operations t ! i) = Some x))"

lemma slots_keptI:
  assumes "\<And>k i. ss_by_call s k = Some i \<Longrightarrow> ss_by_call t k = Some i \<and>
        (\<forall>x. so_call_event (ss_operations s ! i) = Some x \<longrightarrow> so_call_event (ss_operations t ! i) = Some x) \<and>
        (\<forall>x. so_response_event (ss_operations s ! i) = Some x \<longrightarrow> so_response_event (ss_operations t ! i) = Some x) \<and>
        (\<forall>x. so_dispatch_event (ss_operations s ! i) = Some x \<longrightarrow> so_dispatch_event (ss_operations t ! i) = Some x)"
  shows "slots_kept s t"
  using assms unfolding slots_kept_def by blast

lemma attached_mono: "attached s e \<Longrightarrow> slots_kept s t \<Longrightarrow> attached t e"
  unfolding attached_def slots_kept_def by (elim conjE, intro conjI) meson+

lemma lane_exclusive:
  "call_of e = Some c \<Longrightarrow> response_of e = None \<and> dispatch_of e = None"
  "response_of e = Some c \<Longrightarrow> call_of e = None \<and> dispatch_of e = None"
  "dispatch_of e = Some c \<Longrightarrow> call_of e = None \<and> response_of e = None"
  by (auto simp: call_of_def response_of_def dispatch_of_def
      split: role.splits option.splits content.splits if_splits)

lemma scan_call_step:
  assumes inv: "ledger_inv es s" and e: "call_of e = Some (call_key (ev_invocation_id e) cid, n)"
  shows "slots_kept s (scan_call s e cid n) \<and>
    (ss_issues (scan_call s e cid n) = [] \<longrightarrow> attached (scan_call s e cid n) e)"
proof (cases "ss_by_call s (call_key (ev_invocation_id e) cid)")
  case None
  with e lane_exclusive(1)[OF e] ledger_inv_call[OF inv] show ?thesis
    by (auto simp: scan_call_def attached_def nth_append intro!: slots_keptI)
next
  case (Some i)
  with e lane_exclusive(1)[OF e] ledger_inv_call[OF inv] show ?thesis
    by (auto simp: scan_call_def attached_def nth_list_update intro!: slots_keptI)
qed

lemma scan_dispatch_step:
  assumes inv: "ledger_inv es s"
    and e: "dispatch_of e = Some (call_key (ev_invocation_id e) (td_provider_tool_call_id d), td_operation_id d)"
  shows "slots_kept s (scan_dispatch s e d) \<and>
    (ss_issues (scan_dispatch s e d) = [] \<longrightarrow> attached (scan_dispatch s e d) e)"
proof (cases "ss_by_call s (call_key (ev_invocation_id e) (td_provider_tool_call_id d))")
  case None
  with e lane_exclusive(3)[OF e] ledger_inv_call[OF inv] show ?thesis
    by (auto simp: scan_dispatch_def attached_def nth_append Let_def intro!: slots_keptI)
next
  case (Some i)
  with e lane_exclusive(3)[OF e] ledger_inv_call[OF inv] show ?thesis
    by (auto simp: scan_dispatch_def attached_def nth_list_update intro!: slots_keptI)
qed

lemma scan_response_step:
  assumes inv: "ledger_inv es s" and e: "response_of e = Some (call_key (ev_invocation_id e) cid, n)"
  shows "slots_kept s (scan_response s e cid n) \<and>
    (ss_issues (scan_response s e cid n) = [] \<longrightarrow> attached (scan_response s e cid n) e)"
proof (cases "ss_by_call s (call_key (ev_invocation_id e) cid)")
  case None
  with e lane_exclusive(2)[OF e] ledger_inv_call[OF inv] show ?thesis
    by (auto simp: scan_response_def attached_def nth_append Let_def intro!: slots_keptI)
next
  case (Some i)
  with e lane_exclusive(2)[OF e] ledger_inv_call[OF inv] show ?thesis
    by (auto simp: scan_response_def attached_def nth_list_update Let_def intro!: slots_keptI)
qed

lemma slots_kept_update:
  assumes "\<And>x. so_call_event (f x) = so_call_event x" "\<And>x. so_response_event (f x) = so_response_event x"
    "\<And>x. so_dispatch_event (f x) = so_dispatch_event x"
  shows "slots_kept s (upd_op s i f)"
  using assms by (cases "i < length (ss_operations s)")
    (auto intro!: slots_keptI simp: nth_list_update list_update_beyond)

lemma slots_kept_same:
  "ss_operations t = ss_operations s \<Longrightarrow> ss_by_call t = ss_by_call s \<Longrightarrow> slots_kept s t"
  by (simp add: slots_kept_def)

lemma scan_fact_step: "slots_kept s (scan_fact s e f)"
proof (cases "Option.bind (fact_operation_id f) (ss_by_operation s)")
  case None
  show ?thesis by (rule slots_kept_same) (simp_all add: scan_fact_def None)
next
  case (Some j)
  show ?thesis
  proof (cases "classify_lane e \<in> {Lane_ReconcileResult, Lane_RecoveryDecision}")
    case True
    with Some show ?thesis by (auto simp: scan_fact_def intro!: slots_kept_update)
  next
    case False
    with Some have "scan_fact s e f = s" by (simp add: scan_fact_def split: ledger_lane.split)
    then show ?thesis by (simp add: slots_kept_same)
  qed
qed

lemma issues_grow:
  "prefix (ss_issues s) (ss_issues (scan_call s e c n))"
  "prefix (ss_issues s) (ss_issues (scan_dispatch s e d))"
  "prefix (ss_issues s) (ss_issues (scan_response s e c n))"
  "prefix (ss_issues s) (ss_issues (scan_fact s e f))"
  by (simp_all add: scan_defs Let_def split: option.split ledger_lane.split)

lemma not_attached_other:
  "classify_lane e \<notin> {Lane_FunctionCall, Lane_FunctionResponse, Lane_ToolDispatch} \<Longrightarrow> attached s e"
  using lane_call_iff[of e] lane_response_iff[of e] lane_dispatch_iff[of e]
  by (simp add: attached_def)

lemma scan_event_step:
  assumes inv: "ledger_inv es s"
  shows "slots_kept s (scan_event s e) \<and> prefix (ss_issues s) (ss_issues (scan_event s e)) \<and>
    (ss_issues (scan_event s e) = [] \<longrightarrow> ev_id e \<notin> ss_seen s \<and> attached (scan_event s e) e)"
proof (cases "ev_id e \<in> ss_seen s")
  case True
  then show ?thesis by (simp add: scan_event_def slots_kept_same)
next
  case False
  define s' where "s' = s\<lparr>ss_seen := insert (ev_id e) (ss_seen s)\<rparr>"
  have inv': "ledger_inv (es @ [e]) s'" unfolding s'_def by (rule ledger_inv_seen_only[OF inv])
  have kept: "slots_kept s' t \<Longrightarrow> slots_kept s t" for t by (simp add: s'_def slots_kept_def)
  have same: "slots_kept s s'" "ss_issues s' = ss_issues s" by (simp_all add: s'_def slots_kept_def)
  have step: "slots_kept s t \<and> prefix (ss_issues s) (ss_issues t) \<and>
      (ss_issues t = [] \<longrightarrow> ev_id e \<notin> ss_seen s \<and> attached t e)"
    if "slots_kept s' t" "prefix (ss_issues s') (ss_issues t)" "ss_issues t = [] \<Longrightarrow> attached t e" for t
    using that kept False same by simp
  note ev = scan_event_def Let_def False s'_def[symmetric]
  show ?thesis
  proof (cases "classify_lane e")
    case Lane_Ordinary
    then have "attached s' e" by (simp add: not_attached_other)
    with Lane_Ordinary same False show ?thesis by (simp add: ev)
  next
    case Lane_FunctionCall
    then obtain i n a p x where c: "ev_content e = Some (Content_FunctionCall i n a p x)"
      by (auto simp: classify_lane_def split: role.splits option.splits content.splits if_splits)
    from scan_call_step[OF inv' call_of_lane[OF Lane_FunctionCall c]] issues_grow(1)
    have "slots_kept s' (scan_call s' e i n)" "prefix (ss_issues s') (ss_issues (scan_call s' e i n))"
      "ss_issues (scan_call s' e i n) = [] \<Longrightarrow> attached (scan_call s' e i n) e" by blast+
    from step[OF this] show ?thesis using Lane_FunctionCall c by (simp add: ev)
  next
    case Lane_ToolDispatch
    then obtain d where d: "ev_tool_dispatch e = Some d"
      by (auto simp: classify_lane_def split: role.splits option.splits content.splits if_splits)
    from scan_dispatch_step[OF inv' dispatch_of_lane[OF Lane_ToolDispatch d]] issues_grow(2)
    have "slots_kept s' (scan_dispatch s' e d)" "prefix (ss_issues s') (ss_issues (scan_dispatch s' e d))"
      "ss_issues (scan_dispatch s' e d) = [] \<Longrightarrow> attached (scan_dispatch s' e d) e" by blast+
    from step[OF this] show ?thesis using Lane_ToolDispatch d by (simp add: ev)
  next
    case Lane_FunctionResponse
    then obtain i n r x p y where c: "ev_content e = Some (Content_FunctionResponse i n r x p y)"
      by (auto simp: classify_lane_def split: role.splits option.splits content.splits if_splits)
    from scan_response_step[OF inv' response_of_lane[OF Lane_FunctionResponse c]] issues_grow(3)
    have "slots_kept s' (scan_response s' e i n)" "prefix (ss_issues s') (ss_issues (scan_response s' e i n))"
      "ss_issues (scan_response s' e i n) = [] \<Longrightarrow> attached (scan_response s' e i n) e" by blast+
    from step[OF this] show ?thesis using Lane_FunctionResponse c by (simp add: ev)
  next
    case Lane_ReconcileResult
    then obtain f where f: "ev_tool_recovery e = Some f"
      by (auto simp: classify_lane_def split: role.splits option.splits content.splits if_splits)
    have "attached t e" for t
      using Lane_ReconcileResult by (simp add: not_attached_other)
    from step[OF scan_fact_step issues_grow(4) this] show ?thesis
      using Lane_ReconcileResult f by (simp add: ev)
  next
    case Lane_RecoveryDecision
    then obtain f where f: "ev_tool_recovery e = Some f"
      by (auto simp: classify_lane_def split: role.splits option.splits content.splits if_splits)
    have "attached t e" for t
      using Lane_RecoveryDecision by (simp add: not_attached_other)
    from step[OF scan_fact_step issues_grow(4) this] show ?thesis
      using Lane_RecoveryDecision f by (simp add: ev)
  qed
qed

lemma scan_loop_snoc: "scan_loop (es @ [e]) = scan_event (scan_loop es) e"
  by (simp add: scan_loop_def)

lemma scan_loop_issues_prefix:
  "prefix (ss_issues (scan_loop xs)) (ss_issues (scan_loop (xs @ ys)))"
proof (induction ys rule: rev_induct)
  case (snoc y ys)
  from scan_event_step[OF scan_loop_inv, of "xs @ ys" y]
  have "prefix (ss_issues (scan_loop (xs @ ys))) (ss_issues (scan_loop ((xs @ ys) @ [y])))"
    unfolding scan_loop_snoc by blast
  with snoc show ?case by (metis append_assoc prefix_order.trans)
qed simp

lemma scan_loop_clean:
  "ss_issues (scan_loop es) = [] \<Longrightarrow>
     distinct (map ev_id es) \<and> (\<forall>e \<in> set es. attached (scan_loop es) e)"
proof (induction es rule: rev_induct)
  case (snoc e es)
  let ?s = "scan_loop es"
  from snoc.prems have t: "ss_issues (scan_event ?s e) = []" by (simp add: scan_loop_snoc)
  from scan_event_step[OF scan_loop_inv, of es e] t
  have *: "slots_kept ?s (scan_event ?s e)" "ss_issues ?s = []" "ev_id e \<notin> ss_seen ?s"
    "attached (scan_event ?s e) e" by simp_all
  from snoc.IH[OF *(2)] *(1,3,4) ledger_inv_seen[OF scan_loop_inv, of es] attached_mono
  show ?case by (auto simp: scan_loop_snoc)
qed simp

subsection \<open>What the scanner promises\<close>

text \<open>
  Every index the scanner stores points at an existing operation,
  so none of its \<^verbatim>\<open>operations[idx]\<close> accesses panics; the two call indexes never
  alias, and every operation holds only events of the prefix.
\<close>

lemma ledger_indexes_in_bounds:
  "(\<forall>k i. ss_by_call (scan_loop es) k = Some i \<longrightarrow> i < length (ss_operations (scan_loop es))) \<and>
   (\<forall>q i. ss_by_operation (scan_loop es) q = Some i \<longrightarrow> i < length (ss_operations (scan_loop es))) \<and>
   (\<forall>k k' i. ss_by_call (scan_loop es) k = Some i \<and> ss_by_call (scan_loop es) k' = Some i \<longrightarrow> k = k') \<and>
   (\<forall>x \<in> set (sr_operations (scan_tool_ledger es)). op_events x \<subseteq> set es)"
proof (intro conjI allI ballI impI)
  note inv = scan_loop_inv[of es]
  show "i < length (ss_operations (scan_loop es))" if "ss_by_call (scan_loop es) k = Some i" for k i
    using ledger_inv_op(1)[OF inv that] .
  show "i < length (ss_operations (scan_loop es))" if "ss_by_operation (scan_loop es) q = Some i" for q i
    using ledger_inv_byop[OF inv that] .
  show "k = k'" if "ss_by_call (scan_loop es) k = Some i \<and> ss_by_call (scan_loop es) k' = Some i" for k k' i
    using ledger_inv_inj[OF inv] that by blast
  show "op_events x \<subseteq> set es" if "x \<in> set (sr_operations (scan_tool_ledger es))" for x
  proof -
    from that obtain i where i: "i < length (ss_operations (scan_loop es))" "x = ss_operations (scan_loop es) ! i"
      by (auto simp: scan_tool_ledger_def Let_def in_set_conv_nth)
    from ledger_inv_cover[OF inv i(1)] i(2) ledger_inv_op(2)[OF inv] show ?thesis by blast
  qed
qed

lemma clean_slot:
  assumes no: "ss_issues (scan_loop es) = []" and k: "ss_by_call (scan_loop es) k = Some i"
  shows "\<exists>c n. so_call_event (ss_operations (scan_loop es) ! i) = Some c \<and> c \<in> set es \<and>
    call_of c = Some (k, n) \<and> so_tool_name (ss_operations (scan_loop es) ! i) = Some n \<and>
    (\<forall>r. so_response_event (ss_operations (scan_loop es) ! i) = Some r \<longrightarrow>
       r \<in> set es \<and> response_of r = Some (k, n)) \<and>
    (\<forall>d. so_dispatch_event (ss_operations (scan_loop es) ! i) = Some d \<longrightarrow>
       (\<exists>q. d \<in> set es \<and> dispatch_of d = Some (k, q) \<and>
          so_operation_id (ss_operations (scan_loop es) ! i) = Some q))"
proof -
  define x where "x = ss_operations (scan_loop es) ! i"
  note op = ledger_inv_op[OF scan_loop_inv k]
  from op(4) no have iss: "so_issues x = []" by (simp add: x_def)
  from op(2,3) have ok: "op_events x \<subseteq> set es" "op_keyed k x" by (simp_all add: x_def)
  from ok(2) iss obtain c n where c: "so_call_event x = Some c" "call_of c = Some (k, n)"
    "so_tool_name x = Some n" by (auto simp: op_keyed_def)
  from c ok iss have "\<exists>c n. so_call_event x = Some c \<and> c \<in> set es \<and> call_of c = Some (k, n) \<and>
      so_tool_name x = Some n \<and>
      (\<forall>r. so_response_event x = Some r \<longrightarrow> r \<in> set es \<and> response_of r = Some (k, n)) \<and>
      (\<forall>d. so_dispatch_event x = Some d \<longrightarrow>
        (\<exists>q. d \<in> set es \<and> dispatch_of d = Some (k, q) \<and> so_operation_id x = Some q))"
    by (auto simp: op_keyed_def op_events_def)
  then show ?thesis by (simp only: x_def)
qed

text \<open>
  C4. In a ledger without corruption every operation has its call, and its
  response and dispatch fact, where present, carry the call's own key and tool name: no
  operation of a clean ledger mixes two tool calls.
\<close>

theorem clean_ledger_sound:
  assumes "\<not> sr_has_corruption (scan_tool_ledger es)"
    and "x \<in> set (sr_operations (scan_tool_ledger es))"
  shows "\<exists>c k n. so_call_event x = Some c \<and> c \<in> set es \<and> call_of c = Some (k, n) \<and>
    so_tool_name x = Some n \<and>
    (\<forall>r. so_response_event x = Some r \<longrightarrow> r \<in> set es \<and> response_of r = Some (k, n)) \<and>
    (\<forall>d. so_dispatch_event x = Some d \<longrightarrow>
       (\<exists>q. d \<in> set es \<and> dispatch_of d = Some (k, q) \<and> so_operation_id x = Some q))"
proof -
  from assms have no: "ss_issues (scan_loop es) = []"
    by (simp add: scan_tool_ledger_def Let_def)
  from assms(2) obtain i where i: "i < length (ss_operations (scan_loop es))" "x = ss_operations (scan_loop es) ! i"
    by (auto simp: scan_tool_ledger_def Let_def in_set_conv_nth)
  from ledger_inv_cover[OF scan_loop_inv i(1)] obtain k where "ss_by_call (scan_loop es) k = Some i" ..
  from clean_slot[OF no this] i(2) show ?thesis by blast
qed

text \<open>
  A ledger without corruption lost nothing: its events have distinct
  ids and every call, dispatch fact and response of the prefix is in the slot of its own
  kind of one of the reported operations.
\<close>

lemma clean_ledger_complete:
  assumes "\<not> sr_has_corruption (scan_tool_ledger es)"
  shows "distinct (map ev_id es) \<and>
    (\<forall>e \<in> set es. call_of e \<noteq> None \<longrightarrow>
       (\<exists>x \<in> set (sr_operations (scan_tool_ledger es)). so_call_event x = Some e)) \<and>
    (\<forall>e \<in> set es. response_of e \<noteq> None \<longrightarrow>
       (\<exists>x \<in> set (sr_operations (scan_tool_ledger es)). so_response_event x = Some e)) \<and>
    (\<forall>e \<in> set es. dispatch_of e \<noteq> None \<longrightarrow>
       (\<exists>x \<in> set (sr_operations (scan_tool_ledger es)). so_dispatch_event x = Some e))"
proof -
  let ?s = "scan_loop es"
  from assms have "ss_issues ?s = []" by (simp add: scan_tool_ledger_def Let_def)
  from scan_loop_clean[OF this] have d: "distinct (map ev_id es)"
    and a: "\<And>e. e \<in> set es \<Longrightarrow> attached ?s e" by blast+
  have ops: "sr_operations (scan_tool_ledger es) = ss_operations ?s"
    by (simp add: scan_tool_ledger_def Let_def)
  have nth: "ss_by_call ?s k = Some i \<Longrightarrow> ss_operations ?s ! i \<in> set (ss_operations ?s)" for k i
    using ledger_inv_op(1)[OF scan_loop_inv] nth_mem by blast
  from d show ?thesis unfolding ops
    using a nth by (fastforce simp: attached_def)
qed

text \<open>
  In a ledger without corruption a response and a dispatch fact are
  always preceded by the call they belong to: the same invocation, tool call id and (for a
  response) tool name.
\<close>

lemma clean_ledger_ordered:
  assumes "\<not> sr_has_corruption (scan_tool_ledger (xs @ e # ys))"
  shows "(\<forall>k n. response_of e = Some (k, n) \<longrightarrow> (\<exists>c \<in> set xs. call_of c = Some (k, n))) \<and>
    (\<forall>k q. dispatch_of e = Some (k, q) \<longrightarrow> (\<exists>c \<in> set xs. \<exists>n. call_of c = Some (k, n)))"
proof -
  let ?t = "scan_loop (xs @ [e])"
  from assms scan_loop_issues_prefix[of "xs @ [e]" ys] have t: "ss_issues ?t = []"
    by (simp add: scan_tool_ledger_def Let_def)
  from scan_loop_clean[OF t] have att: "attached ?t e" by simp
  show ?thesis
  proof (intro conjI allI impI)
    fix k n assume r: "response_of e = Some (k, n)"
    with att obtain i where "ss_by_call ?t k = Some i" "so_response_event (ss_operations ?t ! i) = Some e"
      by (auto simp: attached_def)
    from clean_slot[OF t this(1)] this(2) r lane_exclusive(2)[OF r]
    show "\<exists>c \<in> set xs. call_of c = Some (k, n)" by auto
  next
    fix k q assume d: "dispatch_of e = Some (k, q)"
    with att obtain i where "ss_by_call ?t k = Some i" "so_dispatch_event (ss_operations ?t ! i) = Some e"
      by (auto simp: attached_def)
    from clean_slot[OF t this(1)] d lane_exclusive(3)[OF d]
    show "\<exists>c \<in> set xs. \<exists>n. call_of c = Some (k, n)" by auto
  qed
qed


subsection \<open>Witnesses\<close>

abbreviation sample_ledger :: "runtime_event list" where
  "sample_ledger \<equiv> [sample_call, sample_dispatch ''op1'' ReplaySafe, sample_response]"

lemmas sample_defs = sample_event_def sample_call_def sample_dispatch_def sample_response_def
  default_actions_def

lemma sample_ledger_clean: "\<not> sr_has_corruption (scan_tool_ledger sample_ledger)"
  by code_simp

lemma sample_ledger_ops:
  "map (\<lambda>x. (so_call_event x, so_dispatch_event x, so_response_event x, so_operation_id x))
     (sr_operations (scan_tool_ledger sample_ledger)) =
   [(Some sample_call, Some (sample_dispatch ''op1'' ReplaySafe), Some sample_response, Some ''op1'')]"
  by code_simp


lemma sample_ledger_op:
  "\<exists>x \<in> set (sr_operations (scan_tool_ledger sample_ledger)). so_response_event x = Some sample_response"
  by code_simp

theorem clean_ledger_sound_witness:
  "\<exists>x \<in> set (sr_operations (scan_tool_ledger sample_ledger)). \<exists>c k n.
     so_call_event x = Some c \<and> call_of c = Some (k, n) \<and>
     so_response_event x = Some sample_response \<and> response_of sample_response = Some (k, n)"
  using clean_ledger_sound[OF sample_ledger_clean] sample_ledger_op by blast

lemma clean_ledger_complete_witness:
  "\<exists>x \<in> set (sr_operations (scan_tool_ledger sample_ledger)). so_call_event x = Some sample_call"
proof -
  have "call_of sample_call \<noteq> None" by code_simp
  with clean_ledger_complete[OF sample_ledger_clean] show ?thesis by simp
qed

lemma clean_ledger_ordered_witness:
  "\<exists>c \<in> set [sample_call, sample_dispatch ''op1'' ReplaySafe].
     call_of c = Some (call_key ''i'' ''c1'', ''Bash'')"
proof -
  have "response_of sample_response = Some (call_key ''i'' ''c1'', ''Bash'')" by code_simp
  with clean_ledger_ordered[of "[sample_call, sample_dispatch ''op1'' ReplaySafe]" sample_response "[]"]
    sample_ledger_clean show ?thesis by simp
qed


lemma ledger_indexes_in_bounds_witness:
  "ss_by_operation (scan_loop sample_ledger) ''op1'' = Some 0 \<and> 0 < length (ss_operations (scan_loop sample_ledger))"
proof -
  have "ss_by_operation (scan_loop sample_ledger) ''op1'' = Some 0" by code_simp
  with ledger_indexes_in_bounds[of sample_ledger] show ?thesis by blast
qed

end
