(* ===== verification/Projection.thy ===== *)
theory Projection
  imports Compaction Ledger
begin

text \<open>
  Rebuilding the conversation from the ledger
  (\<^verbatim>\<open>meepo-runtime/src/projection.rs\<close>).  The state of the second pass is the
  triple of messages, pending text and pending calls.
\<close>

definition value_to_string :: "(json \<Rightarrow> string) \<Rightarrow> json \<Rightarrow> string" where
  "value_to_string json_text v = (case as_str v of Some t \<Rightarrow> t | None \<Rightarrow> json_text v)"

type_synonym projection_state = "chat_message list \<times> string option \<times> assistant_tool_call list"

fun flush_assistant :: "projection_state \<Rightarrow> projection_state" where
  "flush_assistant (out, buf, calls) =
     (if buf \<noteq> None \<or> calls \<noteq> [] then (out @ [Assistant_Msg buf calls []], None, [])
      else (out, buf, calls))"

definition response_id :: "runtime_event \<Rightarrow> string option" where
  "response_id e =
     (case (ev_role e, ev_content e) of
        (Role_Tool, Some (Content_FunctionResponse i _ _ _ _ _)) \<Rightarrow> Some i
      | _ \<Rightarrow> None)"

definition responded_ids :: "runtime_event list \<Rightarrow> string set" where
  "responded_ids es = set (List.map_filter response_id es)"

definition project_step ::
    "(json \<Rightarrow> string) \<Rightarrow> string set \<Rightarrow> projection_state \<Rightarrow> runtime_event \<Rightarrow> projection_state" where
  "project_step json_text responded st e =
     (case (ev_role e, ev_content e) of
        (Role_User, Some (Content_Text body _ _)) \<Rightarrow>
          (let (out, buf, calls) = flush_assistant st in (out @ [User_Msg body], buf, calls))
      | (Role_Model, Some (Content_Text body _ _)) \<Rightarrow>
          (let (out, buf, calls) = st in
           (out, Some (case buf of Some b \<Rightarrow> b @ body | None \<Rightarrow> body), calls))
      | (Role_Model, Some (Content_FunctionCall i name args _ _)) \<Rightarrow>
          (let (out, buf, calls) = st in
           if i \<in> responded
           then (out, buf, calls @ [\<lparr>atc_id = i, atc_name = name, atc_args = args\<rparr>])
           else st)
      | (Role_Tool, Some (Content_FunctionResponse i _ res _ _ _)) \<Rightarrow>
          (let (out, buf, calls) = flush_assistant st
           in (out @ [Tool_Msg i (value_to_string json_text res)], buf, calls))
      | _ \<Rightarrow> st)"

definition messages_from_runtime_events ::
    "(json \<Rightarrow> string) \<Rightarrow> runtime_event list \<Rightarrow> chat_message list" where
  "messages_from_runtime_events json_text events =
     fst (flush_assistant (foldl (project_step json_text (responded_ids events)) ([], None, []) events))"

subsection \<open>What the projection keeps\<close>

fun msg_calls :: "chat_message \<Rightarrow> assistant_tool_call list" where
  "msg_calls (Assistant_Msg _ calls _) = calls"
| "msg_calls _ = []"

fun msg_text :: "chat_message \<Rightarrow> string" where
  "msg_text (Assistant_Msg (Some t) _ _) = t"
| "msg_text _ = ''''"

fun msg_result :: "chat_message \<Rightarrow> (string \<times> string) option" where
  "msg_result (Tool_Msg i c) = Some (i, c)"
| "msg_result _ = None"

fun msg_user :: "chat_message \<Rightarrow> string option" where
  "msg_user (User_Msg c) = Some c"
| "msg_user _ = None"

definition event_call :: "runtime_event \<Rightarrow> assistant_tool_call option" where
  "event_call e = (case (ev_role e, ev_content e) of
     (Role_Model, Some (Content_FunctionCall i name args _ _)) \<Rightarrow>
        Some \<lparr>atc_id = i, atc_name = name, atc_args = args\<rparr>
   | _ \<Rightarrow> None)"

definition event_result :: "(json \<Rightarrow> string) \<Rightarrow> runtime_event \<Rightarrow> (string \<times> string) option" where
  "event_result json_text e = (case (ev_role e, ev_content e) of
     (Role_Tool, Some (Content_FunctionResponse i _ r _ _ _)) \<Rightarrow> Some (i, value_to_string json_text r)
   | _ \<Rightarrow> None)"

definition event_user :: "runtime_event \<Rightarrow> string option" where
  "event_user e = (case (ev_role e, ev_content e) of
     (Role_User, Some (Content_Text body _ _)) \<Rightarrow> Some body | _ \<Rightarrow> None)"

definition event_text :: "runtime_event \<Rightarrow> string" where
  "event_text e = (case (ev_role e, ev_content e) of
     (Role_Model, Some (Content_Text body _ _)) \<Rightarrow> body | _ \<Rightarrow> '''')"

definition state_messages :: "projection_state \<Rightarrow> chat_message list" where
  "state_messages st = fst (flush_assistant st)"

lemma state_messages_simp [simp]:
  "state_messages (out, buf, calls) =
     (if buf \<noteq> None \<or> calls \<noteq> [] then out @ [Assistant_Msg buf calls []] else out)"
  by (simp add: state_messages_def)

lemmas event_reading = event_call_def event_result_def event_user_def event_text_def response_id_def

lemma map_filter_append_single [simp]:
  "List.map_filter f (xs @ ys) = List.map_filter f xs @ List.map_filter f ys"
  by (simp add: List.map_filter_def)

lemma map_filter_single [simp]:
  "List.map_filter f [x] = (case f x of None \<Rightarrow> [] | Some y \<Rightarrow> [y])"
  by (simp add: List.map_filter_def split: option.split)

lemma event_kinds [case_names User Body Call Result Other]:
  obtains body p q where "ev_role e = Role_User" "ev_content e = Some (Content_Text body p q)"
  | body p q where "ev_role e = Role_Model" "ev_content e = Some (Content_Text body p q)"
  | i n a p x where "ev_role e = Role_Model" "ev_content e = Some (Content_FunctionCall i n a p x)"
  | i n r x p y where "ev_role e = Role_Tool" "ev_content e = Some (Content_FunctionResponse i n r x p y)"
  | "event_call e = None" "\<And>jt. event_result jt e = None" "event_user e = None" "event_text e = ''''"
    "response_id e = None" "\<And>jt R st. project_step jt R st e = st"
proof -
  note other = that(5)
  note rd = event_reading project_step_def
  show thesis
  proof (cases "ev_content e")
    case None
    show thesis by (rule other) (simp_all add: rd None split: role.split)
  next
    case (Some c)
    show thesis
    proof (cases c)
      case (Content_Text b p q)
      show thesis
        by (cases "ev_role e")
          ((use that(1,2) Some Content_Text in blast) | (rule other; simp add: rd Some Content_Text))+
    next
      case (Content_FunctionCall i n a p x)
      show thesis
        by (cases "ev_role e")
          ((use that(3) Some Content_FunctionCall in blast) | (rule other; simp add: rd Some Content_FunctionCall))+
    next
      case (Content_FunctionResponse i n r x p y)
      show thesis
        by (cases "ev_role e")
          ((use that(4) Some Content_FunctionResponse in blast) | (rule other; simp add: rd Some Content_FunctionResponse))+
    qed (rule other; simp add: rd Some split: role.split)+
  qed
qed

lemma project_step_simps:
  "ev_role e = Role_User \<Longrightarrow> ev_content e = Some (Content_Text body p q) \<Longrightarrow>
     project_step jt R (out, buf, calls) e = (state_messages (out, buf, calls) @ [User_Msg body], None, [])"
  "ev_role e = Role_Model \<Longrightarrow> ev_content e = Some (Content_Text body p q) \<Longrightarrow>
     project_step jt R (out, buf, calls) e =
       (out, Some (case buf of Some b \<Rightarrow> b @ body | None \<Rightarrow> body), calls)"
  "ev_role e = Role_Model \<Longrightarrow> ev_content e = Some (Content_FunctionCall i n a p' x) \<Longrightarrow>
     project_step jt R (out, buf, calls) e =
       (out, buf, if i \<in> R then calls @ [\<lparr>atc_id = i, atc_name = n, atc_args = a\<rparr>] else calls)"
  "ev_role e = Role_Tool \<Longrightarrow> ev_content e = Some (Content_FunctionResponse i n' r x' p'' y) \<Longrightarrow>
     project_step jt R (out, buf, calls) e =
       (state_messages (out, buf, calls) @ [Tool_Msg i (value_to_string jt r)], None, [])"
  by (simp_all add: project_step_def)

lemma project_step_keeps:
  "concat (map msg_calls (state_messages (project_step jt R st e))) =
     concat (map msg_calls (state_messages st)) @
       (case event_call e of Some c \<Rightarrow> if atc_id c \<in> R then [c] else [] | None \<Rightarrow> [])"
  "List.map_filter msg_result (state_messages (project_step jt R st e)) =
     List.map_filter msg_result (state_messages st) @ (case event_result jt e of Some r \<Rightarrow> [r] | None \<Rightarrow> [])"
  "List.map_filter msg_user (state_messages (project_step jt R st e)) =
     List.map_filter msg_user (state_messages st) @ (case event_user e of Some r \<Rightarrow> [r] | None \<Rightarrow> [])"
  "concat (map msg_text (state_messages (project_step jt R st e))) =
     concat (map msg_text (state_messages st)) @ event_text e"
proof -
  obtain out buf calls where st: "st = (out, buf, calls)" by (cases st)
  show "concat (map msg_calls (state_messages (project_step jt R st e))) =
     concat (map msg_calls (state_messages st)) @
       (case event_call e of Some c \<Rightarrow> if atc_id c \<in> R then [c] else [] | None \<Rightarrow> [])"
    by (cases e rule: event_kinds) (auto simp: st project_step_simps event_call_def)
  show "List.map_filter msg_result (state_messages (project_step jt R st e)) =
     List.map_filter msg_result (state_messages st) @ (case event_result jt e of Some r \<Rightarrow> [r] | None \<Rightarrow> [])"
    by (cases e rule: event_kinds) (auto simp: st project_step_simps event_result_def)
  show "List.map_filter msg_user (state_messages (project_step jt R st e)) =
     List.map_filter msg_user (state_messages st) @ (case event_user e of Some r \<Rightarrow> [r] | None \<Rightarrow> [])"
    by (cases e rule: event_kinds) (auto simp: st project_step_simps event_user_def)
  show "concat (map msg_text (state_messages (project_step jt R st e))) =
     concat (map msg_text (state_messages st)) @ event_text e"
    by (cases e rule: event_kinds; cases buf) (auto simp: st project_step_simps event_text_def)
qed

lemma project_fold_keeps:
  "concat (map msg_calls (state_messages (foldl (project_step jt R) st es))) =
     concat (map msg_calls (state_messages st)) @ filter (\<lambda>c. atc_id c \<in> R) (List.map_filter event_call es) \<and>
   List.map_filter msg_result (state_messages (foldl (project_step jt R) st es)) =
     List.map_filter msg_result (state_messages st) @ List.map_filter (event_result jt) es \<and>
   List.map_filter msg_user (state_messages (foldl (project_step jt R) st es)) =
     List.map_filter msg_user (state_messages st) @ List.map_filter event_user es \<and>
   concat (map msg_text (state_messages (foldl (project_step jt R) st es))) =
     concat (map msg_text (state_messages st)) @ concat (map event_text es)"
proof (induction es arbitrary: st)
  case Nil
  show ?case by (simp add: List.map_filter_def)
next
  case (Cons e es)
  have mf: "List.map_filter f (e # es) = (case f e of None \<Rightarrow> [] | Some y \<Rightarrow> [y]) @ List.map_filter f es"
    for f :: "runtime_event \<Rightarrow> 'b option" by (simp add: List.map_filter_simps split: option.split)
  show ?case unfolding foldl_Cons
    using Cons[of "project_step jt R st e"]
    by (simp add: project_step_keeps mf split: option.split)
qed

lemma projection_keeps:
  "List.map_filter msg_user (messages_from_runtime_events json_text es) = List.map_filter event_user es"
  "List.map_filter msg_result (messages_from_runtime_events json_text es) =
     List.map_filter (event_result json_text) es"
  "concat (map msg_text (messages_from_runtime_events json_text es)) = concat (map event_text es)"
  "concat (map msg_calls (messages_from_runtime_events json_text es)) =
     filter (\<lambda>c. atc_id c \<in> responded_ids es) (List.map_filter event_call es)"
  using project_fold_keeps[of json_text "responded_ids es" "([], None, [])" es]
  by (simp_all add: messages_from_runtime_events_def state_messages_def List.map_filter_simps)

text \<open>
  C11. The rebuilt conversation is complete and in order: the user turns, the
  assistant text and the tool results are those of the ledger, one for one, and the tool
  calls are exactly those of the ledger whose id has a response, so an unanswered call is
  never sent to a provider.
\<close>

theorem projection_faithful:
  "let ms = messages_from_runtime_events json_text es in
     List.map_filter msg_user ms = List.map_filter event_user es \<and>
     List.map_filter msg_result ms = List.map_filter (event_result json_text) es \<and>
     concat (map msg_text ms) = concat (map event_text es) \<and>
     concat (map msg_calls ms) =
       filter (\<lambda>c. atc_id c \<in> responded_ids es) (List.map_filter event_call es)"
  by (simp add: Let_def projection_keeps)

text \<open>
  The projection matches calls and responses by the provider's
  call id alone, the scanner by invocation and call id: when two invocations use one id, the
  call that was never answered is replayed, and the conversation is no longer one a provider
  accepts although the scanner reports no corruption.
\<close>

lemma projection_crosses_invocations:
  "let stale = sample_call\<lparr>ev_invocation_id := ''i0'', ev_id := ''e0''\<rparr>;
       user = sample_event ''e9'' Role_User (Some (Content_Text ''next'' None None)) None;
       es = [stale, user, sample_call, sample_response]
   in \<not> sr_has_corruption (scan_tool_ledger es) \<and>
      \<not> wire_ok {} (messages_from_runtime_events (\<lambda>_. '''') es)"
  by code_simp

end
