(* ===== verification/Map_Event.thy ===== *)
theory Map_Event
  imports Ledger
begin

text \<open>
  From the backend's stream to the ledger
  (\<^verbatim>\<open>meepo-runtime/src/map_session_event.rs\<close>): every session event becomes one
  runtime event under the identity of its invocation.
\<close>

record invocation_context =
  ctx_session_id :: string
  ctx_run_id :: string
  ctx_invocation_id :: string
  ctx_turn_id :: string

definition event_base :: "session_event \<Rightarrow> string \<times> string \<times> int" where
  "event_base se = (se_id se, se_turn_id se, se_ts se)"

definition skeleton :: "invocation_context \<Rightarrow> session_event \<Rightarrow> runtime_event" where
  "skeleton ctx se =
     (let (eid, turn_id, ts) = event_base se in
      \<lparr>ev_session_id = ctx_session_id ctx, ev_invocation_id = ctx_invocation_id ctx,
       ev_run_id = ctx_run_id ctx, ev_turn_id = turn_id, ev_branch = None, ev_id = eid, ev_ts = ts,
       ev_role = Role_Model, ev_author = Author_Agent, ev_origin = None,
       ev_model_visibility = None, ev_status = None, ev_content = None, ev_actions = None,
       ev_refs = None, ev_partial = None\<rparr>)"

abbreviation provider_ref :: "string \<Rightarrow> event_refs" where
  "provider_ref message_id \<equiv> default_refs\<lparr>provider_event_id := Some message_id\<rparr>"

fun map_session_event :: "session_event \<Rightarrow> invocation_context \<Rightarrow> runtime_event" where
  "map_session_event (SE_TextDelta i t z message_id seq body) ctx =
     (skeleton ctx (SE_TextDelta i t z message_id seq body))
       \<lparr>ev_partial := Some True, ev_content := Some (Content_Text body None None),
        ev_refs := Some (provider_ref message_id)\<rparr>"
| "map_session_event (SE_TextComplete i t z message_id body opts) ctx =
     (skeleton ctx (SE_TextComplete i t z message_id body opts))
       \<lparr>ev_content := Some (Content_Text body opts None), ev_refs := Some (provider_ref message_id)\<rparr>"
| "map_session_event (SE_ThinkingDelta i t z message_id body) ctx =
     (skeleton ctx (SE_ThinkingDelta i t z message_id body))
       \<lparr>ev_partial := Some True, ev_content := Some (Content_Thinking body None None),
        ev_refs := Some (provider_ref message_id)\<rparr>"
| "map_session_event (SE_ThinkingComplete i t z message_id body sig) ctx =
     (skeleton ctx (SE_ThinkingComplete i t z message_id body sig))
       \<lparr>ev_content := Some (Content_Thinking body sig None), ev_refs := Some (provider_ref message_id)\<rparr>"
| "map_session_event (SE_ToolCall i t z call_id name args) ctx =
     (skeleton ctx (SE_ToolCall i t z call_id name args))
       \<lparr>ev_content := Some (Content_FunctionCall call_id name args None None)\<rparr>"
| "map_session_event (SE_ToolDispatch i t z opid call_id name hash mode) ctx =
     (skeleton ctx (SE_ToolDispatch i t z opid call_id name hash mode))
       \<lparr>ev_role := Role_System, ev_author := Author_System, ev_content := None,
        ev_actions := Some (default_actions\<lparr>tool_dispatch := Some
          \<lparr>td_protocol = TOOL_BOUNDARY_PROTOCOL_V1, td_operation_id = opid,
           td_provider_tool_call_id = call_id, td_tool_name = name,
           td_canonical_args_hash = hash, td_recovery_mode = mode\<rparr>\<rparr>),
        ev_refs := Some (default_refs\<lparr>ref_operation_id := Some opid, ref_tool_call_id := Some call_id\<rparr>)\<rparr>"
| "map_session_event (SE_ToolResult i t z call_id name body is_err) ctx =
     (skeleton ctx (SE_ToolResult i t z call_id name body is_err))
       \<lparr>ev_role := Role_Tool, ev_author := Author_Tool,
        ev_content := Some (Content_FunctionResponse call_id name (JStr body) (Some is_err) None None)\<rparr>"
| "map_session_event (SE_Complete i t z r) ctx =
     (skeleton ctx (SE_Complete i t z r))
       \<lparr>ev_status := Some Status_Completed,
        ev_actions := Some (default_actions\<lparr>end_invocation := Some True\<rparr>)\<rparr>"
| "map_session_event (SE_Error i t z rec msg code reason dets) ctx =
     (skeleton ctx (SE_Error i t z rec msg code reason dets))
       \<lparr>ev_role := Role_System, ev_author := Author_System, ev_status := Some Status_Failed,
        ev_content := Some (Content_Error msg code reason None)\<rparr>"
| "map_session_event (SE_Abort i t z r) ctx =
     (skeleton ctx (SE_Abort i t z r))
       \<lparr>ev_role := Role_System, ev_author := Author_System, ev_status := Some Status_Aborted,
        ev_actions := Some (default_actions\<lparr>end_invocation := Some True\<rparr>)\<rparr>"

lemmas map_event_simps = skeleton_def event_base_def

lemma map_event_identity [simp]:
  "ev_session_id (map_session_event se ctx) = ctx_session_id ctx"
  "ev_invocation_id (map_session_event se ctx) = ctx_invocation_id ctx"
  "ev_run_id (map_session_event se ctx) = ctx_run_id ctx"
  "ev_turn_id (map_session_event se ctx) = se_turn_id se"
  "ev_id (map_session_event se ctx) = se_id se"
  "ev_ts (map_session_event se ctx) = se_ts se"
  by (cases se; simp add: map_event_simps)+

lemma map_event_terminal [simp]: "ev_terminal (map_session_event se ctx) = is_terminal_se se"
  by (cases se) (simp_all add: map_event_simps ev_terminal_def)

text \<open>
  What the scanner sees of a mapped event: tool calls, dispatch facts and tool results reach the
  lanes of their kind with their own ids, and nothing else reaches a tool lane.
\<close>

fun se_call :: "session_event \<Rightarrow> (string \<times> string) option" where
  "se_call (SE_ToolCall _ _ _ call_id name _) = Some (call_id, name)"
| "se_call _ = None"

fun se_result :: "session_event \<Rightarrow> (string \<times> string) option" where
  "se_result (SE_ToolResult _ _ _ call_id name _ _) = Some (call_id, name)"
| "se_result _ = None"

fun se_dispatch :: "session_event \<Rightarrow> (string \<times> string) option" where
  "se_dispatch (SE_ToolDispatch _ _ _ opid call_id _ _ _) = Some (call_id, opid)"
| "se_dispatch _ = None"

text \<open>
  The mapping keeps identity and meaning: session, run and invocation come
  from the context, the event is terminal exactly when the backend's is, and the ledger
  scanner reads the same tool calls, results and dispatch facts out of the mapped event as
  the backend put in.
\<close>

lemma mapped_event_lanes:
  "let e = map_session_event se ctx; key = \<lambda>(cid, x). (call_key (ctx_invocation_id ctx) cid, x) in
     ev_session_id e = ctx_session_id ctx \<and> ev_run_id e = ctx_run_id ctx \<and>
     ev_invocation_id e = ctx_invocation_id ctx \<and> ev_id e = se_id se \<and>
     ev_terminal e = is_terminal_se se \<and>
     call_of e = map_option key (se_call se) \<and>
     response_of e = map_option key (se_result se) \<and>
     dispatch_of e = map_option key (se_dispatch se)"
  by (cases se) (simp_all add: map_event_simps ev_terminal_def call_of_def response_of_def
      dispatch_of_def ev_tool_recovery_def ev_tool_dispatch_def default_actions_def)

end
