(* ===== verification/Runner.thy ===== *)
theory Runner
  imports Projection Map_Event
begin

text \<open>
  The invocation shell (\<^verbatim>\<open>meepo-runtime/src/runner.rs\<close>).  A backend is the function
  \<open>send\<close> from its input to the events it streams; the stream of a turn is the list of its
  \<open>turn_event\<close>s.  The loop's state is \<open>runner_state\<close>.
\<close>

datatype run_status = Run_Completed | Run_Failed | Run_Aborted

datatype turn_event =
    Turn_Event runtime_event
  | Turn_Done (done_terminal: runtime_event) (done_status: run_status)
      (done_messages: "chat_message list") (done_summary: "string option")

record run_result =
  rr_events :: "runtime_event list"
  rr_terminal :: runtime_event
  rr_status :: run_status
  rr_messages :: "chat_message list"
  rr_compact_summary :: "string option"

definition user_event :: "invocation_context \<Rightarrow> string \<Rightarrow> runtime_event" where
  "user_event ctx body =
     \<lparr>ev_session_id = ctx_session_id ctx, ev_invocation_id = ctx_invocation_id ctx,
      ev_run_id = ctx_run_id ctx, ev_turn_id = ctx_turn_id ctx, ev_branch = None,
      ev_id = ctx_invocation_id ctx @ ''-user'', ev_ts = 0, ev_role = Role_User,
      ev_author = Author_User, ev_origin = None, ev_model_visibility = None, ev_status = None,
      ev_content = Some (Content_Text body None None),
      ev_actions = Some (default_actions\<lparr>runtime_protocol :=
        Some \<lparr>tool_boundary = TOOL_BOUNDARY_PROTOCOL_V1\<rparr>\<rparr>),
      ev_refs = None, ev_partial = None\<rparr>"

definition run_status_of :: "runtime_event \<Rightarrow> run_status" where
  "run_status_of terminal =
     (case ev_status terminal of
        Some Status_Completed \<Rightarrow> Run_Completed
      | Some Status_Aborted \<Rightarrow> Run_Aborted
      | _ \<Rightarrow> Run_Failed)"

record runner_state =
  rn_messages :: "chat_message list"
  rn_pending :: string
  rn_terminal :: "session_event option"

definition end_turn :: "runner_state \<Rightarrow> session_event \<Rightarrow> runner_state" where
  "end_turn s se =
     (let s' = (if rn_pending s \<noteq> []
                then s\<lparr>rn_messages := rn_messages s @ [Assistant_Msg (Some (rn_pending s)) [] []],
                       rn_pending := []\<rparr>
                else s)
      in s'\<lparr>rn_terminal := Some se\<rparr>)"

fun runner_step :: "runner_state \<Rightarrow> session_event \<Rightarrow> runner_state" where
  "runner_step s (SE_TextComplete i t z m body opts) = s\<lparr>rn_pending := body\<rparr>"
| "runner_step s (SE_TextDelta i t z m off body) = s\<lparr>rn_pending := rn_pending s @ body\<rparr>"
| "runner_step s (SE_ThinkingDelta i t z m body) = s"
| "runner_step s (SE_ThinkingComplete i t z m body sig) = s"
| "runner_step s (SE_ToolCall i t z call_id name args) =
     s\<lparr>rn_messages := rn_messages s @
         [Assistant_Msg (if rn_pending s = [] then None else Some (rn_pending s))
            [\<lparr>atc_id = call_id, atc_name = name, atc_args = args\<rparr>] []],
       rn_pending := []\<rparr>"
| "runner_step s (SE_ToolResult i t z call_id name body is_err) =
     s\<lparr>rn_messages := rn_messages s @ [Tool_Msg call_id body]\<rparr>"
| "runner_step s (SE_ToolDispatch i t z opid call_id name hash mode) = s"
| "runner_step s (SE_Complete i t z r) = end_turn s (SE_Complete i t z r)"
| "runner_step s (SE_Error i t z rec msg code reason dets) =
     end_turn s (SE_Error i t z rec msg code reason dets)"
| "runner_step s (SE_Abort i t z r) = end_turn s (SE_Abort i t z r)"

definition missing_terminal :: "string \<Rightarrow> session_event" where
  "missing_terminal turn_id =
     SE_Error (turn_id @ ''-missing-terminal'') turn_id 0 False
       ''backend stream ended without a terminal event''
       (Some ''missing_terminal_event'') (Some ''missing_terminal_event'') None"

definition user_turn :: "invocation_context \<Rightarrow> chat_message list \<Rightarrow> runtime_event list" where
  "user_turn ctx ms =
     (if ms = [] then []
      else case last ms of User_Msg body \<Rightarrow> [user_event ctx body] | _ \<Rightarrow> [])"

definition run_stream ::
    "(json \<Rightarrow> string) \<Rightarrow> (chat_message list \<Rightarrow> (string, string) result) \<Rightarrow>
     (backend_send_input \<Rightarrow> session_event list) \<Rightarrow> invocation_context \<Rightarrow> backend_send_input \<Rightarrow>
     string option \<Rightarrow> turn_event list" where
  "run_stream json_text compact send ctx inp previous_compact_summary =
     (let compact_result = compact_if_needed_rolling json_text compact (in_messages inp) previous_compact_summary;
          messages = cr_messages compact_result;
          stream = send (inp\<lparr>in_messages := messages\<rparr>);
          s = foldl runner_step \<lparr>rn_messages = messages, rn_pending = [], rn_terminal = None\<rparr> stream;
          terminal_se = (case rn_terminal s of Some se \<Rightarrow> se | None \<Rightarrow> missing_terminal (in_turn_id inp));
          terminal = map_session_event terminal_se ctx
      in map Turn_Event (user_turn ctx (in_messages inp)) @
         map (\<lambda>se. Turn_Event (map_session_event se ctx)) stream @
         [Turn_Done terminal (run_status_of terminal) (rn_messages s) (cr_summary compact_result)])"

text \<open>
  The caller's loop over the stream: events are collected, the last \<open>Turn_Done\<close> is kept.
  \<open>None\<close> is the panic of \<^verbatim>\<open>expect("turn ended without Done")\<close>.
\<close>

fun collect_turn ::
    "runtime_event list \<Rightarrow> turn_event option \<Rightarrow> turn_event list \<Rightarrow> runtime_event list \<times> turn_event option" where
  "collect_turn evs d [] = (evs, d)"
| "collect_turn evs d (Turn_Event e # ts) = collect_turn (evs @ [e]) d ts"
| "collect_turn evs d (Turn_Done t st ms c # ts) = collect_turn evs (Some (Turn_Done t st ms c)) ts"

definition runner_run ::
    "(json \<Rightarrow> string) \<Rightarrow> (chat_message list \<Rightarrow> (string, string) result) \<Rightarrow>
     (backend_send_input \<Rightarrow> session_event list) \<Rightarrow> invocation_context \<Rightarrow> backend_send_input \<Rightarrow>
     string option \<Rightarrow> run_result option" where
  "runner_run json_text compact send ctx inp previous_compact_summary =
     (case collect_turn [] None (run_stream json_text compact send ctx inp previous_compact_summary) of
        (evs, Some (Turn_Done t st ms c)) \<Rightarrow>
          Some \<lparr>rr_events = evs, rr_terminal = t, rr_status = st, rr_messages = ms, rr_compact_summary = c\<rparr>
      | _ \<Rightarrow> None)"

subsection \<open>The shape of a turn\<close>

lemma collect_events: "collect_turn evs d (map Turn_Event es @ ts) = collect_turn (evs @ es) d ts"
  by (induction es arbitrary: evs) auto

definition final_state :: "chat_message list \<Rightarrow> session_event list \<Rightarrow> runner_state" where
  "final_state ms stream = foldl runner_step \<lparr>rn_messages = ms, rn_pending = [], rn_terminal = None\<rparr> stream"

definition last_terminal :: "session_event list \<Rightarrow> session_event option" where
  "last_terminal stream = (case filter is_terminal_se stream of [] \<Rightarrow> None | ts \<Rightarrow> Some (last ts))"

lemma runner_step_terminal:
  "rn_terminal (runner_step s se) = (if is_terminal_se se then Some se else rn_terminal s)"
  by (cases se) (simp_all add: end_turn_def Let_def)

lemma foldl_terminal:
  "rn_terminal (foldl runner_step s stream) =
     (case last_terminal stream of None \<Rightarrow> rn_terminal s | Some t \<Rightarrow> Some t)"
  by (induction stream arbitrary: s) (auto simp: last_terminal_def runner_step_terminal split: list.split)

lemma last_terminal_is:
  assumes "last_terminal stream = Some t"
  shows "is_terminal_se t \<and> t \<in> set stream"
proof -
  from assms have "filter is_terminal_se stream \<noteq> []" "t = last (filter is_terminal_se stream)"
    by (auto simp: last_terminal_def split: list.splits)
  then have "t \<in> set (filter is_terminal_se stream)" using last_in_set by blast
  then show ?thesis by simp
qed

lemma runner_run_eq:
  "runner_run json_text compact send ctx inp prev =
    (let c = compact_if_needed_rolling json_text compact (in_messages inp) prev;
         stream = send (inp\<lparr>in_messages := cr_messages c\<rparr>);
         t = map_session_event (unwrap_or (missing_terminal (in_turn_id inp)) (last_terminal stream)) ctx
     in Some \<lparr>rr_events = user_turn ctx (in_messages inp) @ map (\<lambda>se. map_session_event se ctx) stream,
              rr_terminal = t, rr_status = run_status_of t,
              rr_messages = rn_messages (final_state (cr_messages c) stream),
              rr_compact_summary = cr_summary c\<rparr>)"
proof -
  have m: "map (\<lambda>se. Turn_Event (map_session_event se ctx)) xs =
      map Turn_Event (map (\<lambda>se. map_session_event se ctx) xs)" for xs by simp
  show ?thesis
    unfolding runner_run_def run_stream_def Let_def collect_events m final_state_def foldl_terminal
    by (simp split: option.split)
qed

lemma runner_run_facts:
  assumes "runner_run json_text compact send ctx inp prev = Some r"
  shows "ev_terminal (rr_terminal r)"
    and "rr_events r = user_turn ctx (in_messages inp) @ map (\<lambda>se. map_session_event se ctx)
      (send (inp\<lparr>in_messages := cr_messages (compact_if_needed_rolling json_text compact (in_messages inp) prev)\<rparr>))"
    and "rr_messages r = rn_messages (final_state
      (cr_messages (compact_if_needed_rolling json_text compact (in_messages inp) prev))
      (send (inp\<lparr>in_messages := cr_messages (compact_if_needed_rolling json_text compact (in_messages inp) prev)\<rparr>)))"
proof -
  let ?c = "compact_if_needed_rolling json_text compact (in_messages inp) prev"
  let ?t = "unwrap_or (missing_terminal (in_turn_id inp)) (last_terminal (send (inp\<lparr>in_messages := cr_messages ?c\<rparr>)))"
  have "is_terminal_se ?t"
    by (cases "last_terminal (send (inp\<lparr>in_messages := cr_messages ?c\<rparr>))")
      (auto simp: missing_terminal_def dest: last_terminal_is)
  moreover have "rr_terminal r = map_session_event ?t ctx"
    using assms by (auto simp: runner_run_eq Let_def)
  ultimately show "ev_terminal (rr_terminal r)" by simp
qed (use assms in \<open>auto simp: runner_run_eq Let_def\<close>)

text \<open>
  C12. Every turn ends: whatever the backend streams, the turn yields its
  result with a terminal event; it is the last terminal event of the stream, or, when the
  stream has none, a synthesized failure that names the missing terminal event, and the
  status is that of the terminal.
\<close>

theorem turn_ends_with_terminal:
  "\<exists>r. runner_run json_text compact send ctx inp prev = Some r \<and>
     ev_terminal (rr_terminal r) \<and> rr_status r = run_status_of (rr_terminal r) \<and>
     (let stream = send (inp\<lparr>in_messages := cr_messages (compact_if_needed_rolling json_text compact (in_messages inp) prev)\<rparr>)
      in rr_events r = user_turn ctx (in_messages inp) @ map (\<lambda>se. map_session_event se ctx) stream \<and>
         (if \<exists>se \<in> set stream. is_terminal_se se then rr_terminal r \<in> set (rr_events r)
          else rr_status r = Run_Failed \<and>
               (\<exists>msg. ev_content (rr_terminal r) =
                  Some (Content_Error msg (Some ''missing_terminal_event'') (Some ''missing_terminal_event'') None))))"
proof -
  let ?stream = "send (inp\<lparr>in_messages := cr_messages (compact_if_needed_rolling json_text compact (in_messages inp) prev)\<rparr>)"
  show ?thesis
  proof (cases "last_terminal ?stream")
    case None
    then have "\<not> (\<exists>se \<in> set ?stream. is_terminal_se se)"
      by (auto simp: last_terminal_def filter_empty_conv split: list.splits)
    with None show ?thesis
      by (simp add: runner_run_eq Let_def missing_terminal_def run_status_of_def map_event_simps ev_terminal_def)
  next
    case (Some t)
    with last_terminal_is[OF Some] show ?thesis by (auto simp: runner_run_eq Let_def)
  qed
qed

subsection \<open>The live conversation and the ledger agree\<close>

text \<open>
  \<open>tidy\<close> is the shape of a backend's stream in the agent loop: non-empty text deltas,
  thinking anywhere, each tool call followed by its dispatch facts and then its result, and one
  terminal event at the end.  The argument is the call that waits for its result.
\<close>

fun tidy :: "string option \<Rightarrow> session_event list \<Rightarrow> bool" where
  "tidy w [] = False"
| "tidy w (SE_ThinkingDelta i t z m b # r) = tidy w r"
| "tidy w (SE_ThinkingComplete i t z m b sig # r) = tidy w r"
| "tidy w (SE_TextDelta i t z m off b # r) = (w = None \<and> b \<noteq> [] \<and> tidy None r)"
| "tidy w (SE_TextComplete i t z m b opts # r) = False"
| "tidy w (SE_ToolCall i t z c n a # r) = (w = None \<and> tidy (Some c) r)"
| "tidy w (SE_ToolDispatch i t z q c n h m # r) = (w \<noteq> None \<and> tidy w r)"
| "tidy w (SE_ToolResult i t z c n b x # r) = (w = Some c \<and> tidy None r)"
| "tidy w (SE_Complete i t z x # r) = (w = None \<and> r = [])"
| "tidy w (SE_Error i t z x msg code reason dets # r) = (w = None \<and> r = [])"
| "tidy w (SE_Abort i t z x # r) = (w = None \<and> r = [])"

lemma tidy_result: "tidy (Some c) r \<Longrightarrow> \<exists>se \<in> set r. \<exists>n. se_result se = Some (c, n)"
  by (induction "Some c" r rule: tidy.induct) auto

definition agree :: "string option \<Rightarrow> chat_message list \<Rightarrow> runner_state \<Rightarrow> projection_state \<Rightarrow> bool" where
  "agree w ms s st = (case st of (out, buf, calls) \<Rightarrow>
     (case w of
        None \<Rightarrow> rn_messages s = ms @ out \<and> calls = [] \<and>
                buf = (if rn_pending s = [] then None else Some (rn_pending s))
      | Some c \<Rightarrow> rn_messages s = ms @ out @ [Assistant_Msg buf calls []] \<and> calls \<noteq> [] \<and> rn_pending s = []))"

lemma runner_projection_sim:
  "tidy w stream \<Longrightarrow> \<forall>se \<in> set stream. \<forall>c n. se_result se = Some (c, n) \<longrightarrow> c \<in> R \<Longrightarrow>
   agree w ms s st \<Longrightarrow>
   rn_messages (foldl runner_step s stream) =
     ms @ state_messages (foldl (project_step jt R) st (map (\<lambda>se. map_session_event se ctx) stream))"
proof (induction w stream arbitrary: s st rule: tidy.induct)
  case (6 w i t z c n a r)
  from "6.prems"(1) have "w = None" "tidy (Some c) r" by simp_all
  with tidy_result[OF this(2)] "6.prems"(2) have "c \<in> R" by auto
  with 6 show ?case
    by (cases st) (auto simp: agree_def project_step_def map_event_simps)
next
  case (8 w i t z c n b x r)
  then show ?case
    by (cases st) (auto simp: agree_def project_step_def map_event_simps value_to_string_def)
qed (auto simp: agree_def project_step_def map_event_simps end_turn_def default_actions_def split: if_splits)

text \<open>A ledger is settled when every tool call in it has a response.\<close>

definition settled :: "runtime_event list \<Rightarrow> bool" where
  "settled es \<longleftrightarrow> (\<forall>e \<in> set es. \<forall>c. event_call e = Some c \<longrightarrow> atc_id c \<in> responded_ids es)"

lemma responded_ids_append: "responded_ids (es @ fs) = responded_ids es \<union> responded_ids fs"
  by (simp add: responded_ids_def)

lemma responded_ids_mem: "i \<in> responded_ids es \<longleftrightarrow> (\<exists>e \<in> set es. response_id e = Some i)"
  by (force simp: responded_ids_def List.map_filter_def)

lemma project_step_same:
  assumes "\<And>c. event_call e = Some c \<Longrightarrow> atc_id c \<in> R \<and> atc_id c \<in> R'"
  shows "project_step jt R st e = project_step jt R' st e"
  using assms by (cases e rule: event_kinds; cases st) (auto simp: project_step_simps event_call_def)

lemma project_fold_same:
  "\<forall>e \<in> set es. \<forall>c. event_call e = Some c \<longrightarrow> atc_id c \<in> R \<and> atc_id c \<in> R' \<Longrightarrow>
     foldl (project_step jt R) st es = foldl (project_step jt R') st es"
proof (induction es arbitrary: st)
  case (Cons e es)
  from Cons.prems project_step_same[of e R R'] have "project_step jt R st e = project_step jt R' st e"
    by auto
  with Cons show ?case by simp
qed simp

lemma mapped_call: "event_call (map_session_event se ctx) = Some c \<Longrightarrow> \<exists>n. se_call se = Some (atc_id c, n)"
  by (cases se) (auto simp: event_call_def map_event_simps)

lemma mapped_response: "response_id (map_session_event se ctx) = map_option fst (se_result se)"
  by (cases se) (auto simp: response_id_def map_event_simps)

lemma tidy_calls: "tidy w r \<Longrightarrow> se \<in> set r \<Longrightarrow> se_call se = Some (c, n) \<Longrightarrow>
    \<exists>se' \<in> set r. \<exists>m. se_result se' = Some (c, m)"
proof (induction w r rule: tidy.induct)
  case (6 w i t z c' n' a r)
  then show ?case using tidy_result[of c' r] by (auto 4 4)
qed (auto split: if_splits)

lemma turn_result_responded:
  assumes "se \<in> set stream" and "se_result se = Some (c, n)"
  shows "c \<in> responded_ids (ledger @ user_event ctx body # map (\<lambda>se. map_session_event se ctx) stream)"
proof -
  have "response_id (map_session_event se ctx) = Some c" using assms(2) by (simp add: mapped_response)
  with assms(1) show ?thesis unfolding responded_ids_mem by auto
qed

lemma tidy_turn_settled:
  assumes "settled ledger" and "tidy None stream"
  shows "settled (ledger @ user_event ctx body # map (\<lambda>se. map_session_event se ctx) stream)" (is "settled ?all")
  unfolding settled_def
proof (intro ballI allI impI)
  fix e c assume e: "e \<in> set ?all" "event_call e = Some c"
  consider "e \<in> set ledger" | "e = user_event ctx body" | se where "se \<in> set stream" "e = map_session_event se ctx"
    using e(1) by auto
  then show "atc_id c \<in> responded_ids ?all"
  proof cases
    case 1
    with assms(1) e(2) show ?thesis by (auto simp: settled_def responded_ids_append)
  next
    case 2
    with e(2) show ?thesis by (simp add: user_event_def event_call_def)
  next
    case 3
    with e(2) mapped_call obtain n where "se_call se = Some (atc_id c, n)" by blast
    with tidy_calls[OF assms(2) 3(1)] turn_result_responded show ?thesis by blast
  qed
qed

text \<open>
  The messages the runner hands on and the messages rebuilt from
  the ledger are the same list: a settled ledger followed by a turn of tidy events projects
  to the conversation the session carries in memory, and is settled again, so a resumed
  session continues exactly where the live one stopped.
\<close>

lemma live_conversation_is_projection:
  assumes "settled ledger" and "tidy None stream"
  shows "rn_messages (final_state (messages_from_runtime_events json_text ledger @ [User_Msg body]) stream) =
      messages_from_runtime_events json_text
        (ledger @ user_event ctx body # map (\<lambda>se. map_session_event se ctx) stream) \<and>
    settled (ledger @ user_event ctx body # map (\<lambda>se. map_session_event se ctx) stream)"
proof
  let ?new = "map (\<lambda>se. map_session_event se ctx) stream"
  let ?all = "ledger @ user_event ctx body # ?new"
  let ?R = "responded_ids ?all"
  show "settled ?all" by (rule tidy_turn_settled[OF assms])
  have R: "responded_ids ledger \<subseteq> ?R" by (simp add: responded_ids_append)
  let ?st = "foldl (project_step json_text (responded_ids ledger)) ([], None, []) ledger"
  have old: "foldl (project_step json_text ?R) ([], None, []) ledger = ?st"
    using assms(1) R by (intro project_fold_same) (auto simp: settled_def)
  have user: "project_step json_text ?R ?st (user_event ctx body) = (state_messages ?st @ [User_Msg body], None, [])"
    by (cases ?st) (simp add: project_step_def user_event_def)
  have ms: "messages_from_runtime_events json_text ledger = state_messages ?st"
    by (simp add: messages_from_runtime_events_def state_messages_def)
  have "agree None [] \<lparr>rn_messages = state_messages ?st @ [User_Msg body], rn_pending = [], rn_terminal = None\<rparr>
      (state_messages ?st @ [User_Msg body], None, [])"
    by (simp add: agree_def)
  from runner_projection_sim[OF assms(2) _ this, of ?R json_text ctx] turn_result_responded
  have "rn_messages (final_state (state_messages ?st @ [User_Msg body]) stream) =
      state_messages (foldl (project_step json_text ?R) (state_messages ?st @ [User_Msg body], None, []) ?new)"
    unfolding final_state_def by simp
  then show "rn_messages (final_state (messages_from_runtime_events json_text ledger @ [User_Msg body]) stream) =
      messages_from_runtime_events json_text ?all"
    unfolding ms messages_from_runtime_events_def foldl_append foldl_Cons old user
    by (simp add: state_messages_def)
qed

abbreviation sample_stream :: "session_event list" where
  "sample_stream \<equiv> [SE_TextDelta ''a1'' ''t'' 1 ''m'' None ''looking'', SE_ToolCall ''c1'' ''t'' 2 ''c1'' ''Read'' JNull,
     SE_ToolDispatch ''a3'' ''t'' 3 ''op_1'' ''c1'' ''Read'' ''h'' ReplaySafe,
     SE_ToolResult ''a4'' ''t'' 4 ''c1'' ''Read'' ''body'' False,
     SE_TextDelta ''a5'' ''t'' 5 ''m'' None ''found'', SE_Complete ''a6'' ''t'' 6 Stop_EndTurn]"

abbreviation sample_ctx :: invocation_context where
  "sample_ctx \<equiv> \<lparr>ctx_session_id = ''s'', ctx_run_id = ''r'', ctx_invocation_id = ''i'', ctx_turn_id = ''t''\<rparr>"

lemma live_conversation_is_projection_witness:
  "rn_messages (final_state [User_Msg ''go''] sample_stream) =
     messages_from_runtime_events (\<lambda>_. '''')
       (user_event sample_ctx ''go'' # map (\<lambda>se. map_session_event se sample_ctx) sample_stream) \<and>
   length (rn_messages (final_state [User_Msg ''go''] sample_stream)) = 4"
proof -
  have "settled []" "tidy None sample_stream" "messages_from_runtime_events (\<lambda>_. '''') [] = []"
    "length (rn_messages (final_state [User_Msg ''go''] sample_stream)) = 4"
    by (simp_all add: settled_def messages_from_runtime_events_def final_state_def end_turn_def)
  with live_conversation_is_projection[of "[]" sample_stream "\<lambda>_. ''''" "''go''" sample_ctx]
  show ?thesis by simp
qed

text \<open>
  Where a backend streams a text in deltas and then completes it, the
  two diverge: the runner replaces the pending text by the completed one, the projection
  appends it, so the resumed conversation contains the text twice.
\<close>

lemma text_complete_is_doubled:
  "let stream = [SE_TextDelta ''a1'' ''t'' 1 ''m'' None ''hello'', SE_TextComplete ''a2'' ''t'' 2 ''m'' ''hello'' None,
                 SE_Complete ''a3'' ''t'' 3 Stop_EndTurn]
   in rn_messages (final_state [] stream) = [Assistant_Msg (Some ''hello'') [] []] \<and>
      messages_from_runtime_events (\<lambda>_. '''') (map (\<lambda>se. map_session_event se sample_ctx) stream) =
        [Assistant_Msg (Some ''hellohello'') [] []]"
  by code_simp

end
