(* ===== verification/Sqlite_Tables.thy ===== *)
theory Sqlite_Tables
  imports Prelude Json
begin

text \<open>
  The other tables of the SQLite store (\<^verbatim>\<open>meepo-storage/src/lib.rs\<close>, with the row
  types of \<^verbatim>\<open>meepo-core/src/tool_operation.rs\<close>): tool operations, continuation
  claims, task run events, the admission chain, the session catalog and the interaction
  records.

  A table is the list of its rows in rowid order.  \<^verbatim>\<open>INSERT OR REPLACE\<close> deletes every
  row that shares a unique key with the new row and appends it, \<^verbatim>\<open>INSERT OR IGNORE\<close>
  does nothing when such a row exists; a failed \<^verbatim>\<open>CHECK\<close> rejects the statement in both
  forms.  Where SQL leaves the order of rows open (ties under \<^verbatim>\<open>ORDER BY\<close>), the order in
  which the engine visits the rows is the parameter \<open>scan\<close>.
\<close>

subsection \<open>Upserts\<close>

definition replace_into :: "('r \<Rightarrow> 'r \<Rightarrow> bool) \<Rightarrow> 'r \<Rightarrow> 'r list \<Rightarrow> 'r list" where
  "replace_into clash row rows = filter (\<lambda>q. \<not> clash row q) rows @ [row]"

definition insert_ignore :: "('r \<Rightarrow> 'r \<Rightarrow> bool) \<Rightarrow> 'r \<Rightarrow> 'r list \<Rightarrow> 'r list" where
  "insert_ignore clash row rows = (if list_ex (clash row) rows then rows else rows @ [row])"

text \<open>No two rows of the table share a unique key.\<close>

fun clash_free :: "('r \<Rightarrow> 'r \<Rightarrow> bool) \<Rightarrow> 'r list \<Rightarrow> bool" where
  "clash_free clash [] = True"
| "clash_free clash (r # rs) = ((\<forall>q \<in> set rs. \<not> clash q r \<and> \<not> clash r q) \<and> clash_free clash rs)"

lemma clash_free_snoc:
  "clash_free clash (rs @ [r]) \<longleftrightarrow> clash_free clash rs \<and> (\<forall>q \<in> set rs. \<not> clash q r \<and> \<not> clash r q)"
  by (induction rs) auto

lemma clash_free_filter: "clash_free clash rs \<Longrightarrow> clash_free clash (filter P rs)"
  by (induction rs) auto

lemma replace_into_clash_free:
  "clash_free clash rows \<Longrightarrow> (\<And>a b. clash a b \<Longrightarrow> clash b a) \<Longrightarrow> clash_free clash (replace_into clash row rows)"
  by (auto simp: replace_into_def clash_free_snoc clash_free_filter)

lemma insert_ignore_clash_free:
  "clash_free clash rows \<Longrightarrow> (\<And>a b. clash a b \<Longrightarrow> clash b a) \<Longrightarrow> clash_free clash (insert_ignore clash row rows)"
  by (auto simp: insert_ignore_def clash_free_snoc list_ex_iff)

lemma replace_into_mem: "q \<in> set (replace_into clash row rows) \<longleftrightarrow> q = row \<or> q \<in> set rows \<and> \<not> clash row q"
  by (auto simp: replace_into_def)

text \<open>\<^verbatim>\<open>SELECT ... WHERE key = ?\<close> for one row: the first match of the table.\<close>

lemma find_filter: "find P rs = (case filter P rs of [] \<Rightarrow> None | r # _ \<Rightarrow> Some r)"
  by (induction rs) auto

lemma find_replace:
  "(\<And>q. q \<in> set rows \<Longrightarrow> P q \<Longrightarrow> P row \<Longrightarrow> clash row q) \<Longrightarrow>
   find P (replace_into clash row rows) =
     (if P row then Some row else find P (filter (\<lambda>q. \<not> clash row q) rows))"
  by (induction rows) (auto simp: replace_into_def)

subsection \<open>Tool operations\<close>

record tool_operation =
  to_operation_id :: string
  to_invocation_id :: string
  to_run_id :: string
  to_turn_id :: string
  to_provider_tool_call_id :: string
  to_tool_name :: string
  to_canonical_args_hash :: string
  to_recovery_mode :: string
  to_current_state :: string
  to_call_event_id :: string
  to_result_event_id :: "string option"
  to_dispatch_event_id :: "string option"
  to_version :: int

definition operation_clash :: "tool_operation \<Rightarrow> tool_operation \<Rightarrow> bool" where
  "operation_clash a b \<longleftrightarrow> to_operation_id a = to_operation_id b \<or>
     to_invocation_id a = to_invocation_id b \<and> to_provider_tool_call_id a = to_provider_tool_call_id b"

definition record_tool_operation ::
    "tool_operation \<Rightarrow> tool_operation list \<Rightarrow> (tool_operation list, string) result" where
  "record_tool_operation x rows =
     (if 0 < to_version x then Ok (replace_into operation_clash x rows) else Err ''constraint failed'')"

definition read_tool_operation :: "string \<Rightarrow> tool_operation list \<Rightarrow> tool_operation option" where
  "read_tool_operation opid rows = find (\<lambda>r. to_operation_id r = opid) rows"

subsection \<open>Continuation claims\<close>

record continuation_claim =
  cc_claim_id :: string
  cc_source_session_id :: string
  cc_source_invocation_id :: string
  cc_source_run_id :: string
  cc_source_turn_id :: string
  cc_source_event_high_water :: int
  cc_source_prefix_digest :: string
  cc_boundary_digest :: string
  cc_boundary_json :: string
  cc_provider_projection_version :: int
  cc_provider_replay_digest :: string
  cc_target_session_id :: string
  cc_target_invocation_id :: string
  cc_target_run_id :: string
  cc_target_turn_id :: string
  cc_target_run_header_json :: string
  cc_claimed_at :: int
  cc_start_event_id :: "string option"
  cc_start_kind :: "string option"
  cc_protocol_version :: int

text \<open>The unique keys of the table; NULLs in \<^verbatim>\<open>start_event_id\<close> never clash.\<close>

definition claim_clash :: "continuation_claim \<Rightarrow> continuation_claim \<Rightarrow> bool" where
  "claim_clash a b \<longleftrightarrow> cc_claim_id a = cc_claim_id b \<or> cc_boundary_digest a = cc_boundary_digest b \<or>
     cc_target_invocation_id a = cc_target_invocation_id b \<or> cc_target_run_id a = cc_target_run_id b \<or>
     (cc_start_event_id a \<noteq> None \<and> cc_start_event_id a = cc_start_event_id b) \<or>
     (cc_source_session_id a = cc_source_session_id b \<and> cc_source_run_id a = cc_source_run_id b \<and>
      cc_source_event_high_water a = cc_source_event_high_water b \<and>
      cc_source_prefix_digest a = cc_source_prefix_digest b) \<or>
     (cc_target_session_id a = cc_target_session_id b \<and> cc_target_turn_id a = cc_target_turn_id b)"

text \<open>
  The row's \<^verbatim>\<open>CHECK\<close>s, and the foreign key of \<^verbatim>\<open>start_event_id\<close> into the event
  table where the connection enforces foreign keys (\<open>fk\<close>).
\<close>

definition claim_ok :: "bool \<Rightarrow> string set \<Rightarrow> continuation_claim \<Rightarrow> bool" where
  "claim_ok fk event_ids c \<longleftrightarrow> 0 < cc_source_event_high_water c \<and> cc_provider_projection_version c = 1 \<and>
     (case cc_start_kind c of None \<Rightarrow> True | Some k \<Rightarrow> k = ''runtime_admission'' \<or> k = ''claim_repair'') \<and>
     cc_protocol_version c = 1 \<and>
     (fk \<longrightarrow> (case cc_start_event_id c of None \<Rightarrow> True | Some e \<Rightarrow> e \<in> event_ids))"

definition record_continuation_claim ::
    "bool \<Rightarrow> string set \<Rightarrow> continuation_claim \<Rightarrow> continuation_claim list \<Rightarrow> (continuation_claim list, string) result" where
  "record_continuation_claim fk event_ids c rows =
     (if claim_ok fk event_ids c then Ok (replace_into claim_clash c rows) else Err ''constraint failed'')"

definition read_continuation_claim :: "string \<Rightarrow> continuation_claim list \<Rightarrow> continuation_claim option" where
  "read_continuation_claim cid rows = find (\<lambda>r. cc_claim_id r = cid) rows"

subsection \<open>Task run events\<close>

record task_run_row =
  tk_task_run_id :: string
  tk_sequence :: int
  tk_event_id :: string
  tk_record_json :: string

definition task_clash :: "task_run_row \<Rightarrow> task_run_row \<Rightarrow> bool" where
  "task_clash a b \<longleftrightarrow> tk_task_run_id a = tk_task_run_id b \<and> tk_sequence a = tk_sequence b"

definition append_task_run_event :: "task_run_row \<Rightarrow> task_run_row list \<Rightarrow> (task_run_row list, string) result" where
  "append_task_run_event r rows =
     (if 0 \<le> tk_sequence r then Ok (replace_into task_clash r rows) else Err ''constraint failed'')"

definition read_task_run_events :: "string \<Rightarrow> task_run_row list \<Rightarrow> task_run_row list" where
  "read_task_run_events task rows = sort_key tk_sequence (filter (\<lambda>r. tk_task_run_id r = task) rows)"

text \<open>The task store of the headless runner over these rows; the codec of an event is a parameter.\<close>

definition sql_append_task_event ::
    "('e \<Rightarrow> (string, string) result) \<Rightarrow> string \<Rightarrow> int \<Rightarrow> 'e \<Rightarrow> task_run_row list \<Rightarrow> (task_run_row list, string) result" where
  "sql_append_task_event enc task sequence e rows =
     (case enc e of
        Err x \<Rightarrow> Err x
      | Ok j \<Rightarrow> append_task_run_event \<lparr>tk_task_run_id = task, tk_sequence = sequence,
                 tk_event_id = task @ ''-'' @ show_int sequence, tk_record_json = j\<rparr> rows)"

fun decode_tasks :: "(string \<Rightarrow> ('e, string) result) \<Rightarrow> task_run_row list \<Rightarrow> ('e list, string) result" where
  "decode_tasks dec [] = Ok []"
| "decode_tasks dec (r # rs) =
     (case dec (tk_record_json r) of
        Err x \<Rightarrow> Err x
      | Ok e \<Rightarrow> (case decode_tasks dec rs of Err x \<Rightarrow> Err x | Ok es \<Rightarrow> Ok (e # es)))"

definition sql_read_task_events ::
    "(string \<Rightarrow> ('e, string) result) \<Rightarrow> string \<Rightarrow> task_run_row list \<Rightarrow> ('e list, string) result" where
  "sql_read_task_events dec task rows = decode_tasks dec (read_task_run_events task rows)"

subsection \<open>The admission chain\<close>

record root_admission =
  ra_session_id :: string
  ra_turn_id :: string
  ra_run_id :: string
  ra_previous_root_turn_id :: "string option"
  ra_identity_json :: string
  ra_admitted_at :: int
  ra_poisoned :: bool

definition admission_clash :: "root_admission \<Rightarrow> root_admission \<Rightarrow> bool" where
  "admission_clash a b \<longleftrightarrow> ra_session_id a = ra_session_id b \<and> ra_turn_id a = ra_turn_id b"

definition extend_admission_chain :: "root_admission \<Rightarrow> root_admission list \<Rightarrow> root_admission list" where
  "extend_admission_chain r rows = replace_into admission_clash r rows"

definition session_admissions ::
    "(root_admission list \<Rightarrow> root_admission list) \<Rightarrow> string \<Rightarrow> root_admission list \<Rightarrow> root_admission list" where
  "session_admissions scan sid rows = filter (\<lambda>r. ra_session_id r = sid) (scan rows)"

text \<open>\<^verbatim>\<open>ORDER BY admitted_at DESC LIMIT 1\<close>\<close>

definition read_admission_tip ::
    "(root_admission list \<Rightarrow> root_admission list) \<Rightarrow> string \<Rightarrow> root_admission list \<Rightarrow> root_admission option" where
  "read_admission_tip scan sid rows =
     (case sort_key (\<lambda>r. - ra_admitted_at r) (session_admissions scan sid rows) of
        [] \<Rightarrow> None | r # _ \<Rightarrow> Some r)"

definition mark_admission_poisoned :: "string \<Rightarrow> root_admission list \<Rightarrow> root_admission list" where
  "mark_admission_poisoned sid rows =
     map (\<lambda>r. if ra_session_id r = sid then r\<lparr>ra_poisoned := True\<rparr> else r) rows"

definition recover_admission_chain ::
    "(root_admission list \<Rightarrow> root_admission list) \<Rightarrow> string \<Rightarrow> root_admission list \<Rightarrow> root_admission list" where
  "recover_admission_chain scan sid rows = sort_key ra_admitted_at (session_admissions scan sid rows)"

subsection \<open>The session catalog\<close>

record session_record =
  sc_session_id :: string
  sc_name :: string
  sc_labels :: "string list"
  sc_revision :: int
  sc_is_archived :: bool
  sc_cwd :: string
  sc_config_json :: string
  sc_read_marker :: "string option"
  sc_created_at :: int
  sc_updated_at :: int

record session_patch =
  sp_name :: "string option"
  sp_labels :: "string list option"
  sp_is_archived :: "bool option"
  sp_cwd :: "string option"
  sp_config_json :: "string option"
  sp_read_marker :: "string option"

datatype session_update = Session_Committed session_record | Session_RevisionConflict int int

definition create_session :: "session_record \<Rightarrow> session_record list \<Rightarrow> (session_record list, string) result" where
  "create_session r rows =
     (if list_ex (\<lambda>q. sc_session_id q = sc_session_id r) rows then Ok rows
      else if 0 < sc_revision r then Ok (rows @ [r]) else Ok rows)"

definition get_session :: "string \<Rightarrow> session_record list \<Rightarrow> session_record option" where
  "get_session sid rows = find (\<lambda>r. sc_session_id r = sid) rows"

definition list_sessions ::
    "(session_record list \<Rightarrow> session_record list) \<Rightarrow> session_record list \<Rightarrow> session_record list" where
  "list_sessions scan rows = sort_key sc_created_at (scan rows)"

definition apply_patch :: "session_patch \<Rightarrow> int \<Rightarrow> session_record \<Rightarrow> session_record" where
  "apply_patch p now current =
     current\<lparr>sc_name := unwrap_or (sc_name current) (sp_name p),
             sc_labels := unwrap_or (sc_labels current) (sp_labels p),
             sc_is_archived := unwrap_or (sc_is_archived current) (sp_is_archived p),
             sc_cwd := unwrap_or (sc_cwd current) (sp_cwd p),
             sc_config_json := unwrap_or (sc_config_json current) (sp_config_json p),
             sc_read_marker := (case sp_read_marker p of Some m \<Rightarrow> Some m | None \<Rightarrow> sc_read_marker current),
             sc_revision := sc_revision current + 1,
             sc_updated_at := now\<rparr>"

definition update_session ::
    "string \<Rightarrow> int \<Rightarrow> session_patch \<Rightarrow> int \<Rightarrow> session_record list \<Rightarrow> session_record list \<times> session_update" where
  "update_session sid expected_revision patch now rows =
     (case get_session sid rows of
        None \<Rightarrow> (rows, Session_RevisionConflict expected_revision 0)
      | Some current \<Rightarrow>
          (let next = apply_patch patch now current in
           if list_ex (\<lambda>r. sc_session_id r = sid \<and> sc_revision r = expected_revision) rows
           then (map (\<lambda>r. if sc_session_id r = sid \<and> sc_revision r = expected_revision
                          then next\<lparr>sc_created_at := sc_created_at r\<rparr> else r) rows,
                 Session_Committed next)
           else (rows, Session_RevisionConflict expected_revision (sc_revision current))))"

definition remove_session :: "string \<Rightarrow> session_record list \<Rightarrow> session_record list \<times> bool" where
  "remove_session sid rows =
     (filter (\<lambda>r. sc_session_id r \<noteq> sid) rows, list_ex (\<lambda>r. sc_session_id r = sid) rows)"

subsection \<open>Interaction records\<close>

record interaction_request_row =
  iq_request_id :: string
  iq_session_id :: string
  iq_turn_id :: string
  iq_run_id :: string
  iq_request_kind :: string
  iq_created_at :: int
  iq_record_json :: string

record interaction_tables =
  it_requests :: "interaction_request_row list"
  it_outcomes :: "(string \<times> string) list"

definition record_permission ::
    "string \<Rightarrow> string \<Rightarrow> string \<Rightarrow> string \<Rightarrow> int \<Rightarrow> string \<Rightarrow> string \<Rightarrow> interaction_tables \<Rightarrow> interaction_tables" where
  "record_permission sid run_id turn_id request_id created_at request_json outcome_json t =
     t\<lparr>it_requests := insert_ignore (\<lambda>a b. iq_request_id a = iq_request_id b)
         \<lparr>iq_request_id = request_id, iq_session_id = sid, iq_turn_id = turn_id, iq_run_id = run_id,
          iq_request_kind = ''permission'', iq_created_at = created_at, iq_record_json = request_json\<rparr>
         (it_requests t),
       it_outcomes := insert_ignore (\<lambda>a b. fst a = fst b) (request_id, outcome_json) (it_outcomes t)\<rparr>"

subsection \<open>Tool operations and claims\<close>

text \<open>
  A recorded operation reads back, the rows of other operations that are
  not about the same call of the same invocation are untouched, and the two unique keys of the
  table keep holding.
\<close>

lemma tool_operation_upsert:
  assumes "clash_free operation_clash rows" and "record_tool_operation x rows = Ok rows'"
  shows "read_tool_operation (to_operation_id x) rows' = Some x \<and> clash_free operation_clash rows' \<and>
    (\<forall>y \<in> set rows. \<not> operation_clash x y \<longrightarrow> y \<in> set rows' \<and> read_tool_operation (to_operation_id y) rows' =
       read_tool_operation (to_operation_id y) rows)"
proof -
  from assms(2) have r: "rows' = replace_into operation_clash x rows"
    by (simp add: record_tool_operation_def split: if_splits)
  have sym: "operation_clash a b \<Longrightarrow> operation_clash b a" for a b by (auto simp: operation_clash_def)
  have uniq: "clash_free operation_clash rs \<Longrightarrow> y \<in> set rs \<Longrightarrow> find (\<lambda>q. to_operation_id q = to_operation_id y) rs = Some y"
    for rs y by (induction rs) (auto simp: operation_clash_def)
  have cf: "clash_free operation_clash rows'" unfolding r by (rule replace_into_clash_free[OF assms(1) sym])
  have "x \<in> set rows'" by (simp add: r replace_into_mem)
  moreover have "y \<in> set rows'" if "y \<in> set rows" "\<not> operation_clash x y" for y
    using that by (simp add: r replace_into_mem)
  ultimately show ?thesis
    using uniq[OF cf] uniq[OF assms(1)] cf by (simp add: read_tool_operation_def)
qed

text \<open>
  The claim table never holds two claims of one source boundary or one target;
  it gets there by deleting: recording a claim for a boundary that is already claimed succeeds
  and removes the earlier claim.
\<close>

lemma claims_exclusive:
  assumes "clash_free claim_clash rows" and "record_continuation_claim fk events c rows = Ok rows'"
  shows "clash_free claim_clash rows' \<and> read_continuation_claim (cc_claim_id c) rows' = Some c \<and>
    (\<forall>d \<in> set rows. cc_boundary_digest d = cc_boundary_digest c \<and> d \<noteq> c \<longrightarrow> d \<notin> set rows')"
proof -
  from assms(2) have r: "rows' = replace_into claim_clash c rows"
    by (simp add: record_continuation_claim_def split: if_splits)
  have sym: "claim_clash a b \<Longrightarrow> claim_clash b a" for a b by (auto simp: claim_clash_def)
  have uniq: "clash_free claim_clash rs \<Longrightarrow> y \<in> set rs \<Longrightarrow> find (\<lambda>q. cc_claim_id q = cc_claim_id y) rs = Some y"
    for rs y by (induction rs) (auto simp: claim_clash_def)
  have cf: "clash_free claim_clash rows'" unfolding r by (rule replace_into_clash_free[OF assms(1) sym])
  have "c \<in> set rows'" by (simp add: r replace_into_mem)
  with uniq[OF cf] cf show ?thesis by (auto simp: read_continuation_claim_def r replace_into_mem claim_clash_def)
qed

subsection \<open>The admission chain\<close>

lemma sort_key_desc_head:
  "sort_key (\<lambda>r. - f r) xs = r # rs \<Longrightarrow> r \<in> set xs \<and> (\<forall>q \<in> set xs. f q \<le> (f r :: int))"
proof -
  assume s: "sort_key (\<lambda>r. - f r) xs = r # rs"
  have "set (r # rs) = set xs" using s by (metis set_sort)
  moreover have "sorted (map (\<lambda>r. - f r) (r # rs))" using sorted_sort_key[of "\<lambda>r. - f r" xs] s by simp
  ultimately show ?thesis by force
qed

lemma sort_key_Nil_iff: "sort_key f xs = [] \<longleftrightarrow> xs = []"
  by (metis length_0_conv length_sort)

text \<open>
  The tip the host re-establishes is an admission of the session with the
  largest admission time: right after a turn with a later time than all others is admitted it
  is that turn, and after the chain is poisoned the tip is poisoned.
\<close>

lemma admission_tip_is_newest:
  assumes "\<And>rows. set (scan rows) = set rows"
  shows "(\<forall>t. read_admission_tip scan sid rows = Some t \<longrightarrow> t \<in> set rows \<and> ra_session_id t = sid \<and>
       (\<forall>q \<in> set rows. ra_session_id q = sid \<longrightarrow> ra_admitted_at q \<le> ra_admitted_at t)) \<and>
    (\<forall>r. ra_session_id r = sid \<and> (\<forall>q \<in> set rows. ra_session_id q = sid \<longrightarrow> ra_admitted_at q < ra_admitted_at r) \<longrightarrow>
       read_admission_tip scan sid (extend_admission_chain r rows) = Some r) \<and>
    (\<forall>t. read_admission_tip scan sid (mark_admission_poisoned sid rows) = Some t \<longrightarrow> ra_poisoned t)"
proof (intro conjI allI impI)
  have mem: "q \<in> set (session_admissions scan sid rows) \<longleftrightarrow> q \<in> set rows \<and> ra_session_id q = sid" for q rows
    using assms by (auto simp: session_admissions_def)
  have tip: "t \<in> set rows \<and> ra_session_id t = sid \<and>
      (\<forall>q \<in> set rows. ra_session_id q = sid \<longrightarrow> ra_admitted_at q \<le> ra_admitted_at t)"
    if "read_admission_tip scan sid rows = Some t" for rows t
    using that sort_key_desc_head[of ra_admitted_at "session_admissions scan sid rows" t]
    by (auto simp: read_admission_tip_def mem split: list.splits)
  show "t \<in> set rows" "ra_session_id t = sid"
    "\<forall>q \<in> set rows. ra_session_id q = sid \<longrightarrow> ra_admitted_at q \<le> ra_admitted_at t"
    if "read_admission_tip scan sid rows = Some t" for t using tip[OF that] by blast+
  show "read_admission_tip scan sid (extend_admission_chain r rows) = Some r"
    if "ra_session_id r = sid \<and> (\<forall>q \<in> set rows. ra_session_id q = sid \<longrightarrow> ra_admitted_at q < ra_admitted_at r)" for r
  proof -
    let ?rows = "extend_admission_chain r rows"
    have r: "r \<in> set ?rows" by (simp add: extend_admission_chain_def replace_into_mem)
    with that mem[of r ?rows] have "session_admissions scan sid ?rows \<noteq> []" by auto
    then have "sort_key (\<lambda>r. - ra_admitted_at r) (session_admissions scan sid ?rows) \<noteq> []"
      by (simp add: sort_key_Nil_iff)
    then obtain t where t: "read_admission_tip scan sid ?rows = Some t"
      by (cases "sort_key (\<lambda>r. - ra_admitted_at r) (session_admissions scan sid ?rows)")
        (simp_all add: read_admission_tip_def)
    from tip[OF t] r that have "ra_admitted_at r \<le> ra_admitted_at t" "t \<in> set ?rows" "ra_session_id t = sid"
      by blast+
    moreover have "ra_admitted_at t < ra_admitted_at r" if "t \<noteq> r"
      using that calculation \<open>ra_session_id r = sid \<and> _\<close>
      by (simp add: extend_admission_chain_def replace_into_mem)
    ultimately have "t = r" by fastforce
    with t show ?thesis by simp
  qed
  show "ra_poisoned t" if "read_admission_tip scan sid (mark_admission_poisoned sid rows) = Some t" for t
  proof -
    from tip[OF that] have t: "t \<in> set (mark_admission_poisoned sid rows)" "ra_session_id t = sid" by blast+
    from t(1) obtain q where "q \<in> set rows" "t = (if ra_session_id q = sid then q\<lparr>ra_poisoned := True\<rparr> else q)"
      unfolding mark_admission_poisoned_def set_map by (rule imageE)
    with t(2) show ?thesis by (cases "ra_session_id q = sid") simp_all
  qed
qed

text \<open>
  An admission is documented as immutable once written, yet extending
  the chain with the same turn replaces the row: the earlier identity and its poison mark are
  gone.
\<close>

lemma admission_is_not_immutable:
  assumes "r \<in> set rows" and "r' = r\<lparr>ra_identity_json := other, ra_poisoned := False\<rparr>" and "r \<noteq> r'"
  shows "r \<notin> set (extend_admission_chain r' rows) \<and> r' \<in> set (extend_admission_chain r' rows)"
  using assms by (simp add: extend_admission_chain_def replace_into_mem admission_clash_def)

subsection \<open>The session catalog\<close>

definition same_session :: "session_record \<Rightarrow> session_record \<Rightarrow> bool" where
  "same_session a b \<longleftrightarrow> sc_session_id a = sc_session_id b"

lemma get_session_unique:
  "clash_free same_session rows \<Longrightarrow> r \<in> set rows \<Longrightarrow> sc_session_id r = sid \<Longrightarrow> get_session sid rows = Some r"
  by (induction rows) (auto simp: get_session_def same_session_def)

lemma get_session_mem: "get_session sid rows = Some r \<Longrightarrow> r \<in> set rows \<and> sc_session_id r = sid"
  by (auto simp: get_session_def find_Some_iff)

lemma apply_patch_simps [simp]:
  "sc_session_id (apply_patch p now r) = sc_session_id r"
  "sc_revision (apply_patch p now r) = sc_revision r + 1"
  "sc_created_at (apply_patch p now r) = sc_created_at r"
  by (simp_all add: apply_patch_def)

lemma update_session_commit:
  assumes "clash_free same_session rows" and "get_session sid rows = Some cur"
  shows "update_session sid (sc_revision cur) patch now rows =
    (map (\<lambda>r. if r = cur then apply_patch patch now cur else r) rows, Session_Committed (apply_patch patch now cur))"
proof -
  from get_session_mem[OF assms(2)] have cur: "cur \<in> set rows" "sc_session_id cur = sid" by blast+
  have uniq: "r = cur" if "r \<in> set rows" "sc_session_id r = sid" for r
    using get_session_unique[OF assms(1) that] assms(2) by simp
  have m: "map (\<lambda>r. if sc_session_id r = sid \<and> sc_revision r = sc_revision cur
       then (apply_patch patch now cur)\<lparr>sc_created_at := sc_created_at r\<rparr> else r) rows =
     map (\<lambda>r. if r = cur then apply_patch patch now cur else r) rows"
  proof (intro map_cong refl)
    fix r assume r: "r \<in> set rows"
    have created: "(apply_patch patch now cur)\<lparr>sc_created_at := sc_created_at cur\<rparr> = apply_patch patch now cur"
      by (simp add: apply_patch_def)
    show "(if sc_session_id r = sid \<and> sc_revision r = sc_revision cur
        then (apply_patch patch now cur)\<lparr>sc_created_at := sc_created_at r\<rparr> else r) =
      (if r = cur then apply_patch patch now cur else r)"
    proof (cases "r = cur")
      case True
      with cur created show ?thesis by simp
    next
      case False
      with uniq[OF r] show ?thesis by auto
    qed
  qed
  from cur have "list_ex (\<lambda>r. sc_session_id r = sid \<and> sc_revision r = sc_revision cur) rows"
    by (auto simp: list_ex_iff)
  then show ?thesis unfolding update_session_def assms(2) by (simp add: Let_def m)
qed

lemma update_session_stale:
  assumes "clash_free same_session rows" and "get_session sid rows = Some cur" and "sc_revision cur \<noteq> expected"
  shows "update_session sid expected patch now rows = (rows, Session_RevisionConflict expected (sc_revision cur))"
proof -
  have "\<not> list_ex (\<lambda>r. sc_session_id r = sid \<and> sc_revision r = expected) rows"
    using get_session_unique[OF assms(1)] assms(2,3) by (fastforce simp: list_ex_iff)
  with assms(2) show ?thesis by (simp add: update_session_def Let_def)
qed

text \<open>
  Catalog updates are compare-and-swap: an update commits exactly when the
  caller's revision is current, then the row is the patched one with the next revision and
  every other row is as before; otherwise nothing changes.  A second writer that read the same
  revision is told the new one, so no update is lost.
\<close>

lemma session_update_cas:
  assumes "clash_free same_session rows" and "get_session sid rows = Some cur"
  shows "(case update_session sid expected patch now rows of
     (rows', Session_Committed next) \<Rightarrow>
        sc_revision cur = expected \<and> next = apply_patch patch now cur \<and> sc_revision next = expected + 1 \<and>
        get_session sid rows' = Some next \<and>
        (\<forall>sid'. sid' \<noteq> sid \<longrightarrow> get_session sid' rows' = get_session sid' rows) \<and>
        update_session sid expected patch2 now2 rows' = (rows', Session_RevisionConflict expected (expected + 1))
   | (rows', Session_RevisionConflict e c) \<Rightarrow>
        sc_revision cur \<noteq> expected \<and> rows' = rows \<and> e = expected \<and> c = sc_revision cur)"
proof (cases "sc_revision cur = expected")
  case False
  with update_session_stale[OF assms False] show ?thesis by simp
next
  case True
  from get_session_mem[OF assms(2)] have cur: "cur \<in> set rows" "sc_session_id cur = sid" by blast+
  let ?new = "apply_patch patch now cur"
  let ?rows = "map (\<lambda>r. if r = cur then ?new else r) rows"
  have ids: "clash_free same_session rs \<Longrightarrow> clash_free same_session (map (\<lambda>r. if r = cur then ?new else r) rs)" for rs
    by (induction rs) (auto simp: same_session_def)
  have new: "get_session sid ?rows = Some ?new"
    by (rule get_session_unique[OF ids[OF assms(1)]]) (use cur in \<open>auto simp: image_iff\<close>)
  have other: "get_session sid' (map (\<lambda>r. if r = cur then ?new else r) rs) = get_session sid' rs" if "sid' \<noteq> sid" for sid' rs
    using that cur(2) by (induction rs) (auto simp: get_session_def)
  have "sc_revision ?new \<noteq> expected" using True by simp
  from update_session_stale[OF ids[OF assms(1)] new this] update_session_commit[OF assms] True new other
  show ?thesis by simp
qed

subsection \<open>Task events and interaction records\<close>

text \<open>
  The first record of a permission request is authoritative: recording the
  same request id again changes neither the request nor its outcome.
\<close>

lemma first_publication_wins:
  "record_permission s2 r2 t2 request_id c2 q2 o2 (record_permission s1 r1 t1 request_id c1 q1 o1 tabs) =
   record_permission s1 r1 t1 request_id c1 q1 o1 tabs"
  by (simp add: record_permission_def insert_ignore_def)

lemma read_task_append:
  assumes "\<forall>r \<in> set rows. tk_task_run_id r = tk_task_run_id row \<longrightarrow> tk_sequence r < tk_sequence row"
  shows "read_task_run_events (tk_task_run_id row) (replace_into task_clash row rows) =
    read_task_run_events (tk_task_run_id row) rows @ [row]"
proof -
  have "filter (\<lambda>q. \<not> task_clash row q) rows = rows"
    using assms by (fastforce simp: filter_id_conv task_clash_def)
  moreover have "insort_key tk_sequence y (zs @ [row]) = insort_key tk_sequence y zs @ [row]"
    if "tk_sequence y \<le> tk_sequence row" for y zs using that by (induction zs) auto
  then have "sort_key tk_sequence (xs @ [row]) = sort_key tk_sequence xs @ [row]"
    if "\<forall>y \<in> set xs. tk_sequence y \<le> tk_sequence row" for xs
    using that by (induction xs) (simp_all add: sort_key_def)
  moreover have "\<forall>y \<in> set (filter (\<lambda>r. tk_task_run_id r = tk_task_run_id row) rows). tk_sequence y \<le> tk_sequence row"
    using assms by fastforce
  ultimately show ?thesis by (simp add: read_task_run_events_def replace_into_def)
qed

subsection \<open>Witnesses\<close>

definition sample_operation :: "string \<Rightarrow> string \<Rightarrow> int \<Rightarrow> tool_operation" where
  "sample_operation opid state v = \<lparr>to_operation_id = opid, to_invocation_id = ''i'', to_run_id = ''r'',
     to_turn_id = ''t'', to_provider_tool_call_id = ''c'' @ opid, to_tool_name = ''Bash'',
     to_canonical_args_hash = ''h'', to_recovery_mode = ''replay_safe'', to_current_state = state,
     to_call_event_id = ''e'', to_result_event_id = None, to_dispatch_event_id = None, to_version = v\<rparr>"

lemma tool_operation_upsert_witness:
  "\<exists>rows'. record_tool_operation (sample_operation ''op1'' ''completed'' 2)
       [sample_operation ''op1'' ''dispatched'' 1, sample_operation ''op2'' ''dispatched'' 1] = Ok rows' \<and>
     read_tool_operation ''op1'' rows' = Some (sample_operation ''op1'' ''completed'' 2)"
proof -
  have cf: "clash_free operation_clash [sample_operation ''op1'' ''dispatched'' 1, sample_operation ''op2'' ''dispatched'' 1]"
    by (simp add: operation_clash_def sample_operation_def)
  obtain rows' where r: "record_tool_operation (sample_operation ''op1'' ''completed'' 2)
       [sample_operation ''op1'' ''dispatched'' 1, sample_operation ''op2'' ''dispatched'' 1] = Ok rows'"
    by (simp add: record_tool_operation_def sample_operation_def)
  from tool_operation_upsert[OF cf r] r show ?thesis by (simp add: sample_operation_def)
qed

definition sample_claim :: "string \<Rightarrow> continuation_claim" where
  "sample_claim cid = \<lparr>cc_claim_id = cid, cc_source_session_id = ''s'', cc_source_invocation_id = ''i'',
     cc_source_run_id = ''r'', cc_source_turn_id = ''t'', cc_source_event_high_water = 4,
     cc_source_prefix_digest = ''p'', cc_boundary_digest = ''b'', cc_boundary_json = ''{}'',
     cc_provider_projection_version = 1, cc_provider_replay_digest = ''d'', cc_target_session_id = ''s'',
     cc_target_invocation_id = ''ti'' @ cid, cc_target_run_id = ''tr'' @ cid, cc_target_turn_id = ''tt'' @ cid,
     cc_target_run_header_json = ''{}'', cc_claimed_at = 1, cc_start_event_id = None, cc_start_kind = None,
     cc_protocol_version = 1\<rparr>"

lemma claims_exclusive_witness:
  "\<exists>rows'. record_continuation_claim True {} (sample_claim ''c2'') [sample_claim ''c1''] = Ok rows' \<and>
     sample_claim ''c1'' \<notin> set rows' \<and> read_continuation_claim ''c2'' rows' = Some (sample_claim ''c2'')"
proof -
  have cf: "clash_free claim_clash [sample_claim ''c1'']" by simp
  obtain rows' where r: "record_continuation_claim True {} (sample_claim ''c2'') [sample_claim ''c1''] = Ok rows'"
    by (simp add: record_continuation_claim_def claim_ok_def sample_claim_def)
  from claims_exclusive[OF cf r] r show ?thesis by (simp add: sample_claim_def)
qed

definition sample_admission :: "string \<Rightarrow> int \<Rightarrow> root_admission" where
  "sample_admission t z = \<lparr>ra_session_id = ''s'', ra_turn_id = t, ra_run_id = ''r'',
     ra_previous_root_turn_id = None, ra_identity_json = ''{}'', ra_admitted_at = z, ra_poisoned = True\<rparr>"

lemma admission_tip_is_newest_witness:
  "read_admission_tip rev ''s'' (extend_admission_chain (sample_admission ''t2'' 9) [sample_admission ''t1'' 5]) =
     Some (sample_admission ''t2'' 9)"
proof -
  have "set (rev rows) = set rows" for rows :: "root_admission list" by simp
  from admission_tip_is_newest[of rev "''s''" "[sample_admission ''t1'' 5]", OF this]
  show ?thesis by (simp add: sample_admission_def)
qed

lemma admission_is_not_immutable_witness:
  "sample_admission ''t1'' 5 \<notin> set (extend_admission_chain
     ((sample_admission ''t1'' 5)\<lparr>ra_identity_json := ''x'', ra_poisoned := False\<rparr>) [sample_admission ''t1'' 5])"
  using admission_is_not_immutable[of "sample_admission ''t1'' 5" "[sample_admission ''t1'' 5]" _ "''x''", OF _ refl]
  by (simp add: sample_admission_def)

definition sample_session :: session_record where
  "sample_session = \<lparr>sc_session_id = ''s'', sc_name = '''', sc_labels = [], sc_revision = 3,
     sc_is_archived = False, sc_cwd = '''', sc_config_json = ''{}'', sc_read_marker = None,
     sc_created_at = 1, sc_updated_at = 1\<rparr>"

definition sample_patch :: session_patch where
  "sample_patch = \<lparr>sp_name = Some ''renamed'', sp_labels = None, sp_is_archived = None, sp_cwd = None,
     sp_config_json = None, sp_read_marker = None\<rparr>"

lemma session_update_cas_witness:
  "\<exists>rows' nx. update_session ''s'' 3 sample_patch 7 [sample_session] = (rows', Session_Committed nx) \<and>
     sc_revision nx = 4 \<and>
     update_session ''s'' 3 sample_patch 8 rows' = (rows', Session_RevisionConflict 3 4)"
proof -
  have g: "clash_free same_session [sample_session]" "get_session ''s'' [sample_session] = Some sample_session"
    by (simp_all add: get_session_def sample_session_def)
  obtain rows' nx where u: "update_session ''s'' 3 sample_patch 7 [sample_session] = (rows', Session_Committed nx)"
    by (simp add: update_session_def get_session_def sample_session_def Let_def)
  from session_update_cas[OF g, of 3 sample_patch 7 sample_patch 8] u show ?thesis by simp
qed

end
