(* ===== verification/Agent_Loop.thy ===== *)
theory Agent_Loop
  imports Gate Runner Sqlite_Tables
begin

text \<open>
  The agent loop of the provider backend (\<^verbatim>\<open>send_cancellable\<close> of
  \<^verbatim>\<open>meepo-providers/src/aimux_backend.rs\<close>): ask the model, stream its parts, run the
  tool calls it made, repeat until it makes none, the step limit is reached, the run is
  cancelled or the provider fails.

  The provider (\<^verbatim>\<open>aimux\<close>) is the parameter \<open>provider\<close>: for a step and the messages so far it
  answers with the parts it streams, an error, or the cancellation that won the race;
  \<open>cancelled\<close> says at which steps the stop token is seen set.  \<open>part\<close> has the parts of a stream the
  loop reacts to.  Tools run through \<open>dispatch_tool_call\<close>; the effects are collected in the state.
\<close>

datatype part =
    Part_TextDelta string string
  | Part_ReasoningStart
  | Part_ReasoningDelta string string
  | Part_ReasoningEnd string "json option"
  | Part_ToolCall string string json
  | Part_Error string
  | Part_Other

datatype provider_answer =
    Provider_Cancelled
  | Provider_Failed string
  | Provider_Parts "(part, string) result list"

record agent_config =
  ac_session_id :: string
  ac_run_id :: string
  ac_invocation_id :: string
  ac_turn_id :: string
  ac_tmp_dir :: string
  ac_gate :: "gate_check option"
  ac_has_store :: bool
  ac_executor :: "(string \<Rightarrow> json \<Rightarrow> (string, string) result) option"
  ac_has_op_store :: bool

record agent_state =
  ag_counter :: nat
  ag_messages :: "chat_message list"
  ag_events :: "session_event list"
  ag_operations :: "tool_operation list"
  ag_world :: gate_world

definition aimux_id :: "nat \<Rightarrow> string" where
  "aimux_id n = ''aimux-'' @ show_nat n"

definition done_event :: "string \<Rightarrow> nat \<Rightarrow> stop_reason \<Rightarrow> session_event" where
  "done_event turn_id n r = SE_Complete (aimux_id n) turn_id (int n) r"

definition err_event :: "string \<Rightarrow> nat \<Rightarrow> string \<Rightarrow> session_event" where
  "err_event turn_id n msg = SE_Error (aimux_id n @ ''-err'') turn_id (int n) False msg None None None"

definition abort_event :: "string \<Rightarrow> nat \<Rightarrow> abort_reason \<Rightarrow> session_event" where
  "abort_event turn_id n r = SE_Abort (aimux_id n @ ''-abort'') turn_id (int n) r"

definition emit :: "session_event list \<Rightarrow> agent_state \<Rightarrow> agent_state" where
  "emit evs s = s\<lparr>ag_events := ag_events s @ evs\<rparr>"

definition bump :: "agent_state \<Rightarrow> agent_state" where
  "bump s = s\<lparr>ag_counter := ag_counter s + 1\<rparr>"

subsection \<open>One provider stream\<close>

record step_state =
  st_agent :: agent_state
  st_tool_calls :: "assistant_tool_call list"
  st_text :: string
  st_thinking :: string
  st_blocks :: "thinking_block list"
  st_failed :: bool

definition reasoning_signature :: "json option \<Rightarrow> string option" where
  "reasoning_signature metadata =
     Option.bind (Option.bind metadata (\<lambda>m. json_pointer m [''anthropic'', ''signature''])) as_str"

definition consume_part :: "string \<Rightarrow> step_state \<Rightarrow> (part, string) result \<Rightarrow> step_state" where
  "consume_part turn_id s p =
     (if st_failed s then s
      else
        let a = bump (st_agent s); n = ag_counter a in
        case p of
          Ok (Part_TextDelta i delta) \<Rightarrow>
            s\<lparr>st_text := st_text s @ delta,
              st_agent := emit [SE_TextDelta (aimux_id n) turn_id (int n) i None delta] a\<rparr>
        | Ok Part_ReasoningStart \<Rightarrow> s\<lparr>st_thinking := []\<rparr>
        | Ok (Part_ReasoningDelta i delta) \<Rightarrow>
            s\<lparr>st_thinking := st_thinking s @ delta,
              st_agent := emit [SE_ThinkingDelta (aimux_id n) turn_id (int n) i delta] a\<rparr>
        | Ok (Part_ReasoningEnd i metadata) \<Rightarrow>
            s\<lparr>st_blocks := st_blocks s @
                [\<lparr>tb_text = st_thinking s, tb_signature = reasoning_signature metadata\<rparr>],
              st_agent := emit [SE_ThinkingComplete (aimux_id n) turn_id (int n) i (st_thinking s)
                (reasoning_signature metadata)] a\<rparr>
        | Ok (Part_ToolCall i name inp) \<Rightarrow>
            s\<lparr>st_tool_calls := st_tool_calls s @ [\<lparr>atc_id = i, atc_name = name, atc_args = inp\<rparr>]\<rparr>
        | Ok (Part_Error e) \<Rightarrow> s\<lparr>st_failed := True, st_agent := emit [err_event turn_id n e] a\<rparr>
        | Err e \<Rightarrow> s\<lparr>st_failed := True, st_agent := emit [err_event turn_id n e] a\<rparr>
        | Ok Part_Other \<Rightarrow> s)"

definition consume_parts :: "string \<Rightarrow> agent_state \<Rightarrow> (part, string) result list \<Rightarrow> step_state" where
  "consume_parts turn_id a ps = foldl (consume_part turn_id)
     \<lparr>st_agent = a, st_tool_calls = [], st_text = [], st_thinking = [], st_blocks = [], st_failed = False\<rparr> ps"

subsection \<open>One tool call\<close>

definition operation_row ::
    "(string \<Rightarrow> string) \<Rightarrow> (json \<Rightarrow> string) \<Rightarrow> agent_config \<Rightarrow> assistant_tool_call \<Rightarrow> string \<Rightarrow> string \<Rightarrow>
     string option \<Rightarrow> int \<Rightarrow> tool_operation" where
  "operation_row sha256 json_text c tc dispatch_id state result_id version =
     \<lparr>to_operation_id = operation_id sha256 (ac_invocation_id c) (atc_id tc),
      to_invocation_id = ac_invocation_id c, to_run_id = ac_run_id c, to_turn_id = ac_turn_id c,
      to_provider_tool_call_id = atc_id tc, to_tool_name = atc_name tc,
      to_canonical_args_hash = canonical_tool_args_hash sha256 json_text (atc_name tc) (atc_args tc),
      to_recovery_mode = ''replay_safe'', to_current_state = state, to_call_event_id = atc_id tc,
      to_result_event_id = result_id, to_dispatch_event_id = Some dispatch_id, to_version = version\<rparr>"

definition record_op :: "agent_config \<Rightarrow> tool_operation \<Rightarrow> agent_state \<Rightarrow> agent_state" where
  "record_op c row s = (if ac_has_op_store c then s\<lparr>ag_operations := ag_operations s @ [row]\<rparr> else s)"

definition run_call ::
    "(string \<Rightarrow> string) \<Rightarrow> (json \<Rightarrow> string) \<Rightarrow> agent_config \<Rightarrow> agent_state \<Rightarrow> assistant_tool_call \<Rightarrow> agent_state" where
  "run_call sha256 json_text c s tc =
     (let turn_id = ac_turn_id c;
          s = bump s; n = ag_counter s;
          s = emit [SE_ToolCall (atc_id tc) turn_id (int n) (atc_id tc) (atc_name tc) (atc_args tc)] s;
          op_id = operation_id sha256 (ac_invocation_id c) (atc_id tc);
          args_hash = canonical_tool_args_hash sha256 json_text (atc_name tc) (atc_args tc);
          s = bump s; n = ag_counter s; dispatch_id = aimux_id n;
          s = emit [SE_ToolDispatch dispatch_id turn_id (int n) op_id (atc_id tc) (atc_name tc) args_hash ReplaySafe] s;
          s = record_op c (operation_row sha256 json_text c tc dispatch_id ''dispatched'' None 1) s;
          ((body, is_error), w) = dispatch_tool_call (ac_tmp_dir c) (ac_gate c) (ac_has_store c) (ac_executor c)
             (ac_session_id c) (ac_run_id c) turn_id (int (ag_counter s)) (atc_id tc) (atc_name tc) (atc_args tc)
             (ag_world s);
          s = bump (s\<lparr>ag_world := w\<rparr>); n = ag_counter s; result_id = aimux_id n;
          s = emit [SE_ToolResult result_id turn_id (int n) (atc_id tc) (atc_name tc) body is_error] s;
          s = record_op c (operation_row sha256 json_text c tc dispatch_id ''completed'' (Some result_id) 2) s
      in s\<lparr>ag_messages := ag_messages s @ [Tool_Msg (atc_id tc) body]\<rparr>)"

subsection \<open>The loop\<close>

fun agent_steps ::
    "(string \<Rightarrow> string) \<Rightarrow> (json \<Rightarrow> string) \<Rightarrow> (nat \<Rightarrow> bool) \<Rightarrow> (nat \<Rightarrow> chat_message list \<Rightarrow> provider_answer) \<Rightarrow>
     agent_config \<Rightarrow> nat \<Rightarrow> nat \<Rightarrow> agent_state \<Rightarrow> agent_state" where
  "agent_steps sha256 json_text cancelled provider c 0 step s =
     (if cancelled step then emit [abort_event (ac_turn_id c) (ag_counter (bump s)) Abort_UserStop] (bump s)
      else emit [done_event (ac_turn_id c) (ag_counter (bump s)) Stop_StepLimit] (bump s))"
| "agent_steps sha256 json_text cancelled provider c (Suc left) step s =
     (if cancelled step then emit [abort_event (ac_turn_id c) (ag_counter (bump s)) Abort_UserStop] (bump s)
      else case provider step (ag_messages s) of
        Provider_Cancelled \<Rightarrow> emit [abort_event (ac_turn_id c) (ag_counter (bump s)) Abort_UserStop] (bump s)
      | Provider_Failed e \<Rightarrow> emit [err_event (ac_turn_id c) (ag_counter (bump s)) (''stream_text: '' @ e)] (bump s)
      | Provider_Parts ps \<Rightarrow>
          (let t = consume_parts (ac_turn_id c) s ps in
           if st_failed t then st_agent t
           else if st_tool_calls t \<noteq> [] then
             (let a = st_agent t;
                  a = a\<lparr>ag_messages := ag_messages a @
                    [Assistant_Msg (if st_text t = [] then None else Some (st_text t)) (st_tool_calls t) (st_blocks t)]\<rparr>;
                  a = foldl (run_call sha256 json_text c) a (st_tool_calls t)
              in agent_steps sha256 json_text cancelled provider c left (Suc step) a)
           else emit [done_event (ac_turn_id c) (ag_counter (bump (st_agent t))) Stop_EndTurn] (bump (st_agent t))))"

definition agent_send ::
    "(string \<Rightarrow> string) \<Rightarrow> (json \<Rightarrow> string) \<Rightarrow> (nat \<Rightarrow> bool) \<Rightarrow> (nat \<Rightarrow> chat_message list \<Rightarrow> provider_answer) \<Rightarrow>
     agent_config \<Rightarrow> nat \<Rightarrow> gate_world \<Rightarrow> backend_send_input \<Rightarrow> agent_state" where
  "agent_send sha256 json_text cancelled provider c counter w inp =
     agent_steps sha256 json_text cancelled provider
       (c\<lparr>ac_turn_id := in_turn_id inp, ac_run_id := unwrap_or '''' (in_run_id inp),
          ac_invocation_id := unwrap_or '''' (in_invocation_id inp)\<rparr>)
       (unwrap_or 50 (in_max_steps inp)) 0
       \<lparr>ag_counter = counter, ag_messages = in_messages inp, ag_events = [], ag_operations = [], ag_world = w\<rparr>"

subsection \<open>The events of a run\<close>

lemma agent_simps [simp]:
  "ag_events (emit evs s) = ag_events s @ evs" "ag_counter (emit evs s) = ag_counter s"
  "ag_messages (emit evs s) = ag_messages s" "ag_operations (emit evs s) = ag_operations s"
  "ag_world (emit evs s) = ag_world s"
  "ag_events (bump s) = ag_events s" "ag_counter (bump s) = Suc (ag_counter s)"
  "ag_messages (bump s) = ag_messages s" "ag_operations (bump s) = ag_operations s" "ag_world (bump s) = ag_world s"
  "ag_events (record_op c row s) = ag_events s" "ag_counter (record_op c row s) = ag_counter s"
  "ag_messages (record_op c row s) = ag_messages s" "ag_world (record_op c row s) = ag_world s"
  "ag_operations (record_op c row s) = ag_operations s @ (if ac_has_op_store c then [row] else [])"
  by (simp_all add: emit_def bump_def record_op_def)

text \<open>
  The traces of the loop: \<open>agent_trace n m xs\<close> says that a run whose counter went from \<open>n\<close> to \<open>m\<close>
  has emitted \<open>xs\<close> and is between two steps.  Only text, thinking and whole tool calls (call,
  dispatch fact, result) are emitted, each event with the counter as its time stamp.
\<close>

inductive agent_trace ::
    "(string \<Rightarrow> string) \<Rightarrow> (json \<Rightarrow> string) \<Rightarrow> agent_config \<Rightarrow> bool \<Rightarrow> nat \<Rightarrow> nat \<Rightarrow> session_event list \<Rightarrow> bool"
  for sha256 json_text c nonempty n where
  trace_start: "agent_trace sha256 json_text c nonempty n n []"
| trace_text: "agent_trace sha256 json_text c nonempty n m xs \<Longrightarrow> nonempty \<longrightarrow> d \<noteq> [] \<Longrightarrow>
    agent_trace sha256 json_text c nonempty n (Suc m)
      (xs @ [SE_TextDelta (aimux_id (Suc m)) (ac_turn_id c) (int (Suc m)) i None d])"
| trace_thinking: "agent_trace sha256 json_text c nonempty n m xs \<Longrightarrow>
    agent_trace sha256 json_text c nonempty n (Suc m)
      (xs @ [SE_ThinkingDelta (aimux_id (Suc m)) (ac_turn_id c) (int (Suc m)) i d])"
| trace_thought: "agent_trace sha256 json_text c nonempty n m xs \<Longrightarrow>
    agent_trace sha256 json_text c nonempty n (Suc m)
      (xs @ [SE_ThinkingComplete (aimux_id (Suc m)) (ac_turn_id c) (int (Suc m)) i d sig])"
| trace_call: "agent_trace sha256 json_text c nonempty n m xs \<Longrightarrow>
    agent_trace sha256 json_text c nonempty n (Suc (Suc (Suc m)))
      (xs @ [SE_ToolCall (atc_id (tc :: assistant_tool_call)) (ac_turn_id c) (int (Suc m)) (atc_id tc) (atc_name tc) (atc_args tc),
        SE_ToolDispatch (aimux_id (Suc (Suc m))) (ac_turn_id c) (int (Suc (Suc m)))
          (operation_id sha256 (ac_invocation_id c) (atc_id tc)) (atc_id tc) (atc_name tc)
          (canonical_tool_args_hash sha256 json_text (atc_name tc) (atc_args tc)) ReplaySafe,
        SE_ToolResult (aimux_id (Suc (Suc (Suc m)))) (ac_turn_id c) (int (Suc (Suc (Suc m)))) (atc_id tc) (atc_name tc) body is_err])"

definition nonempty_texts :: "(part, string) result list \<Rightarrow> bool" where
  "nonempty_texts ps \<longleftrightarrow> (\<forall>i. Ok (Part_TextDelta i []) \<notin> set ps)"

definition provider_texts_ok :: "(nat \<Rightarrow> chat_message list \<Rightarrow> provider_answer) \<Rightarrow> bool" where
  "provider_texts_ok provider \<longleftrightarrow> (\<forall>step ms ps. provider step ms = Provider_Parts ps \<longrightarrow> nonempty_texts ps)"

definition closing_event :: "string \<Rightarrow> nat \<Rightarrow> session_event \<Rightarrow> bool" where
  "closing_event turn_id m t \<longleftrightarrow> (\<exists>r. t = done_event turn_id m r) \<or> (\<exists>msg. t = err_event turn_id m msg) \<or>
     (\<exists>r. t = abort_event turn_id m r)"

definition ended ::
    "(string \<Rightarrow> string) \<Rightarrow> (json \<Rightarrow> string) \<Rightarrow> agent_config \<Rightarrow> bool \<Rightarrow> nat \<Rightarrow> agent_state \<Rightarrow> bool" where
  "ended sha256 json_text c nonempty n a \<longleftrightarrow> (\<exists>xs t m. ag_events a = xs @ [t] \<and>
     agent_trace sha256 json_text c nonempty n m xs \<and> closing_event (ac_turn_id c) (Suc m) t)"

abbreviation traced ::
    "(string \<Rightarrow> string) \<Rightarrow> (json \<Rightarrow> string) \<Rightarrow> agent_config \<Rightarrow> bool \<Rightarrow> nat \<Rightarrow> agent_state \<Rightarrow> bool" where
  "traced sha256 json_text c nonempty n a \<equiv>
     agent_trace sha256 json_text c nonempty n (ag_counter a) (ag_events a)"

lemma ended_emit:
  assumes "traced sha256 json_text c nb n a" and "closing_event (ac_turn_id c) (Suc (ag_counter a)) t"
  shows "ended sha256 json_text c nb n (emit [t] (bump a))"
  using assms unfolding ended_def by auto

lemma closing_simps [simp]:
  "closing_event t m (done_event t m r)" "closing_event t m (err_event t m msg)" "closing_event t m (abort_event t m x)"
  by (auto simp: closing_event_def)

lemma consume_part_traced:
  assumes "traced sha256 json_text c nb n (st_agent s)" and "\<not> st_failed s" and "nb \<longrightarrow> nonempty_texts [p]"
  shows "if st_failed (consume_part (ac_turn_id c) s p)
     then ended sha256 json_text c nb n (st_agent (consume_part (ac_turn_id c) s p))
     else traced sha256 json_text c nb n (st_agent (consume_part (ac_turn_id c) s p))"
proof (cases p)
  case (Inl e)
  with assms show ?thesis by (simp add: consume_part_def Let_def ended_emit)
next
  case (Inr q)
  with assms show ?thesis
    by (cases q) (auto simp: consume_part_def Let_def ended_emit nonempty_texts_def
        simp del: of_nat_Suc intro!: trace_text trace_thinking trace_thought)
qed

lemma consume_parts_traced:
  assumes "traced sha256 json_text c nb n (st_agent s)" and "\<not> st_failed s" and "nb \<longrightarrow> nonempty_texts ps"
  shows "if st_failed (foldl (consume_part (ac_turn_id c)) s ps)
     then ended sha256 json_text c nb n (st_agent (foldl (consume_part (ac_turn_id c)) s ps))
     else traced sha256 json_text c nb n (st_agent (foldl (consume_part (ac_turn_id c)) s ps))"
  using assms
proof (induction ps arbitrary: s)
  case (Cons p ps)
  have stop: "foldl (consume_part (ac_turn_id c)) t qs = t" if "st_failed t" for t qs
    using that by (induction qs) (auto simp: consume_part_def)
  from Cons.prems(3) have "nb \<longrightarrow> nonempty_texts [p]" "nb \<longrightarrow> nonempty_texts ps"
    by (auto simp: nonempty_texts_def)
  with consume_part_traced[OF Cons.prems(1,2), of p] Cons.IH[of "consume_part (ac_turn_id c) s p"] stop
  show ?case by (cases "st_failed (consume_part (ac_turn_id c) s p)") simp_all
qed simp

lemma run_call_facts:
  obtains n body is_err w where
    "ag_events (run_call sha256 json_text c s tc) = ag_events s @
       [SE_ToolCall (atc_id tc) (ac_turn_id c) (int (Suc n)) (atc_id tc) (atc_name tc) (atc_args tc),
        SE_ToolDispatch (aimux_id (Suc (Suc n))) (ac_turn_id c) (int (Suc (Suc n)))
          (operation_id sha256 (ac_invocation_id c) (atc_id tc)) (atc_id tc) (atc_name tc)
          (canonical_tool_args_hash sha256 json_text (atc_name tc) (atc_args tc)) ReplaySafe,
        SE_ToolResult (aimux_id (Suc (Suc (Suc n)))) (ac_turn_id c) (int (Suc (Suc (Suc n)))) (atc_id tc) (atc_name tc) body is_err]"
    "n = ag_counter s" "ag_counter (run_call sha256 json_text c s tc) = Suc (Suc (Suc n))"
    "dispatch_tool_call (ac_tmp_dir c) (ac_gate c) (ac_has_store c) (ac_executor c)
       (ac_session_id c) (ac_run_id c) (ac_turn_id c) (int (Suc (Suc n))) (atc_id tc) (atc_name tc) (atc_args tc)
       (ag_world s) = ((body, is_err), w)"
    "ag_world (run_call sha256 json_text c s tc) = w"
    "ag_messages (run_call sha256 json_text c s tc) = ag_messages s @ [Tool_Msg (atc_id tc) body]"
    "ag_operations (run_call sha256 json_text c s tc) = ag_operations s @ (if ac_has_op_store c then
       [operation_row sha256 json_text c tc (aimux_id (Suc (Suc n))) ''dispatched'' None 1,
        operation_row sha256 json_text c tc (aimux_id (Suc (Suc n))) ''completed'' (Some (aimux_id (Suc (Suc (Suc n))))) 2]
       else [])"
proof -
  obtain body is_err w where d: "dispatch_tool_call (ac_tmp_dir c) (ac_gate c) (ac_has_store c) (ac_executor c)
       (ac_session_id c) (ac_run_id c) (ac_turn_id c) (int (Suc (Suc (ag_counter s)))) (atc_id tc) (atc_name tc) (atc_args tc)
       (ag_world s) = ((body, is_err), w)" by (metis prod.exhaust)
  show thesis
    by (rule that[of "ag_counter s" body is_err w])
      (use d in \<open>simp_all add: run_call_def Let_def d[simplified]\<close>)
qed

lemma run_call_traced:
  assumes "traced sha256 json_text c nb n s"
  shows "traced sha256 json_text c nb n (run_call sha256 json_text c s tc)"
  by (rule run_call_facts[of sha256 json_text c s tc]) (simp only: trace_call[OF assms] simp_thms)

lemma run_calls_traced:
  "traced sha256 json_text c nb n s \<Longrightarrow> traced sha256 json_text c nb n (foldl (run_call sha256 json_text c) s tcs)"
  by (induction tcs arbitrary: s) (simp_all add: run_call_traced)

lemma agent_steps_ended:
  assumes "nb \<longrightarrow> provider_texts_ok provider"
  shows "traced sha256 json_text c nb n s \<Longrightarrow>
    ended sha256 json_text c nb n (agent_steps sha256 json_text cancelled provider c left step s)"
proof (induction left arbitrary: step s)
  case 0
  then show ?case by (simp add: ended_emit)
next
  case (Suc left)
  show ?case
  proof (cases "\<not> cancelled step \<and> (\<exists>ps. provider step (ag_messages s) = Provider_Parts ps)")
    case False
    with Suc.prems show ?thesis by (cases "provider step (ag_messages s)") (auto simp: ended_emit)
  next
    case True
    then obtain ps where ps: "\<not> cancelled step" "provider step (ag_messages s) = Provider_Parts ps" by blast
    define t where "t = consume_parts (ac_turn_id c) s ps"
    have nb: "nb \<longrightarrow> nonempty_texts ps" using assms ps(2) by (auto simp: provider_texts_ok_def)
    have t: "if st_failed t then ended sha256 json_text c nb n (st_agent t) else traced sha256 json_text c nb n (st_agent t)"
      unfolding t_def consume_parts_def by (rule consume_parts_traced) (simp_all add: Suc.prems nb)
    have steps: "agent_steps sha256 json_text cancelled provider c (Suc left) step s =
      (if st_failed t then st_agent t
       else if st_tool_calls t \<noteq> [] then
         (let a = (st_agent t)\<lparr>ag_messages := ag_messages (st_agent t) @
                    [Assistant_Msg (if st_text t = [] then None else Some (st_text t)) (st_tool_calls t) (st_blocks t)]\<rparr>
          in agent_steps sha256 json_text cancelled provider c left (Suc step)
               (foldl (run_call sha256 json_text c) a (st_tool_calls t)))
       else emit [done_event (ac_turn_id c) (ag_counter (bump (st_agent t))) Stop_EndTurn] (bump (st_agent t)))"
      using ps by (simp add: t_def Let_def)
    show ?thesis unfolding steps Let_def
      using t by (auto intro!: Suc.IH run_calls_traced ended_emit)
  qed
qed

lemma agent_send_trace:
  assumes "nb \<longrightarrow> provider_texts_ok provider"
  obtains xs t m where "ag_events (agent_send sha256 json_text cancelled provider c counter w inp) = xs @ [t]"
    "agent_trace sha256 json_text (c\<lparr>ac_turn_id := in_turn_id inp, ac_run_id := unwrap_or '''' (in_run_id inp),
       ac_invocation_id := unwrap_or '''' (in_invocation_id inp)\<rparr>) nb counter m xs"
    "closing_event (in_turn_id inp) (Suc m) t"
proof -
  let ?c = "c\<lparr>ac_turn_id := in_turn_id inp, ac_run_id := unwrap_or '''' (in_run_id inp),
       ac_invocation_id := unwrap_or '''' (in_invocation_id inp)\<rparr>"
  have "ended sha256 json_text ?c nb counter (agent_send sha256 json_text cancelled provider c counter w inp)"
    unfolding agent_send_def by (rule agent_steps_ended[OF assms]) (simp add: trace_start)
  then show thesis using that by (auto simp: ended_def)
qed

text \<open>Nothing in a trace ends the turn, and it can stand in front of a tidy stream.\<close>

lemma trace_open: "agent_trace sha256 json_text c nb n m xs \<Longrightarrow> se \<in> set xs \<Longrightarrow> \<not> is_terminal_se se"
  by (induction rule: agent_trace.induct) auto

lemma trace_tidy: "agent_trace sha256 json_text c nb n m xs \<Longrightarrow> nb \<Longrightarrow> tidy None ys \<Longrightarrow> tidy None (xs @ ys)"
  by (induction arbitrary: ys rule: agent_trace.induct) auto

lemma closing_terminal: "closing_event t m se \<Longrightarrow> is_terminal_se se \<and> tidy None [se]"
  by (auto simp: closing_event_def abort_event_def done_event_def err_event_def)


definition sample_config :: agent_config where
  "sample_config = \<lparr>ac_session_id = ''s'', ac_run_id = [], ac_invocation_id = [], ac_turn_id = [], ac_tmp_dir = ''/tmp'',
     ac_gate = Some (default_gate_check (\<lambda>_ _. False) (\<lambda>_ _. None) Mode_Ask sample_ask), ac_has_store = True,
     ac_executor = Some (\<lambda>_ _. Ok ''body''), ac_has_op_store = True\<rparr>"

definition sample_input :: backend_send_input where
  "sample_input = \<lparr>in_turn_id = ''t'', in_run_id = Some ''r'', in_invocation_id = Some ''i'', in_max_steps = Some 3,
     in_messages = [User_Msg ''go''], in_system_prompt = None, in_tools = []\<rparr>"

definition sample_provider :: "nat \<Rightarrow> chat_message list \<Rightarrow> provider_answer" where
  "sample_provider step ms = (if step = 0
     then Provider_Parts [Ok (Part_TextDelta ''m'' ''looking''), Ok (Part_ToolCall ''c1'' ''Read'' JNull)]
     else Provider_Parts [Ok (Part_TextDelta ''m'' ''found'')])"

definition sample_world :: gate_world where
  "sample_world = \<lparr>gw_asked = [], gw_recorded = [], gw_executed = [], gw_archived = []\<rparr>"

lemma sample_provider_ok: "provider_texts_ok sample_provider"
  by (auto simp: provider_texts_ok_def sample_provider_def nonempty_texts_def split: if_splits)


end
