(* ===== verification/Ledger_Spec.thy ===== *)
theory Ledger_Spec
  imports Ledger
begin

text \<open>
  What a proper tool ledger is, said without the scanner's tables: \<open>proper_ledger\<close> reads the
  events from first to last and asks of each that its id is new and that its tool fact
  follows from the facts before it.  The scanner is exact for it: it reports
  corruption if and only if the prefix is not proper.
\<close>

definition fact_of :: "runtime_event \<Rightarrow> string option" where
  "fact_of e = (if ev_role e = Role_System \<and> ev_content e = None
     then Option.bind (ev_tool_recovery e) fact_operation_id else None)"

text \<open>Some event of the list speaks, in the lane of \<open>f\<close>, about the key.\<close>

definition speaks :: "(runtime_event \<Rightarrow> (string \<times> string) option) \<Rightarrow> string \<Rightarrow> runtime_event list \<Rightarrow> bool" where
  "speaks f k es = list_ex (\<lambda>x. map_option fst (f x) = Some k) es"

definition proper_next :: "runtime_event list \<Rightarrow> runtime_event \<Rightarrow> bool" where
  "proper_next es e \<longleftrightarrow>
     ev_id e \<notin> set (map ev_id es) \<and>
     (case call_of e of None \<Rightarrow> True | Some (k, n) \<Rightarrow> \<not> speaks call_of k es) \<and>
     (case response_of e of None \<Rightarrow> True
      | Some (k, n) \<Rightarrow> list_ex (\<lambda>c. call_of c = Some (k, n)) es \<and> \<not> speaks response_of k es) \<and>
     (case dispatch_of e of None \<Rightarrow> True
      | Some (k, q) \<Rightarrow> speaks call_of k es \<and> \<not> speaks dispatch_of k es) \<and>
     (case fact_of e of None \<Rightarrow> True
      | Some q \<Rightarrow> list_ex (\<lambda>d. map_option snd (dispatch_of d) = Some q) es)"

fun proper_from :: "runtime_event list \<Rightarrow> runtime_event list \<Rightarrow> bool" where
  "proper_from pre [] = True"
| "proper_from pre (e # es) = (proper_next pre e \<and> proper_from (pre @ [e]) es)"

definition proper_ledger :: "runtime_event list \<Rightarrow> bool" where
  "proper_ledger es = proper_from [] es"

lemma proper_from_append: "proper_from pre (xs @ ys) \<longleftrightarrow> proper_from pre xs \<and> proper_from (pre @ xs) ys"
  by (induction xs arbitrary: pre) auto

lemma proper_snoc: "proper_ledger (es @ [e]) \<longleftrightarrow> proper_ledger es \<and> proper_next es e"
  by (simp add: proper_ledger_def proper_from_append)

lemma speaks_iff: "speaks f k es \<longleftrightarrow> (\<exists>x \<in> set es. \<exists>n. f x = Some (k, n))"
  by (auto simp: speaks_def list_ex_iff)

subsection \<open>The scanner's tables of a clean prefix\<close>

lemma clean_by_call:
  assumes "ss_issues (scan_loop es) = []"
  shows "ss_by_call (scan_loop es) k = None \<longleftrightarrow> \<not> speaks call_of k es"
proof
  assume "ss_by_call (scan_loop es) k = None"
  with scan_loop_clean[OF assms] show "\<not> speaks call_of k es"
    by (fastforce simp: speaks_iff attached_def)
next
  assume "\<not> speaks call_of k es"
  with clean_slot[OF assms, of k] show "ss_by_call (scan_loop es) k = None"
    by (cases "ss_by_call (scan_loop es) k") (auto simp: speaks_iff)
qed

lemma clean_slots:
  assumes no: "ss_issues (scan_loop es) = []" and k: "ss_by_call (scan_loop es) k = Some i"
  shows "so_call_event (ss_operations (scan_loop es) ! i) \<noteq> None"
    and "so_response_event (ss_operations (scan_loop es) ! i) = None \<longleftrightarrow> \<not> speaks response_of k es"
    and "so_dispatch_event (ss_operations (scan_loop es) ! i) = None \<longleftrightarrow> \<not> speaks dispatch_of k es"
    and "so_tool_name (ss_operations (scan_loop es) ! i) = Some n \<longleftrightarrow> list_ex (\<lambda>c. call_of c = Some (k, n)) es"
proof -
  let ?x = "ss_operations (scan_loop es) ! i"
  have att: "attached (scan_loop es) e" if "e \<in> set es" for e using scan_loop_clean[OF no] that by blast
  obtain c m where c: "so_call_event ?x = Some c" "c \<in> set es" "call_of c = Some (k, m)" "so_tool_name ?x = Some m"
    and r: "\<And>r. so_response_event ?x = Some r \<Longrightarrow> r \<in> set es \<and> response_of r = Some (k, m)"
    and d: "\<And>d. so_dispatch_event ?x = Some d \<Longrightarrow> \<exists>q. d \<in> set es \<and> dispatch_of d = Some (k, q)"
    using clean_slot[OF no k] by blast
  show "so_call_event ?x \<noteq> None" using c(1) by simp
  have "so_response_event ?x \<noteq> None" if "e \<in> set es" "response_of e = Some (k, p)" for e p
    using att[OF that(1)] that(2) k by (auto simp: attached_def)
  with r show "so_response_event ?x = None \<longleftrightarrow> \<not> speaks response_of k es"
    by (cases "so_response_event ?x") (auto simp: speaks_iff)
  have "so_dispatch_event ?x \<noteq> None" if "e \<in> set es" "dispatch_of e = Some (k, p)" for e p
    using att[OF that(1)] that(2) k by (auto simp: attached_def)
  with d show "so_dispatch_event ?x = None \<longleftrightarrow> \<not> speaks dispatch_of k es"
    by (cases "so_dispatch_event ?x") (fastforce simp: speaks_iff)+
  have "n = m" if "e \<in> set es" "call_of e = Some (k, n)" for e
    using att[OF that(1)] that(2) k c by (auto simp: attached_def)
  with c show "so_tool_name ?x = Some n \<longleftrightarrow> list_ex (\<lambda>c. call_of c = Some (k, n)) es"
    by (auto simp: list_ex_iff)
qed

lemma lane_fact: "classify_lane e \<in> {Lane_ReconcileResult, Lane_RecoveryDecision} \<longleftrightarrow> fact_of e \<noteq> None"
proof -
  have "fact_operation_id f \<noteq> None" for f by (cases f) simp_all
  then show ?thesis
    by (auto simp: classify_lane_def fact_of_def split: role.splits option.splits content.splits)
qed

lemma fact_exclusive:
  "fact_of e = Some q \<Longrightarrow> call_of e = None \<and> response_of e = None \<and> dispatch_of e = None"
  by (auto simp: fact_of_def call_of_def response_of_def dispatch_of_def
      split: if_splits role.splits option.splits content.splits)

text \<open>A step, by lane.\<close>

lemma scan_event_cases:
  assumes "ev_id e \<notin> ss_seen s"
  defines "s' \<equiv> s\<lparr>ss_seen := insert (ev_id e) (ss_seen s)\<rparr>"
  obtains (call) c n where "call_of e = Some (call_key (ev_invocation_id e) c, n)" "scan_event s e = scan_call s' e c n"
  | (response) c n where "response_of e = Some (call_key (ev_invocation_id e) c, n)" "scan_event s e = scan_response s' e c n"
  | (dispatch) d where "dispatch_of e = Some (call_key (ev_invocation_id e) (td_provider_tool_call_id d), td_operation_id d)"
      "scan_event s e = scan_dispatch s' e d"
  | (fact) f q where "fact_of e = Some q" "fact_operation_id f = Some q" "scan_event s e = scan_fact s' e f"
      "classify_lane e \<in> {Lane_ReconcileResult, Lane_RecoveryDecision}"
  | (other) "call_of e = None" "response_of e = None" "dispatch_of e = None" "fact_of e = None" "scan_event s e = s'"
proof -
  note ev = scan_event_def Let_def assms(1) s'_def[symmetric]
  show thesis
  proof (cases "classify_lane e")
    case Lane_Ordinary
    then have "call_of e = None" "response_of e = None" "dispatch_of e = None" "fact_of e = None"
      using lane_call_iff[of e] lane_response_iff[of e] lane_dispatch_iff[of e] lane_fact[of e]
      by (cases "call_of e", simp, simp, cases "response_of e", simp, simp, cases "dispatch_of e", simp_all)
    then show ?thesis by (rule other) (simp add: ev Lane_Ordinary)
  next
    case Lane_FunctionCall
    then obtain i n a p x where c: "ev_content e = Some (Content_FunctionCall i n a p x)"
      by (auto simp: classify_lane_def split: role.splits option.splits content.splits if_splits)
    show ?thesis by (rule call[OF call_of_lane[OF Lane_FunctionCall c]]) (simp add: ev Lane_FunctionCall c)
  next
    case Lane_ToolDispatch
    then obtain d where d: "ev_tool_dispatch e = Some d"
      by (auto simp: classify_lane_def split: role.splits option.splits content.splits if_splits)
    show ?thesis by (rule dispatch[OF dispatch_of_lane[OF Lane_ToolDispatch d]]) (simp add: ev Lane_ToolDispatch d)
  next
    case Lane_FunctionResponse
    then obtain i n r x p y where c: "ev_content e = Some (Content_FunctionResponse i n r x p y)"
      by (auto simp: classify_lane_def split: role.splits option.splits content.splits if_splits)
    show ?thesis by (rule response[OF response_of_lane[OF Lane_FunctionResponse c]]) (simp add: ev Lane_FunctionResponse c)
  next
    case Lane_ReconcileResult
    then obtain f q where f: "ev_tool_recovery e = Some f" "fact_of e = Some q" "fact_operation_id f = Some q"
      using lane_fact[of e] by (auto simp: fact_of_def bind_eq_Some_conv split: if_splits)
    show ?thesis by (rule fact[OF f(2,3)]) (simp_all add: ev Lane_ReconcileResult f)
  next
    case Lane_RecoveryDecision
    then obtain f q where f: "ev_tool_recovery e = Some f" "fact_of e = Some q" "fact_operation_id f = Some q"
      using lane_fact[of e] by (auto simp: fact_of_def bind_eq_Some_conv split: if_splits)
    show ?thesis by (rule fact[OF f(2,3)]) (simp_all add: ev Lane_RecoveryDecision f)
  qed
qed

lemma clean_by_operation:
  "ss_issues (scan_loop es) = [] \<Longrightarrow>
     ss_by_operation (scan_loop es) q = None \<longleftrightarrow> \<not> list_ex (\<lambda>d. map_option snd (dispatch_of d) = Some q) es"
proof (induction es rule: rev_induct)
  case Nil
  show ?case by (simp add: scan_loop_def scan_init_def)
next
  case (snoc e es)
  let ?s = "scan_loop es"
  from snoc.prems have t: "ss_issues (scan_event ?s e) = []" by (simp add: scan_loop_snoc)
  from scan_event_step[OF scan_loop_inv, of es e] t
  have *: "ss_issues ?s = []" "ev_id e \<notin> ss_seen ?s" by simp_all
  note IH = snoc.IH[OF *(1)]
  from *(2) show ?case
  proof (cases rule: scan_event_cases)
    case (call c n)
    with IH lane_exclusive(1)[OF call(1)] show ?thesis by (simp add: scan_loop_snoc scan_call_def Let_def split: option.split)
  next
    case (response c n)
    with IH lane_exclusive(2)[OF response(1)] show ?thesis by (simp add: scan_loop_snoc scan_response_def Let_def split: option.split)
  next
    case (dispatch d)
    with IH t show ?thesis by (auto simp: scan_loop_snoc scan_dispatch_def Let_def split: option.splits if_splits)
  next
    case (fact f q)
    with IH fact_exclusive[OF fact(1)] show ?thesis by (simp add: scan_loop_snoc scan_fact_def Let_def split: option.split ledger_lane.split)
  next
    case other
    with IH show ?thesis by (simp add: scan_loop_snoc)
  qed
qed

lemma step_clean_iff:
  assumes no: "ss_issues (scan_loop es) = []"
  shows "ss_issues (scan_event (scan_loop es) e) = [] \<longleftrightarrow> proper_next es e"
proof (cases "ev_id e \<in> ss_seen (scan_loop es)")
  case True
  then show ?thesis using ledger_inv_seen[OF scan_loop_inv, of es] by (simp add: scan_event_def proper_next_def)
next
  case False
  then have new: "ev_id e \<notin> set (map ev_id es)" using ledger_inv_seen[OF scan_loop_inv, of es] by simp
  from False show ?thesis
  proof (cases rule: scan_event_cases)
    case (call c n)
    let ?k = "call_key (ev_invocation_id e) c"
    have "fact_of e = None" using fact_exclusive[of e] call(1) by (cases "fact_of e") auto
    with call new no lane_exclusive(1)[OF call(1)] clean_by_call[OF no, of ?k] clean_slots(1)[OF no, of ?k] show ?thesis
      by (auto simp: proper_next_def scan_call_def split: option.split)
  next
    case (response c n)
    let ?k = "call_key (ev_invocation_id e) c"
    have f: "fact_of e = None" using fact_exclusive[of e] response(1) by (cases "fact_of e") auto
    show ?thesis
    proof (cases "ss_by_call (scan_loop es) ?k")
      case None
      with clean_by_call[OF no, of ?k] have "\<not> list_ex (\<lambda>c. call_of c = Some (?k, n)) es"
        by (auto simp: speaks_iff list_ex_iff)
      with None response new f lane_exclusive(2)[OF response(1)] show ?thesis
        by (simp add: proper_next_def scan_response_def Let_def)
    next
      case (Some i)
      note sl = clean_slots[OF no Some]
      from Some response new f no lane_exclusive(2)[OF response(1)] sl(2) sl(4)[of n] show ?thesis
        by (auto simp: proper_next_def scan_response_def Let_def)
    qed
  next
    case (dispatch d)
    let ?k = "call_key (ev_invocation_id e) (td_provider_tool_call_id d)"
    have f: "fact_of e = None" using fact_exclusive[of e] dispatch(1) by (cases "fact_of e") auto
    show ?thesis
    proof (cases "ss_by_call (scan_loop es) ?k")
      case None
      with clean_by_call[OF no, of ?k] dispatch new f lane_exclusive(3)[OF dispatch(1)] show ?thesis
        by (simp add: proper_next_def scan_dispatch_def Let_def)
    next
      case (Some i)
      with clean_by_call[OF no, of ?k] dispatch new f no lane_exclusive(3)[OF dispatch(1)] clean_slots(3)[OF no Some]
      show ?thesis by (auto simp: proper_next_def scan_dispatch_def Let_def)
    qed
  next
    case (fact f q)
    with new no fact_exclusive[OF fact(1)] clean_by_operation[OF no, of q] show ?thesis
      by (auto simp: proper_next_def scan_fact_def Let_def split: option.split ledger_lane.split)
  next
    case other
    with new no show ?thesis by (simp add: proper_next_def)
  qed
qed

lemma proper_iff_no_issues: "proper_ledger es \<longleftrightarrow> ss_issues (scan_loop es) = []"
proof (induction es rule: rev_induct)
  case Nil
  show ?case by (simp add: proper_ledger_def scan_loop_def scan_init_def)
next
  case (snoc e es)
  have "ss_issues (scan_event (scan_loop es) e) = [] \<Longrightarrow> ss_issues (scan_loop es) = []"
    using scan_event_step[OF scan_loop_inv, of es e] by simp
  then show ?case unfolding proper_snoc scan_loop_snoc snoc using step_clean_iff[of es e] by blast
qed

text \<open>
  C3. The scanner is exact: it reports corruption for precisely the prefixes that are
  not a proper ledger, where every id is new, a call's key is new, a response and a
  dispatch fact follow an unanswered (undispatched) call of their own key, the response with the
  call's tool name, and a recovery fact follows a dispatch fact of its operation id.
\<close>

theorem scanner_exact:
  "sr_has_corruption (scan_tool_ledger es) = (\<not> proper_ledger es)"
  by (simp add: scan_tool_ledger_def Let_def proper_iff_no_issues)

end
