(* ===== verification/Recovery.thy ===== *)
theory Recovery
  imports Ledger
begin

text \<open>
  The recovery resolver (\<^verbatim>\<open>meepo-runtime/src/recovery.rs\<close>): the state of each
  operation of the ledger after a crash and whether the prefix may be replayed.  The last
  section shows what the plan does with a recovery bundle that is corrupt.
\<close>

datatype recovery_status =
  Op_Completed | Op_Indeterminate | Op_Corruption | Op_DefinitelyNotDispatched | Op_Parked

datatype recovery_reason =
  Why_MatchingResponse | Why_DispatchWithoutResponse | Why_NewProtocolBeforeDispatch
| Why_LegacyDispatchUnknown | Why_OrphanResponse | Why_OrphanDispatch | Why_DuplicateCall
| Why_DuplicateDispatch | Why_DuplicateResponse | Why_IdentityConflict | Why_DuplicateEventId
| Why_RecoveryBundleCompleted | Why_RecoveryBundleParked | Why_RecoveryFactCorruption
| Why_RecoveryFactWithoutOperation

record recovery_decision =
  rc_tool_call_id :: string
  rc_tool_name :: "string option"
  rc_status :: recovery_status
  rc_reason :: recovery_reason

datatype recovery_plan = SafeReplay | Blocked

record recovery_resolution =
  rs_decisions :: "recovery_decision list"
  rs_has_corruption :: bool
  rs_has_indeterminate :: bool
  rs_plan :: recovery_plan

datatype interpretation_of_bundle = Bundle_Absent | Bundle_Valid recovery_disposition | Bundle_Corrupt

fun reason_from_issue :: "issue_code \<Rightarrow> recovery_reason" where
  "reason_from_issue DuplicateEventId = Why_DuplicateEventId"
| "reason_from_issue DuplicateCall = Why_DuplicateCall"
| "reason_from_issue DuplicateResponse = Why_DuplicateResponse"
| "reason_from_issue DuplicateDispatch = Why_DuplicateDispatch"
| "reason_from_issue OrphanResponse = Why_OrphanResponse"
| "reason_from_issue OrphanDispatch = Why_OrphanDispatch"
| "reason_from_issue IdentityConflict = Why_IdentityConflict"
| "reason_from_issue RecoveryFactWithoutOperation = Why_RecoveryFactWithoutOperation"

definition interpret_recovery_bundle :: "scan_op \<Rightarrow> interpretation_of_bundle" where
  "interpret_recovery_bundle x =
     (if so_reconcile_events x = [] \<and> so_decision_events x = [] then Bundle_Absent
      else if length (so_reconcile_events x) \<noteq> 1 \<or> length (so_decision_events x) \<noteq> 1
      then Bundle_Corrupt
      else (case ev_actions (hd (so_decision_events x)) of
              None \<Rightarrow> Bundle_Corrupt
            | Some a \<Rightarrow>
                (case tool_recovery a of
                   Some (RecoveryDecisionFact _ payload) \<Rightarrow> Bundle_Valid (rd_disposition payload)
                 | _ \<Rightarrow> Bundle_Corrupt)))"

definition classify_operation :: "scan_op \<Rightarrow> bool \<Rightarrow> recovery_status \<times> recovery_reason" where
  "classify_operation x t1_protocol =
     (case so_issues x of
        iss # _ \<Rightarrow> (Op_Corruption, reason_from_issue (li_code iss))
      | [] \<Rightarrow>
        (if so_call_event x = None then (Op_Corruption, Why_OrphanResponse)
         else
           let dflt =
             (if so_response_event x \<noteq> None then (Op_Completed, Why_MatchingResponse)
              else (case (so_dispatch_event x \<noteq> None, t1_protocol) of
                      (True, _) \<Rightarrow> (Op_Indeterminate, Why_DispatchWithoutResponse)
                    | (False, True) \<Rightarrow> (Op_DefinitelyNotDispatched, Why_NewProtocolBeforeDispatch)
                    | (False, False) \<Rightarrow> (Op_Indeterminate, Why_LegacyDispatchUnknown)))
           in if so_reconcile_events x \<noteq> [] \<or> so_decision_events x \<noteq> []
              then (case interpret_recovery_bundle x of
                      Bundle_Valid Disposition_Completed \<Rightarrow> (Op_Completed, Why_RecoveryBundleCompleted)
                    | Bundle_Valid _ \<Rightarrow> (Op_Parked, Why_RecoveryBundleParked)
                    | Bundle_Corrupt \<Rightarrow> (Op_Corruption, Why_RecoveryFactCorruption)
                    | Bundle_Absent \<Rightarrow> dflt)
              else dflt))"

definition t1_active :: "runtime_event list \<Rightarrow> bool" where
  "t1_active events =
     (case events of [] \<Rightarrow> False
      | e # _ \<Rightarrow> Option.bind (ev_actions e) runtime_protocol \<noteq> None)"

definition decide_op :: "bool \<Rightarrow> scan_op \<Rightarrow> recovery_decision" where
  "decide_op t1 x =
     (let (st, why) = classify_operation x t1 in
      \<lparr>rc_tool_call_id = so_tool_call_id x, rc_tool_name = so_tool_name x,
       rc_status = st, rc_reason = why\<rparr>)"

definition resolve_recovery :: "runtime_event list \<Rightarrow> recovery_resolution" where
  "resolve_recovery events =
     (let scan = scan_tool_ledger events;
          decisions = map (decide_op (t1_active events)) (sr_operations scan);
          has_indeterminate = list_ex (\<lambda>d. rc_status d = Op_Indeterminate) decisions;
          has_corruption = sr_has_corruption scan;
          has_parked = list_ex (\<lambda>d. rc_status d = Op_Parked) decisions
      in \<lparr>rs_decisions = decisions, rs_has_corruption = has_corruption,
          rs_has_indeterminate = has_indeterminate,
          rs_plan = (if has_corruption \<or> has_indeterminate \<or> has_parked then Blocked else SafeReplay)\<rparr>)"

subsection \<open>The classification\<close>

lemma decide_op_simps [simp]:
  "rc_tool_call_id (decide_op t x) = so_tool_call_id x"
  "rc_tool_name (decide_op t x) = so_tool_name x"
  "rc_status (decide_op t x) = fst (classify_operation x t)"
  "rc_reason (decide_op t x) = snd (classify_operation x t)"
  by (simp_all add: decide_op_def split: prod.split)

lemma classify_status:
  assumes "so_issues x = []" and "so_call_event x \<noteq> None"
  shows "fst (classify_operation x t1) =
    (case interpret_recovery_bundle x of
       Bundle_Valid Disposition_Completed \<Rightarrow> Op_Completed
     | Bundle_Valid Disposition_Parked \<Rightarrow> Op_Parked
     | Bundle_Corrupt \<Rightarrow> Op_Corruption
     | Bundle_Absent \<Rightarrow>
         (if so_response_event x \<noteq> None then Op_Completed
          else if so_dispatch_event x \<noteq> None then Op_Indeterminate
          else if t1 then Op_DefinitelyNotDispatched else Op_Indeterminate))"
  using assms
  by (auto simp: classify_operation_def Let_def interpret_recovery_bundle_def
      split: interpretation_of_bundle.split recovery_disposition.split option.split recovery_fact.split)

lemma plan_safe_iff:
  "rs_plan (resolve_recovery es) = SafeReplay \<longleftrightarrow>
     \<not> sr_has_corruption (scan_tool_ledger es) \<and>
     (\<forall>d \<in> set (rs_decisions (resolve_recovery es)).
        rc_status d \<in> {Op_Completed, Op_DefinitelyNotDispatched, Op_Corruption})"
proof -
  have "(st \<noteq> Op_Indeterminate \<and> st \<noteq> Op_Parked) \<longleftrightarrow>
      st \<in> {Op_Completed, Op_DefinitelyNotDispatched, Op_Corruption}" for st
    by (cases st) auto
  then show ?thesis
    by (auto simp: resolve_recovery_def Let_def list_ex_iff)
qed

lemma resolve_decisions:
  "rs_decisions (resolve_recovery es) = map (decide_op (t1_active es)) (sr_operations (scan_tool_ledger es))"
  by (simp add: resolve_recovery_def Let_def)

lemma clean_op_facts:
  assumes "\<not> sr_has_corruption (scan_tool_ledger es)" and "x \<in> set (sr_operations (scan_tool_ledger es))"
  shows "so_issues x = []" "so_call_event x \<noteq> None"
proof -
  from assms have no: "ss_issues (scan_loop es) = []" and x: "x \<in> set (ss_operations (scan_loop es))"
    by (simp_all add: scan_tool_ledger_def Let_def)
  from ledger_inv_issues[OF scan_loop_inv x] no show "so_issues x = []" by simp
  from x obtain i where i: "i < length (ss_operations (scan_loop es))" "x = ss_operations (scan_loop es) ! i"
    by (auto simp: in_set_conv_nth)
  from ledger_inv_cover[OF scan_loop_inv i(1)] obtain k where "ss_by_call (scan_loop es) k = Some i" ..
  from clean_slot[OF no this] i(2) show "so_call_event x \<noteq> None" by auto
qed

text \<open>
  C2. The resolver is fail-closed for every operation without recovery
  facts: a prefix is planned for replay only if the ledger has no corruption and each such
  operation either has its response or, with the dispatch protocol on, was never dispatched.
\<close>

theorem safe_replay_fail_closed:
  assumes "rs_plan (resolve_recovery es) = SafeReplay"
    and "x \<in> set (sr_operations (scan_tool_ledger es))"
    and "so_reconcile_events x = []" and "so_decision_events x = []"
  shows "so_call_event x \<noteq> None \<and>
    (so_response_event x \<noteq> None \<or> t1_active es \<and> so_dispatch_event x = None)"
proof -
  from assms(1) have clean: "\<not> sr_has_corruption (scan_tool_ledger es)"
    and st: "rc_status (decide_op (t1_active es) x) \<in> {Op_Completed, Op_DefinitelyNotDispatched, Op_Corruption}"
    using assms(2) by (auto simp: plan_safe_iff resolve_decisions)
  have "interpret_recovery_bundle x = Bundle_Absent"
    using assms(3,4) by (simp add: interpret_recovery_bundle_def)
  with st classify_status[OF clean_op_facts[OF clean assms(2)], of "t1_active es"]
    clean_op_facts(2)[OF clean assms(2)]
  show ?thesis by (auto split: if_splits)
qed

text \<open>
  The plan is exact: it is blocked if and only if the scanner found
  corruption or some operation of the ledger is an unanswered call that may have run, or was
  parked by a well-formed bundle.  A corrupt bundle alone does not block.
\<close>

lemma recovery_blocks_exactly:
  "rs_plan (resolve_recovery es) = Blocked \<longleftrightarrow>
     sr_has_corruption (scan_tool_ledger es) \<or>
     (\<exists>x \<in> set (sr_operations (scan_tool_ledger es)).
        interpret_recovery_bundle x = Bundle_Valid Disposition_Parked \<or>
        interpret_recovery_bundle x = Bundle_Absent \<and> so_response_event x = None \<and>
          (so_dispatch_event x \<noteq> None \<or> \<not> t1_active es))"
proof (cases "sr_has_corruption (scan_tool_ledger es)")
  case True
  then show ?thesis by (simp add: resolve_recovery_def Let_def)
next
  case False
  let ?ops = "set (sr_operations (scan_tool_ledger es))" and ?t = "t1_active es"
  let ?bad = "\<lambda>x. interpret_recovery_bundle x = Bundle_Valid Disposition_Parked \<or>
       interpret_recovery_bundle x = Bundle_Absent \<and> so_response_event x = None \<and>
         (so_dispatch_event x \<noteq> None \<or> \<not> ?t)"
  have "rs_plan (resolve_recovery es) = Blocked \<longleftrightarrow>
      (\<exists>x \<in> ?ops. fst (classify_operation x ?t) = Op_Indeterminate \<or> fst (classify_operation x ?t) = Op_Parked)"
    using False by (auto simp: resolve_recovery_def Let_def list_ex_iff)
  also have "\<dots> \<longleftrightarrow> (\<exists>x \<in> ?ops. ?bad x)"
  proof (rule bex_cong[OF refl])
    fix x assume "x \<in> ?ops"
    show "(fst (classify_operation x ?t) = Op_Indeterminate \<or> fst (classify_operation x ?t) = Op_Parked) = ?bad x"
      unfolding classify_status[OF clean_op_facts[OF False \<open>x \<in> ?ops\<close>]]
      by (auto split: interpretation_of_bundle.split recovery_disposition.split)
  qed
  finally show ?thesis using False by simp
qed

subsection \<open>A crash inside the recovery bundle\<close>

definition sample_reconcile :: "string \<Rightarrow> runtime_event" where
  "sample_reconcile opid = sample_event ''e4'' Role_System None
     (Some (default_actions\<lparr>tool_recovery := Some (ReconcileResultFact 1
        \<lparr>rr_protocol = ''tool_reconcile_v1'', rr_operation_id = opid,
         rr_observation = Diverged, rr_observation_schema = ''state_identity_v1'',
         rr_observation_digest = ''d''\<rparr>)\<rparr>))"

text \<open>
  A dispatched call without a response blocks recovery, but the same
  prefix followed by a lone reconcile fact (the resolver died between the two facts of its
  bundle) is planned for replay, although its only decision is Corruption and the observation
  says the state diverged: the plan looks at the scanner's corruption only.
\<close>

lemma half_bundle_unblocks:
  "let pre = [sample_call, sample_dispatch ''op1'' NeverAutoRetry];
       after = resolve_recovery (pre @ [sample_reconcile ''op1''])
   in rs_plan (resolve_recovery pre) = Blocked \<and>
      rs_plan after = SafeReplay \<and>
      map rc_status (rs_decisions after) = [Op_Corruption] \<and>
      \<not> rs_has_corruption after"
  by code_simp

theorem safe_replay_fail_closed_witness:
  "\<exists>x \<in> set (sr_operations (scan_tool_ledger sample_ledger)). so_response_event x \<noteq> None"
proof -
  have p: "rs_plan (resolve_recovery sample_ledger) = SafeReplay" by code_simp
  have "\<exists>x \<in> set (sr_operations (scan_tool_ledger sample_ledger)).
      so_reconcile_events x = [] \<and> so_decision_events x = [] \<and> so_dispatch_event x \<noteq> None" by code_simp
  then obtain x where x: "x \<in> set (sr_operations (scan_tool_ledger sample_ledger))"
    "so_reconcile_events x = []" "so_decision_events x = []" "so_dispatch_event x \<noteq> None" by blast
  from safe_replay_fail_closed[OF p x(1-3)] x(1,4) show ?thesis by blast
qed


lemma recovery_blocks_exactly_witness:
  "rs_plan (resolve_recovery [sample_call]) = Blocked"
proof -
  have "\<exists>x \<in> set (sr_operations (scan_tool_ledger [sample_call])).
      interpret_recovery_bundle x = Bundle_Absent \<and> so_response_event x = None \<and> \<not> t1_active [sample_call]"
    by code_simp
  then show ?thesis unfolding recovery_blocks_exactly by blast
qed

end
