(* ===== verification/Crash_Safety.thy ===== *)
theory Crash_Safety
  imports Agent_Loop Ledger_Spec Recovery
begin

text \<open>
  Crashes of a turn, across the components: the agent loop emits a turn's events, the
  mapping writes them to the ledger, and after a crash the resolver reads whatever prefix
  of them was kept.  \<open>phase_step\<close> is the protocol of tool calls as a state machine; a stream
  that follows it is a proper ledger at every cut, and the plan of every cut is decided by the
  phase the machine is in.
\<close>

subsection \<open>The plan of a proper ledger without recovery facts\<close>

definition op_facts :: "scan_op \<Rightarrow> runtime_event set" where
  "op_facts x = set (so_reconcile_events x) \<union> set (so_decision_events x)"

definition facts_in :: "scan_state \<Rightarrow> runtime_event set" where
  "facts_in s = (\<Union>x \<in> set (ss_operations s). op_facts x)"

lemma facts_in_upd:
  assumes "\<And>x. op_facts (f x) \<subseteq> op_facts x \<union> A"
  shows "facts_in (upd_op s i f) \<subseteq> facts_in s \<union> A"
proof (cases "i < length (ss_operations s)")
  case True
  have "op_facts y \<subseteq> facts_in s \<union> A" if "y \<in> set ((ss_operations s)[i := f (ss_operations s ! i)])" for y
  proof -
    from that set_update_subset_insert consider "y = f (ss_operations s ! i)" | "y \<in> set (ss_operations s)" by fastforce
    then show ?thesis
      using assms[of "ss_operations s ! i"] nth_mem[OF True] by cases (auto simp: facts_in_def)
  qed
  then show ?thesis unfolding facts_in_def ops_upd_op by blast
qed (auto simp: facts_in_def list_update_beyond)

lemma facts_in_issue: "facts_in (push_issue s oi iss) \<subseteq> facts_in s"
proof (cases oi)
  case (Some i)
  have "facts_in (upd_op (s\<lparr>ss_issues := ss_issues s @ [iss]\<rparr>) i (\<lambda>x. x\<lparr>so_issues := so_issues x @ [iss]\<rparr>))
      \<subseteq> facts_in (s\<lparr>ss_issues := ss_issues s @ [iss]\<rparr>) \<union> {}"
    by (rule facts_in_upd) (simp add: op_facts_def)
  with Some show ?thesis by (simp add: push_issue_def facts_in_def)
qed (simp add: facts_in_def)

lemma facts_in_push: "facts_in (push_op s k x) = facts_in s \<union> op_facts x"
  by (auto simp: facts_in_def)

lemma facts_in_same: "ss_operations t = ss_operations s \<Longrightarrow> facts_in t = facts_in s"
  by (simp add: facts_in_def)

lemma scan_event_facts: "facts_in (scan_event s e) \<subseteq> facts_in s \<union> (if fact_of e = None then {} else {e})"
proof (cases "ev_id e \<in> ss_seen s")
  case True
  then show ?thesis using facts_in_issue by (auto simp: scan_event_def)
next
  case False
  define s' where "s' = s\<lparr>ss_seen := insert (ev_id e) (ss_seen s)\<rparr>"
  have s': "facts_in s' = facts_in s" by (simp add: s'_def facts_in_def)
  have upd: "facts_in (upd_op t i f) \<subseteq> facts_in t" if "\<And>x. op_facts (f x) = op_facts x" for t i f
    using facts_in_upd[of f "{}" t i] that by auto
  have new: "op_facts ((blank_op c n)\<lparr>so_call_event := p\<rparr>) = {}" "op_facts ((blank_op c n)\<lparr>so_response_event := p\<rparr>) = {}"
    "op_facts ((blank_op c n)\<lparr>so_dispatch_event := p, so_operation_id := q\<rparr>) = {}" for c n p q
    by (simp_all add: op_facts_def)
  have byop: "facts_in (t\<lparr>ss_by_operation := g\<rparr>) = facts_in t" for t g by (simp add: facts_in_def)
  from False show ?thesis
  proof (cases rule: scan_event_cases)
    case (call c n)
    have "facts_in (scan_call s' e c n) \<subseteq> facts_in s'"
      by (auto simp: scan_call_def Let_def facts_in_push new split: option.split
          dest!: subsetD[OF facts_in_issue] subsetD[OF upd, rotated] simp: op_facts_def)
    with call s' show ?thesis by (auto simp: s'_def)
  next
    case (response c n)
    have "facts_in (scan_response s' e c n) \<subseteq> facts_in s'"
      by (auto simp: scan_response_def Let_def facts_in_push new split: option.split if_splits
          dest!: subsetD[OF facts_in_issue] subsetD[OF upd, rotated] simp: op_facts_def)
    with response s' show ?thesis by (auto simp: s'_def)
  next
    case (dispatch d)
    have "facts_in (scan_dispatch s' e d) \<subseteq> facts_in s'"
      by (auto simp: scan_dispatch_def Let_def facts_in_push new byop split: option.split if_splits
          dest!: subsetD[OF facts_in_issue] subsetD[OF upd, rotated] simp: op_facts_def)
    with dispatch s' show ?thesis by (auto simp: s'_def)
  next
    case (fact f q)
    have add: "facts_in (upd_op s' i (\<lambda>x. x\<lparr>so_reconcile_events := so_reconcile_events x @ [e]\<rparr>)) \<subseteq> facts_in s' \<union> {e}"
      "facts_in (upd_op s' i (\<lambda>x. x\<lparr>so_decision_events := so_decision_events x @ [e]\<rparr>)) \<subseteq> facts_in s' \<union> {e}" for i
      by (rule facts_in_upd; simp add: op_facts_def)+
    have "facts_in (scan_fact s' e f) \<subseteq> facts_in s' \<union> {e}"
      using add by (auto simp: scan_fact_def Let_def dest!: subsetD[OF facts_in_issue]
          split: option.split ledger_lane.split)
    with fact s' show ?thesis by (auto simp: s'_def)
  next
    case other
    with s' show ?thesis by (simp add: s'_def)
  qed
qed

lemma no_fact_events:
  assumes "\<forall>e \<in> set es. fact_of e = None"
  shows "facts_in (scan_loop es) = {}"
  using assms
proof (induction es rule: rev_induct)
  case (snoc e es)
  then show ?case using scan_event_facts[of "scan_loop es" e] by (simp add: scan_loop_snoc)
qed (simp add: scan_loop_def scan_init_def facts_in_def)

lemma plan_of_proper:
  assumes "proper_ledger es" and "\<forall>e \<in> set es. fact_of e = None"
  shows "rs_plan (resolve_recovery es) = Blocked \<longleftrightarrow>
    (\<exists>k. speaks call_of k es \<and> \<not> speaks response_of k es \<and> (speaks dispatch_of k es \<or> \<not> t1_active es))"
proof -
  from assms(1) have no: "ss_issues (scan_loop es) = []" by (simp add: proper_iff_no_issues)
  have clean: "\<not> sr_has_corruption (scan_tool_ledger es)" using no by (simp add: scan_tool_ledger_def Let_def)
  have ops: "sr_operations (scan_tool_ledger es) = ss_operations (scan_loop es)"
    by (simp add: scan_tool_ledger_def Let_def)
  have absent: "interpret_recovery_bundle x = Bundle_Absent" if "x \<in> set (ss_operations (scan_loop es))" for x
  proof -
    have "op_facts x = {}" using no_fact_events[OF assms(2)] that by (auto simp: facts_in_def)
    then have "so_reconcile_events x = []" "so_decision_events x = []" by (simp_all add: op_facts_def)
    then show ?thesis by (simp add: interpret_recovery_bundle_def)
  qed
  let ?bad = "\<lambda>x. so_response_event x = None \<and> (so_dispatch_event x \<noteq> None \<or> \<not> t1_active es)"
  have st: "fst (classify_operation x (t1_active es)) \<in> {Op_Indeterminate, Op_Parked} \<longleftrightarrow> ?bad x"
    if "x \<in> set (ss_operations (scan_loop es))" for x
    using classify_status[OF clean_op_facts[OF clean that[folded ops]], of "t1_active es"] absent[OF that] by simp
  have "rs_plan (resolve_recovery es) = Blocked \<longleftrightarrow>
      (\<exists>x \<in> set (ss_operations (scan_loop es)). fst (classify_operation x (t1_active es)) \<in> {Op_Indeterminate, Op_Parked})"
    using clean by (auto simp: resolve_recovery_def Let_def list_ex_iff ops)
  also have "\<dots> \<longleftrightarrow> (\<exists>x \<in> set (ss_operations (scan_loop es)). ?bad x)" using st by blast
  also have "\<dots> \<longleftrightarrow> (\<exists>k i. ss_by_call (scan_loop es) k = Some i \<and> ?bad (ss_operations (scan_loop es) ! i))"
    using ledger_inv_cover[OF scan_loop_inv, of _ es] ledger_inv_op(1)[OF scan_loop_inv, of es] nth_mem
    by (metis in_set_conv_nth)
  also have "\<dots> \<longleftrightarrow> (\<exists>k. speaks call_of k es \<and> \<not> speaks response_of k es \<and> (speaks dispatch_of k es \<or> \<not> t1_active es))"
  proof (rule iff_exI)
    fix k
    show "(\<exists>i. ss_by_call (scan_loop es) k = Some i \<and> ?bad (ss_operations (scan_loop es) ! i)) \<longleftrightarrow>
      speaks call_of k es \<and> \<not> speaks response_of k es \<and> (speaks dispatch_of k es \<or> \<not> t1_active es)"
      using clean_by_call[OF no, of k] clean_slots(2,3)[OF no, of k]
      by (cases "ss_by_call (scan_loop es) k") auto
  qed
  finally show ?thesis .
qed

subsection \<open>The protocol of a stream\<close>

datatype phase = Idle | Called string string | Dispatched string string

definition phase_step :: "phase option \<Rightarrow> session_event \<Rightarrow> phase option" where
  "phase_step p se = Option.bind p (\<lambda>ph.
     case se of
       SE_ToolCall _ _ _ c n _ \<Rightarrow> (if ph = Idle then Some (Called c n) else None)
     | SE_ToolDispatch _ _ _ q c n h md \<Rightarrow>
         (case ph of Called c' n' \<Rightarrow> if c = c' then Some (Dispatched c' n') else None | _ \<Rightarrow> None)
     | SE_ToolResult _ _ _ c n b x \<Rightarrow>
         (case ph of Dispatched c' n' \<Rightarrow> if c = c' \<and> n = n' then Some Idle else None | _ \<Rightarrow> None)
     | _ \<Rightarrow> Some ph)"

definition stream_phase :: "session_event list \<Rightarrow> phase option" where
  "stream_phase xs = foldl phase_step (Some Idle) xs"

lemma stream_phase_snoc: "stream_phase (xs @ [se]) = phase_step (stream_phase xs) se"
  by (simp add: stream_phase_def)

lemma stream_phase_prefix: "stream_phase (xs @ ys) \<noteq> None \<Longrightarrow> stream_phase xs \<noteq> None"
proof (rule ccontr)
  assume a: "stream_phase (xs @ ys) \<noteq> None" "\<not> stream_phase xs \<noteq> None"
  have "foldl phase_step None ys = None" by (induction ys) (simp_all add: phase_step_def)
  with a show False by (simp add: stream_phase_def)
qed

text \<open>A call is in flight from its dispatch fact to its result.\<close>

definition in_flight :: "session_event list \<Rightarrow> bool" where
  "in_flight xs = foldl (\<lambda>b se. if se_dispatch se \<noteq> None then True
     else if se_result se \<noteq> None then False else b) False xs"

definition call_ids :: "session_event list \<Rightarrow> string list" where
  "call_ids xs = map fst (List.map_filter se_call xs)"

lemma call_ids_simps [simp]:
  "call_ids [] = []" "call_ids (xs @ ys) = call_ids xs @ call_ids ys"
  "call_ids (se # xs) = (case se_call se of None \<Rightarrow> [] | Some (c, n) \<Rightarrow> [c]) @ call_ids xs"
  by (auto simp: call_ids_def List.map_filter_def split: option.split)

definition result_ids :: "session_event list \<Rightarrow> string set" where
  "result_ids xs = {c. \<exists>se \<in> set xs. \<exists>n. se_result se = Some (c, n)}"

definition dispatch_ids :: "session_event list \<Rightarrow> string set" where
  "dispatch_ids xs = {c. \<exists>se \<in> set xs. \<exists>q. se_dispatch se = Some (c, q)}"

fun phase_facts :: "phase \<Rightarrow> session_event list \<Rightarrow> bool" where
  "phase_facts Idle xs = (result_ids xs = set (call_ids xs) \<and> dispatch_ids xs = set (call_ids xs) \<and> \<not> in_flight xs)"
| "phase_facts (Called c n) xs = (c \<in> set (call_ids xs) \<and> result_ids xs = set (call_ids xs) - {c} \<and>
     dispatch_ids xs = set (call_ids xs) - {c} \<and> (\<exists>se \<in> set xs. se_call se = Some (c, n)) \<and> \<not> in_flight xs)"
| "phase_facts (Dispatched c n) xs = (c \<in> set (call_ids xs) \<and> result_ids xs = set (call_ids xs) - {c} \<and>
     dispatch_ids xs = set (call_ids xs) \<and> (\<exists>se \<in> set xs. se_call se = Some (c, n)) \<and> in_flight xs)"

lemma phase_ids_snoc [simp]:
  "result_ids (xs @ [se]) = result_ids xs \<union> (case se_result se of None \<Rightarrow> {} | Some (c, n) \<Rightarrow> {c})"
  "dispatch_ids (xs @ [se]) = dispatch_ids xs \<union> (case se_dispatch se of None \<Rightarrow> {} | Some (c, n) \<Rightarrow> {c})"
  "in_flight (xs @ [se]) = (if se_dispatch se \<noteq> None then True else if se_result se \<noteq> None then False else in_flight xs)"
  by (auto simp: result_ids_def dispatch_ids_def in_flight_def split: option.split)

lemma phase_facts_quiet:
  assumes "se_call se = None" and "se_result se = None" and "se_dispatch se = None"
  shows "phase_facts ph (xs @ [se]) = phase_facts ph xs"
  using assms by (cases ph) auto

lemma phase_step_quiet:
  assumes "se_call se = None" and "se_result se = None" and "se_dispatch se = None"
  shows "phase_step (Some ph) se = Some ph"
  using assms by (cases se) (simp_all add: phase_step_def)

lemma stream_phase_facts:
  "stream_phase xs = Some ph \<Longrightarrow> distinct (call_ids xs) \<Longrightarrow> phase_facts ph xs"
proof (induction xs arbitrary: ph rule: rev_induct)
  case Nil
  then show ?case by (simp add: stream_phase_def result_ids_def dispatch_ids_def in_flight_def)
next
  case (snoc se xs)
  from snoc.prems(1) obtain p where p: "stream_phase xs = Some p"
    by (cases "stream_phase xs") (simp_all add: stream_phase_snoc phase_step_def)
  from snoc.IH[OF p] snoc.prems(2) have f: "phase_facts p xs" by simp
  from snoc.prems(1) p have ph: "phase_step (Some p) se = Some ph" by (simp add: stream_phase_snoc)
  show ?case
  proof (cases se)
    case (SE_ToolCall i t z c n a)
    with ph have "p = Idle" "ph = Called c n" by (simp_all add: phase_step_def split: if_splits)
    with SE_ToolCall f snoc.prems(2) show ?thesis by auto
  next
    case (SE_ToolDispatch i t z q c n h m)
    with ph obtain n' where "p = Called c n'" "ph = Dispatched c n'"
      by (cases p) (simp_all add: phase_step_def split: if_splits)
    with SE_ToolDispatch f show ?thesis by auto
  next
    case (SE_ToolResult i t z c n b x)
    with ph have "p = Dispatched c n" "ph = Idle"
      by (cases p; simp add: phase_step_def split: if_splits)+
    with SE_ToolResult f show ?thesis by auto
  qed (use ph f phase_facts_quiet[of se] phase_step_quiet[of se p] in simp_all)
qed

subsection \<open>A stream in the ledger\<close>

lemma mapped_tool_facts:
  "call_of (map_session_event se ctx) = map_option (\<lambda>(c, x). (call_key (ctx_invocation_id ctx) c, x)) (se_call se)"
  "response_of (map_session_event se ctx) = map_option (\<lambda>(c, x). (call_key (ctx_invocation_id ctx) c, x)) (se_result se)"
  "dispatch_of (map_session_event se ctx) = map_option (\<lambda>(c, x). (call_key (ctx_invocation_id ctx) c, x)) (se_dispatch se)"
  "fact_of (map_session_event se ctx) = None"
  by (cases se; simp add: map_event_simps call_of_def response_of_def dispatch_of_def fact_of_def
      ev_tool_recovery_def ev_tool_dispatch_def default_actions_def)+

lemma user_tool_facts [simp]:
  "call_of (user_event ctx body) = None" "response_of (user_event ctx body) = None"
  "dispatch_of (user_event ctx body) = None" "fact_of (user_event ctx body) = None"
  "ev_id (user_event ctx body) = ctx_invocation_id ctx @ ''-user''"
  by (simp_all add: user_event_def call_of_def response_of_def dispatch_of_def fact_of_def)

definition turn_ledger :: "invocation_context \<Rightarrow> string \<Rightarrow> session_event list \<Rightarrow> runtime_event list" where
  "turn_ledger ctx body xs = user_event ctx body # map (\<lambda>se. map_session_event se ctx) xs"

lemma turn_ledger_snoc: "turn_ledger ctx body (xs @ [se]) = turn_ledger ctx body xs @ [map_session_event se ctx]"
  by (simp add: turn_ledger_def)

lemma call_key_eq [simp]: "call_key i c = call_key i d \<longleftrightarrow> c = d"
  by (simp add: call_key_def)

lemma call_key_image [simp]: "call_key i c \<in> call_key i ` A \<longleftrightarrow> c \<in> A"
  by (auto simp: image_iff)

lemma call_ids_set: "set (call_ids xs) = {c. \<exists>se \<in> set xs. \<exists>n. se_call se = Some (c, n)}"
  by (induction xs) (auto split: option.splits dest!: sym[of "Some _" "se_call _"])

lemma turn_speaks_iff:
  assumes "f (user_event ctx body) = None"
  shows "speaks f k (turn_ledger ctx body xs) \<longleftrightarrow> (\<exists>se \<in> set xs. \<exists>n. f (map_session_event se ctx) = Some (k, n))"
  using assms by (auto simp: speaks_iff turn_ledger_def)

lemma turn_speaks:
  "speaks call_of k (turn_ledger ctx body xs) \<longleftrightarrow> k \<in> call_key (ctx_invocation_id ctx) ` set (call_ids xs)"
  "speaks response_of k (turn_ledger ctx body xs) \<longleftrightarrow> k \<in> call_key (ctx_invocation_id ctx) ` result_ids xs"
  "speaks dispatch_of k (turn_ledger ctx body xs) \<longleftrightarrow> k \<in> call_key (ctx_invocation_id ctx) ` dispatch_ids xs"
  by (subst turn_speaks_iff, simp,
      simp only: mapped_tool_facts call_ids_set result_ids_def dispatch_ids_def, fastforce simp: image_iff)+

lemma turn_call:
  "se \<in> set xs \<Longrightarrow> se_call se = Some (c, n) \<Longrightarrow>
     list_ex (\<lambda>e. call_of e = Some (call_key (ctx_invocation_id ctx) c, n)) (turn_ledger ctx body xs)"
  by (force simp: turn_ledger_def list_ex_iff mapped_tool_facts)

lemma turn_t1: "t1_active (turn_ledger ctx body xs)"
  by (simp add: t1_active_def turn_ledger_def user_event_def)

lemma turn_no_facts: "\<forall>e \<in> set (turn_ledger ctx body xs). fact_of e = None"
  by (auto simp: turn_ledger_def mapped_tool_facts)

lemma proper_next_mapped:
  assumes "se_id se \<notin> set ((ctx_invocation_id ctx @ ''-user'') # map se_id xs)"
    and "\<And>c n. se_call se = Some (c, n) \<Longrightarrow> c \<notin> set (call_ids xs)"
    and "\<And>c n. se_result se = Some (c, n) \<Longrightarrow> c \<notin> result_ids xs \<and> (\<exists>s \<in> set xs. se_call s = Some (c, n))"
    and "\<And>c q. se_dispatch se = Some (c, q) \<Longrightarrow> c \<in> set (call_ids xs) \<and> c \<notin> dispatch_ids xs"
  shows "proper_next (turn_ledger ctx body xs) (map_session_event se ctx)"
proof -
  have "ev_id (map_session_event se ctx) \<notin> set (map ev_id (turn_ledger ctx body xs))"
    using assms(1) by (auto simp: turn_ledger_def)
  then show ?thesis
    unfolding proper_next_def mapped_tool_facts
    using assms(2-4) turn_call[of _ xs _ _ ctx body]
    by (auto simp: turn_speaks split: option.split)
qed

lemma turn_proper:
  "stream_phase xs \<noteq> None \<Longrightarrow> distinct (call_ids xs) \<Longrightarrow>
   distinct ((ctx_invocation_id ctx @ ''-user'') # map se_id xs) \<Longrightarrow> proper_ledger (turn_ledger ctx body xs)"
proof (induction xs rule: rev_induct)
  case Nil
  show ?case by (simp add: turn_ledger_def proper_ledger_def proper_next_def)
next
  case (snoc se xs)
  then obtain p where p: "stream_phase xs = Some p" using stream_phase_prefix by fastforce
  from snoc.prems p have f: "phase_facts p xs" by (simp add: stream_phase_facts)
  have step: "phase_step (Some p) se \<noteq> None" using snoc.prems(1) p by (simp add: stream_phase_snoc)
  have "proper_next (turn_ledger ctx body xs) (map_session_event se ctx)"
  proof (rule proper_next_mapped)
    show "se_id se \<notin> set ((ctx_invocation_id ctx @ ''-user'') # map se_id xs)" using snoc.prems(3) by auto
    show "c \<notin> set (call_ids xs)" if "se_call se = Some (c, n)" for c n using snoc.prems(2) that by simp
    show "c \<notin> result_ids xs \<and> (\<exists>s \<in> set xs. se_call s = Some (c, n))" if "se_result se = Some (c, n)" for c n
    proof -
      from that step have "p = Dispatched c n"
        by (cases se; cases p) (simp_all add: phase_step_def split: if_splits)
      with f show ?thesis by auto
    qed
    show "c \<in> set (call_ids xs) \<and> c \<notin> dispatch_ids xs" if "se_dispatch se = Some (c, q)" for c q
    proof -
      from that step obtain n where "p = Called c n"
        by (cases se; cases p) (simp_all add: phase_step_def split: if_splits)
      with f show ?thesis by auto
    qed
  qed
  with snoc p show ?case by (simp add: turn_ledger_snoc proper_snoc)
qed

lemma turn_plan:
  assumes "stream_phase xs \<noteq> None" and "distinct (call_ids xs)"
    and "distinct ((ctx_invocation_id ctx @ ''-user'') # map se_id xs)"
  shows "proper_ledger (turn_ledger ctx body xs) \<and>
    (rs_plan (resolve_recovery (turn_ledger ctx body xs)) = Blocked \<longleftrightarrow> in_flight xs)"
proof -
  from assms(1) obtain p where "stream_phase xs = Some p" by blast
  from stream_phase_facts[OF this assms(2)] have f: "phase_facts p xs" .
  have pr: "proper_ledger (turn_ledger ctx body xs)" by (rule turn_proper[OF assms])
  have "rs_plan (resolve_recovery (turn_ledger ctx body xs)) = Blocked \<longleftrightarrow>
      (\<exists>c \<in> set (call_ids xs). c \<notin> result_ids xs \<and> c \<in> dispatch_ids xs)"
    unfolding plan_of_proper[OF pr turn_no_facts] turn_speaks by (auto simp: turn_t1)
  with f pr show ?thesis by (cases p) auto
qed

subsection \<open>The agent loop follows the protocol\<close>

lemma trace_phase: "agent_trace sha256 json_text c nb n m xs \<Longrightarrow> stream_phase xs = Some Idle"
  by (induction rule: agent_trace.induct) (simp_all add: stream_phase_def phase_step_def)

lemma aimux_id_eq [simp]: "aimux_id j = aimux_id k \<longleftrightarrow> j = k"
  by (simp add: aimux_id_def)

lemma aimux_id_prefix: "prefix ''aimux-'' (aimux_id j @ suf)"
  by (simp add: aimux_id_def)

lemma show_nat_no_dash: "CHR ''-'' \<notin> set (show_nat n)"
  using show_nat_digits[of "CHR ''-''" n] by auto

lemma aimux_id_fresh:
  assumes "S \<subseteq> set ids \<union> aimux_id ` {..m}" and "\<forall>i \<in> set ids. \<not> prefix ''aimux-'' i" and "m < j"
  shows "aimux_id j \<notin> S"
proof
  assume "aimux_id j \<in> S"
  with assms(1) have "aimux_id j \<in> set ids \<or> j \<le> m" by auto
  with assms(2,3) aimux_id_prefix[of j "[]"] show False by auto
qed

lemma trace_ids:
  assumes "agent_trace sha256 json_text c nb n m xs"
    and "distinct (call_ids xs)" and "\<forall>i \<in> set (call_ids xs). \<not> prefix ''aimux-'' i"
  shows "distinct (map se_id xs) \<and> set (map se_id xs) \<subseteq> set (call_ids xs) \<union> aimux_id ` {..m}"
  using assms
proof (induction rule: agent_trace.induct)
  case (trace_call m xs tc body is_err)
  then have IH: "distinct (map se_id xs)" "set (map se_id xs) \<subseteq> set (call_ids xs) \<union> aimux_id ` {..m}"
    and new: "atc_id tc \<notin> set (call_ids xs)" by auto
  note fresh = aimux_id_fresh[OF IH(2)]
  have tc: "atc_id tc \<noteq> aimux_id j" for j using trace_call.prems(2) aimux_id_prefix[of j "[]"] by auto
  have "atc_id tc \<notin> set (call_ids xs) \<union> aimux_id ` {..m}" using new tc by auto
  with IH(2) have "atc_id tc \<notin> set (map se_id xs)" by blast
  moreover have "aimux_id (Suc (Suc m)) \<notin> set (map se_id xs)" "aimux_id (Suc (Suc (Suc m))) \<notin> set (map se_id xs)"
    using trace_call.prems(2) by (intro fresh; simp)+
  moreover note IH tc[of "Suc (Suc m)"] tc[of "Suc (Suc (Suc m))"]
  ultimately show ?case by (auto dest: subsetD)
next
  case (trace_text m xs d i)
  then have IH: "distinct (map se_id xs)" "set (map se_id xs) \<subseteq> set (call_ids xs) \<union> aimux_id ` {..m}" by auto
  with aimux_id_fresh[OF IH(2), of "Suc m"] trace_text.prems show ?case by (auto dest: subsetD)
next
  case (trace_thinking m xs i d)
  then have IH: "distinct (map se_id xs)" "set (map se_id xs) \<subseteq> set (call_ids xs) \<union> aimux_id ` {..m}" by auto
  with aimux_id_fresh[OF IH(2), of "Suc m"] trace_thinking.prems show ?case by (auto dest: subsetD)
next
  case (trace_thought m xs i d sig)
  then have IH: "distinct (map se_id xs)" "set (map se_id xs) \<subseteq> set (call_ids xs) \<union> aimux_id ` {..m}" by auto
  with aimux_id_fresh[OF IH(2), of "Suc m"] trace_thought.prems show ?case by (auto dest: subsetD)
qed simp

lemma closing_facts:
  assumes "closing_event t m se"
  shows "se_call se = None \<and> se_result se = None \<and> se_dispatch se = None \<and>
    (\<exists>suf. se_id se = aimux_id m @ suf \<and> (suf = [] \<or> hd suf = CHR ''-''))"
  using assms by (auto simp: closing_event_def done_event_def err_event_def abort_event_def)

text \<open>
  The provider's tool call ids of a run: pairwise distinct, and none looks like an id of the agent
  loop's own events (\<open>aimux-N\<close>) or of a user event (\<open>inv-N-user\<close>).
\<close>

definition provider_ids_ok :: "session_event list \<Rightarrow> bool" where
  "provider_ids_ok xs \<longleftrightarrow> distinct (call_ids xs) \<and>
     list_all (\<lambda>i. \<not> prefix ''aimux-'' i \<and> \<not> prefix ''inv-'' i) (call_ids xs)"

lemma agent_stream_ok:
  assumes "provider_ids_ok (ag_events (agent_send sha256 json_text cancelled provider c counter w inp))"
    and "prefix ''inv-'' (ctx_invocation_id ctx)"
  defines "xs \<equiv> ag_events (agent_send sha256 json_text cancelled provider c counter w inp)"
  shows "stream_phase xs = Some Idle" "distinct (call_ids xs)"
    "distinct ((ctx_invocation_id ctx @ ''-user'') # map se_id xs)"
proof -
  obtain ys t m c' where ys: "xs = ys @ [t]" "agent_trace sha256 json_text c' False counter m ys"
    "closing_event (in_turn_id inp) (Suc m) t"
    unfolding xs_def
    by (rule agent_send_trace[of False provider sha256 json_text cancelled c counter w inp]) blast+
  note t = closing_facts[OF ys(3)]
  show "stream_phase xs = Some Idle"
    using trace_phase[OF ys(2)] t by (simp add: ys(1) stream_phase_snoc phase_step_quiet)
  have ids: "call_ids xs = call_ids ys" using t by (simp add: ys(1))
  with assms(1) have d: "distinct (call_ids ys)" "\<forall>i \<in> set (call_ids ys). \<not> prefix ''aimux-'' i \<and> \<not> prefix ''inv-'' i"
    unfolding provider_ids_ok_def xs_def[symmetric] by (auto simp: list_all_iff)
  with ids show "distinct (call_ids xs)" by simp
  from d(2) have "\<forall>i \<in> set (call_ids ys). \<not> prefix ''aimux-'' i" by blast
  from trace_ids[OF ys(2) d(1) this] have i: "distinct (map se_id ys)"
    "set (map se_id ys) \<subseteq> set (call_ids ys) \<union> aimux_id ` {..m}" by blast+
  obtain suf where suf: "se_id t = aimux_id (Suc m) @ suf" "suf = [] \<or> hd suf = CHR ''-''" using t by blast
  have "se_id t \<notin> aimux_id ` {..m}"
  proof
    assume "se_id t \<in> aimux_id ` {..m}"
    then obtain j where j: "j \<le> m" "show_nat j = show_nat (Suc m) @ suf" using suf(1) by (auto simp: aimux_id_def)
    with show_nat_no_dash[of j] suf(2) show False by (cases suf) auto
  qed
  moreover have "se_id t \<notin> set (call_ids ys)" using d(2) aimux_id_prefix suf(1) by metis
  ultimately have "se_id t \<notin> set (map se_id ys)" using i(2) by blast
  moreover obtain rest where rest: "ctx_invocation_id ctx @ ''-user'' = ''inv-'' @ rest"
    using assms(2) by (auto simp: prefix_def)
  have "''inv-'' @ rest \<notin> set (call_ids ys) \<union> aimux_id ` {..m}" using d(2) by (auto simp: aimux_id_def)
  with i(2) have "''inv-'' @ rest \<notin> set (map se_id ys)" by blast
  then have "''inv-'' @ rest \<notin> set (map se_id xs)" using suf(1) by (simp add: ys(1) aimux_id_def)
  ultimately show "distinct ((ctx_invocation_id ctx @ ''-user'') # map se_id xs)"
    unfolding rest using i(1) by (simp add: ys(1))
qed

lemma distinct_take: "distinct (call_ids xs) \<Longrightarrow> distinct (call_ids (take k xs))"
  by (metis append_take_drop_id call_ids_simps(2) distinct_append)

text \<open>
  C1. Crash safety of a turn.  Wherever the ledger of an agent run is cut, what is left
  is a proper ledger, and the plan is exact for the cut: recovery blocks if and only if the
  last tool call was dispatched and its result is missing, and replays everything else.
\<close>

theorem crash_anywhere:
  assumes "provider_ids_ok (ag_events (agent_send sha256 json_text cancelled provider c counter w inp))"
    and "starts_with (ctx_invocation_id ctx) ''inv-''"
  shows "let xs = take k (ag_events (agent_send sha256 json_text cancelled provider c counter w inp));
             es = user_event ctx body # map (\<lambda>se. map_session_event se ctx) xs
         in \<not> sr_has_corruption (scan_tool_ledger es) \<and>
            rs_plan (resolve_recovery es) = (if in_flight xs then Blocked else SafeReplay)"
proof -
  let ?xs = "ag_events (agent_send sha256 json_text cancelled provider c counter w inp)"
  note ok = agent_stream_ok[OF assms]
  have "stream_phase (take k ?xs) \<noteq> None"
    using stream_phase_prefix[of "take k ?xs" "drop k ?xs"] ok(1) by simp
  moreover have "distinct ((ctx_invocation_id ctx @ ''-user'') # map se_id (take k ?xs))"
    using ok(3) by (auto simp: take_map[symmetric] dest: in_set_takeD)
  ultimately have "proper_ledger (turn_ledger ctx body (take k ?xs)) \<and>
      (rs_plan (resolve_recovery (turn_ledger ctx body (take k ?xs))) = Blocked \<longleftrightarrow> in_flight (take k ?xs))"
    by (intro turn_plan distinct_take ok(2))
  then show ?thesis
    by (cases "rs_plan (resolve_recovery (turn_ledger ctx body (take k ?xs)))")
      (auto simp: Let_def turn_ledger_def proper_iff_no_issues scan_tool_ledger_def)
qed

abbreviation sample_run :: agent_state where
  "sample_run \<equiv> agent_send (\<lambda>_. []) (\<lambda>_. []) (\<lambda>_. False) sample_provider sample_config 0 sample_world sample_input"

lemma sample_run_calls: "call_ids (ag_events sample_run) = [''c1'']"
  by code_simp

lemma sample_run_flight: "in_flight (take 3 (ag_events sample_run)) \<and> \<not> in_flight (take 4 (ag_events sample_run))"
  by code_simp

theorem crash_anywhere_witness:
  "let ledger = \<lambda>k. user_event (sample_ctx\<lparr>ctx_invocation_id := ''inv-1''\<rparr>) ''go'' #
      map (\<lambda>se. map_session_event se (sample_ctx\<lparr>ctx_invocation_id := ''inv-1''\<rparr>)) (take k (ag_events sample_run))
   in rs_plan (resolve_recovery (ledger 3)) = Blocked \<and> rs_plan (resolve_recovery (ledger 4)) = SafeReplay"
proof -
  have ok: "provider_ids_ok (ag_events sample_run)" by (simp add: provider_ids_ok_def sample_run_calls)
  have i: "starts_with (ctx_invocation_id (sample_ctx\<lparr>ctx_invocation_id := ''inv-1''\<rparr>)) ''inv-''" by simp
  show ?thesis
    using crash_anywhere[OF ok i, of 3 "''go''"] crash_anywhere[OF ok i, of 4 "''go''"] sample_run_flight
    by (simp add: Let_def)
qed

end
