(* ===== verification/Store.thy ===== *)
theory Store
  imports Events
begin

text \<open>
  The runtime event store port and its in-memory implementation
  (\<^verbatim>\<open>meepo-core/src/store.rs\<close>).  The port is the locale
  \<open>runtime_event_store\<close>: the operations a runner calls and the laws it relies on, with
  the terminal-event invariant proved from the laws.  A store may reject an append
  (\<open>fits\<close> says which events a store accepts for a run); the SQLite store of theory
  \<open>Sqlite_Events\<close> interprets the same locale.
\<close>

datatype durability = BestEffort | Canonical

subsection \<open>The port\<close>

definition has_terminal :: "runtime_event list \<Rightarrow> bool" where
  "has_terminal es = list_ex ev_terminal es"

definition terminal_count :: "runtime_event list \<Rightarrow> nat" where
  "terminal_count es = length (filter ev_terminal es)"

lemma has_terminal_simps [simp]:
  "has_terminal [] = False"
  "has_terminal (e # es) \<longleftrightarrow> ev_terminal e \<or> has_terminal es"
  "has_terminal (es @ fs) \<longleftrightarrow> has_terminal es \<or> has_terminal fs"
  by (simp_all add: has_terminal_def)

lemma terminal_count_simps [simp]:
  "terminal_count [] = 0"
  "terminal_count (e # es) = (if ev_terminal e then Suc (terminal_count es) else terminal_count es)"
  "terminal_count (es @ fs) = terminal_count es + terminal_count fs"
  by (simp_all add: terminal_count_def)

lemma terminal_count_0: "\<not> has_terminal es \<Longrightarrow> terminal_count es = 0"
  by (induction es) auto

locale runtime_event_store =
  fixes append_ev :: "string \<Rightarrow> string \<Rightarrow> runtime_event \<Rightarrow> 's \<Rightarrow> ('s, string) result"
    and ensure_terminal :: "string \<Rightarrow> string \<Rightarrow> runtime_event \<Rightarrow> 's \<Rightarrow> ('s, string) result"
    and read_run :: "string \<Rightarrow> string \<Rightarrow> 's \<Rightarrow> (runtime_event list, string) result"
    and wf :: "'s \<Rightarrow> bool"
    and fits :: "string \<Rightarrow> string \<Rightarrow> runtime_event \<Rightarrow> 's \<Rightarrow> bool"
  assumes read_ok: "wf s \<Longrightarrow> \<exists>es. read_run sid rid s = Ok es"
    and append_ok: "wf s \<Longrightarrow> fits sid rid e s \<Longrightarrow> \<exists>s'. append_ev sid rid e s = Ok s' \<and> wf s'"
    and append_read: "wf s \<Longrightarrow> fits sid rid e s \<Longrightarrow> append_ev sid rid e s = Ok s' \<Longrightarrow>
      read_run sid rid s = Ok es \<Longrightarrow> read_run sid rid s' = Ok (es @ [e])"
    and append_frame: "wf s \<Longrightarrow> fits sid rid e s \<Longrightarrow> append_ev sid rid e s = Ok s' \<Longrightarrow>
      (sid', rid') \<noteq> (sid, rid) \<Longrightarrow> read_run sid' rid' s' = read_run sid' rid' s"
    and ensure_present: "wf s \<Longrightarrow> read_run sid rid s = Ok es \<Longrightarrow> has_terminal es \<Longrightarrow>
      ensure_terminal sid rid e s = Ok s"
    and ensure_absent: "wf s \<Longrightarrow> read_run sid rid s = Ok es \<Longrightarrow> \<not> has_terminal es \<Longrightarrow>
      ensure_terminal sid rid e s = append_ev sid rid e s"
begin

text \<open>One run's events as the store reads them.\<close>

definition run_of :: "string \<Rightarrow> string \<Rightarrow> 's \<Rightarrow> runtime_event list" where
  "run_of sid rid s = (case read_run sid rid s of Ok es \<Rightarrow> es | Err _ \<Rightarrow> [])"

lemma run_of_read: "wf s \<Longrightarrow> read_run sid rid s = Ok (run_of sid rid s)"
  using read_ok[of s sid rid] by (auto simp: run_of_def)

lemma append_run:
  assumes "wf s" and "fits sid rid e s"
  obtains s' where "append_ev sid rid e s = Ok s'" "wf s'" "run_of sid rid s' = run_of sid rid s @ [e]"
    "\<And>sid' rid'. (sid', rid') \<noteq> (sid, rid) \<Longrightarrow> run_of sid' rid' s' = run_of sid' rid' s"
proof -
  from append_ok[OF assms] obtain s' where s': "append_ev sid rid e s = Ok s'" "wf s'" by blast
  show thesis
  proof (rule that[OF s'])
    show "run_of sid rid s' = run_of sid rid s @ [e]"
      using append_read[OF assms s'(1) run_of_read[OF assms(1)]] by (simp add: run_of_def)
    show "run_of sid' rid' s' = run_of sid' rid' s" if "(sid', rid') \<noteq> (sid, rid)" for sid' rid'
      using append_frame[OF assms s'(1) that] by (simp add: run_of_def)
  qed
qed

text \<open>Ensuring a terminal event leaves exactly the first one, however often it is called.\<close>

lemma ensure_run:
  assumes "wf s" and "fits sid rid t s" and "ev_terminal t"
  obtains s' where "ensure_terminal sid rid t s = Ok s'" "wf s'" "has_terminal (run_of sid rid s')"
    "run_of sid rid s' = (if has_terminal (run_of sid rid s) then run_of sid rid s else run_of sid rid s @ [t])"
    "\<And>sid' rid'. (sid', rid') \<noteq> (sid, rid) \<Longrightarrow> run_of sid' rid' s' = run_of sid' rid' s"
proof (cases "has_terminal (run_of sid rid s)")
  case True
  with ensure_present[OF assms(1) run_of_read[OF assms(1)], of sid rid t] assms(1) show thesis
    by (intro that) auto
next
  case False
  obtain s' where s': "append_ev sid rid t s = Ok s'" "wf s'" "run_of sid rid s' = run_of sid rid s @ [t]"
    "\<And>sid' rid'. (sid', rid') \<noteq> (sid, rid) \<Longrightarrow> run_of sid' rid' s' = run_of sid' rid' s"
    using append_run[OF assms(1,2)] by metis
  with ensure_absent[OF assms(1) run_of_read[OF assms(1)], of sid rid t] False assms(3) show thesis
    by (intro that[of s']) auto
qed

lemma ensure_idempotent:
  assumes "wf s" and "fits sid rid t s" and "ev_terminal t" and "ensure_terminal sid rid t s = Ok s'"
  shows "ensure_terminal sid rid t' s' = Ok s'"
proof -
  obtain s'' where "ensure_terminal sid rid t s = Ok s''" "wf s''" "has_terminal (run_of sid rid s'')"
    using ensure_run[OF assms(1-3)] by metis
  with assms(4) ensure_present[OF _ run_of_read, of s'' sid rid t'] show ?thesis by simp
qed

end

subsection \<open>The in-memory store\<close>

text \<open>
  \<open>mem_runs\<close> is the hash map from (session, run) to events, as an association list in the
  iteration order of the map.  \<open>read_session_runtime_events\<close> visits the entries in that
  order and sorts stably by event id; \<open>order\<close> stands for the hash map's own order.
\<close>

record mem_store =
  mem_durability :: durability
  mem_runs :: "((string \<times> string) \<times> runtime_event list) list"

definition mem_new :: "durability \<Rightarrow> mem_store" where
  "mem_new d = \<lparr>mem_durability = d, mem_runs = []\<rparr>"

definition mem_entry :: "string \<Rightarrow> string \<Rightarrow> mem_store \<Rightarrow> runtime_event list" where
  "mem_entry sid rid s = (case map_of (mem_runs s) (sid, rid) of Some es \<Rightarrow> es | None \<Rightarrow> [])"

definition mem_append :: "string \<Rightarrow> string \<Rightarrow> runtime_event \<Rightarrow> mem_store \<Rightarrow> (mem_store, string) result" where
  "mem_append sid rid e s =
     Ok (s\<lparr>mem_runs := assoc_set (sid, rid) (mem_entry sid rid s @ [e]) (mem_runs s)\<rparr>)"

definition mem_ensure_terminal ::
    "string \<Rightarrow> string \<Rightarrow> runtime_event \<Rightarrow> mem_store \<Rightarrow> (mem_store, string) result" where
  "mem_ensure_terminal sid rid e s =
     (let entry = mem_entry sid rid s;
          entry' = (if has_terminal entry then entry else entry @ [e])
      in Ok (s\<lparr>mem_runs := assoc_set (sid, rid) entry' (mem_runs s)\<rparr>))"

definition mem_read_run :: "string \<Rightarrow> string \<Rightarrow> mem_store \<Rightarrow> (runtime_event list, string) result" where
  "mem_read_run sid rid s = Ok (mem_entry sid rid s)"

definition mem_read_session ::
    "(((string \<times> string) \<times> runtime_event list) list \<Rightarrow> ((string \<times> string) \<times> runtime_event list) list) \<Rightarrow>
     string \<Rightarrow> mem_store \<Rightarrow> (runtime_event list, string) result" where
  "mem_read_session order sid s =
     Ok (sort_key ev_id (concat (map snd (filter (\<lambda>((sid', _), _). sid' = sid) (order (mem_runs s))))))"

lemma assoc_set_same: "map_of m k = Some v \<Longrightarrow> assoc_set k v m = m"
  by (induction m) auto

lemma mem_entry_set:
  "mem_entry sid' rid' (s\<lparr>mem_runs := assoc_set (sid, rid) es (mem_runs s)\<rparr>) =
     (if (sid', rid') = (sid, rid) then es else mem_entry sid' rid' s)"
  by (simp add: mem_entry_def)

interpretation mem: runtime_event_store mem_append mem_ensure_terminal mem_read_run
  "\<lambda>_. True" "\<lambda>_ _ _ _. True"
proof unfold_locales
  show "mem_ensure_terminal sid rid e s = Ok s"
    if "mem_read_run sid rid s = Ok es" "has_terminal es" for s sid rid es e
  proof -
    from that have "map_of (mem_runs s) (sid, rid) = Some es"
      by (auto simp: mem_read_run_def mem_entry_def split: option.splits)
    with that show ?thesis
      by (simp add: mem_ensure_terminal_def mem_read_run_def mem_entry_def assoc_set_same)
  qed
  show "mem_ensure_terminal sid rid e s = mem_append sid rid e s"
    if "mem_read_run sid rid s = Ok es" "\<not> has_terminal es" for s sid rid es e
    using that by (simp add: mem_ensure_terminal_def mem_append_def mem_read_run_def)
qed (auto simp: mem_append_def mem_read_run_def mem_entry_set)

text \<open>
  However often the in-memory store is asked to ensure a terminal event of a
  run, and with whatever events, the run keeps its first terminal event and nothing is added
  after it; the other runs keep their events.
\<close>

lemma mem_terminal_once:
  assumes "ev_terminal t" and "mem_ensure_terminal sid rid t s = Ok s1"
  shows "mem_ensure_terminal sid rid t' s1 = Ok s1 \<and>
    mem_read_run sid rid s1 = Ok (if has_terminal (mem_entry sid rid s) then mem_entry sid rid s
                                  else mem_entry sid rid s @ [t]) \<and>
    ((sid', rid') \<noteq> (sid, rid) \<longrightarrow> mem_read_run sid' rid' s1 = mem_read_run sid' rid' s)"
proof (intro conjI impI)
  show "mem_ensure_terminal sid rid t' s1 = Ok s1"
    by (rule mem.ensure_idempotent[OF TrueI TrueI assms])
  have run: "mem.run_of sid rid x = mem_entry sid rid x" for sid rid x
    by (simp add: mem.run_of_def mem_read_run_def)
  obtain s2 where "mem_ensure_terminal sid rid t s = Ok s2"
    "mem.run_of sid rid s2 = (if has_terminal (mem.run_of sid rid s) then mem.run_of sid rid s
       else mem.run_of sid rid s @ [t])"
    and f: "\<And>sid' rid'. (sid', rid') \<noteq> (sid, rid) \<Longrightarrow> mem.run_of sid' rid' s2 = mem.run_of sid' rid' s"
    using mem.ensure_run[OF TrueI TrueI assms(1)] by metis
  with assms(2) show "mem_read_run sid rid s1 = Ok (if has_terminal (mem_entry sid rid s)
      then mem_entry sid rid s else mem_entry sid rid s @ [t])"
    and "(sid', rid') \<noteq> (sid, rid) \<Longrightarrow> mem_read_run sid' rid' s1 = mem_read_run sid' rid' s"
    by (simp_all add: run mem_read_run_def)
qed

lemma mem_terminal_once_witness:
  "\<exists>s1. mem_ensure_terminal ''s'' ''r'' (sample_response\<lparr>ev_status := Some Status_Failed\<rparr>) (mem_new BestEffort) = Ok s1 \<and>
     mem_ensure_terminal ''s'' ''r'' sample_call s1 = Ok s1"
proof -
  let ?t = "sample_response\<lparr>ev_status := Some Status_Failed\<rparr>"
  obtain s1 where s1: "mem_ensure_terminal ''s'' ''r'' ?t (mem_new BestEffort) = Ok s1"
    by (simp add: mem_ensure_terminal_def Let_def)
  have "ev_terminal ?t" by (simp add: ev_terminal_def)
  from mem_terminal_once[OF this s1] s1 show ?thesis by blast
qed

text \<open>
  The session read: with distinct event ids it is the same list whatever order the hash map
  iterates in.
\<close>

text \<open>
  When the session's events have distinct ids, reading the
  session does not depend on the hash map's iteration order.
\<close>

lemma mem_session_read_deterministic:
  assumes "mset (order (mem_runs s)) = mset (mem_runs s)"
    and "distinct (map ev_id (concat (map snd (filter (\<lambda>((sid', _), _). sid' = sid) (mem_runs s)))))"
  shows "mem_read_session order sid s = mem_read_session (\<lambda>x. x) sid s"
proof -
  let ?own = "\<lambda>rs. concat (map snd (filter (\<lambda>((sid', _), _). sid' = sid) rs))"
  have "mset (?own (order (mem_runs s))) = mset (?own (mem_runs s))"
    using assms(1) by (simp add: mset_concat image_mset.compositionality flip: sum_mset_sum_list)
  from sort_key_unique[OF this[symmetric] assms(2)] show ?thesis
    by (simp add: mem_read_session_def)
qed

lemma mem_session_read_deterministic_witness:
  "mem_read_session rev ''s'' \<lparr>mem_durability = BestEffort,
      mem_runs = [((''s'', ''r1''), [sample_response]), ((''s'', ''r2''), [sample_call])]\<rparr> =
   Ok [sample_call, sample_response]"
  using mem_session_read_deterministic[of rev "\<lparr>mem_durability = BestEffort,
      mem_runs = [((''s'', ''r1''), [sample_response]), ((''s'', ''r2''), [sample_call])]\<rparr>" "''s''"]
  by (simp add: mem_read_session_def sample_response_def sample_call_def sample_event_def) 

text \<open>
  The session read is not in commit order, as the port
  promises: ids are compared as strings, so the tenth event of a run comes before its second.
\<close>

lemma mem_session_read_not_commit_order:
  "\<exists>s. mem_append ''s'' ''r'' (sample_call\<lparr>ev_id := ''e2''\<rparr>) (mem_new BestEffort) = Ok s \<and>
     (\<exists>s'. mem_append ''s'' ''r'' (sample_response\<lparr>ev_id := ''e10''\<rparr>) s = Ok s' \<and>
        mem_read_run ''s'' ''r'' s' = Ok [sample_call\<lparr>ev_id := ''e2''\<rparr>, sample_response\<lparr>ev_id := ''e10''\<rparr>] \<and>
        mem_read_session (\<lambda>x. x) ''s'' s' = Ok [sample_response\<lparr>ev_id := ''e10''\<rparr>, sample_call\<lparr>ev_id := ''e2''\<rparr>])"
  by (simp add: mem_append_def mem_new_def mem_entry_def mem_read_run_def mem_read_session_def)

end
