(* ===== verification/Session_Manager.thy ===== *)
theory Session_Manager
  imports Runner Recovery Store
begin

text \<open>
  The session manager (\<^verbatim>\<open>meepo-runtime/src/session.rs\<close>): admission, one turn
  from start to the durable terminal event, and resume.  A turn writes through the operations
  of a runtime event store, which are arguments here; what the turn leaves in the store is
  proved once for every store, inside the locale \<open>runtime_event_store\<close>.
\<close>

datatype session_status = Session_WaitingForUser | Session_Running | Session_Done | Session_Aborted

record session_manager =
  sm_session_id :: string
  sm_status :: session_status
  sm_messages :: "chat_message list"
  sm_compact_summary :: "string option"
  sm_recovery_needed :: bool

record turn_result =
  tr_status :: run_status
  tr_messages :: "chat_message list"
  tr_events :: "runtime_event list"
  tr_compact_summary :: "string option"

definition session_new :: "string \<Rightarrow> session_manager" where
  "session_new sid = \<lparr>sm_session_id = sid, sm_status = Session_WaitingForUser, sm_messages = [],
     sm_compact_summary = None, sm_recovery_needed = False\<rparr>"

definition session_resume ::
    "(json \<Rightarrow> string) \<Rightarrow> (string \<Rightarrow> (runtime_event list, string) result) \<Rightarrow> string \<Rightarrow> session_manager" where
  "session_resume json_text read_session sid =
     (let events = (case read_session sid of Ok es \<Rightarrow> es | Err _ \<Rightarrow> []) in
      \<lparr>sm_session_id = sid, sm_status = Session_WaitingForUser,
       sm_messages = messages_from_runtime_events json_text events,
       sm_compact_summary = None,
       sm_recovery_needed = (rs_plan (resolve_recovery events) = Blocked)\<rparr>)"

definition start_turn ::
    "session_manager \<Rightarrow> string \<Rightarrow> string option \<Rightarrow> json list \<Rightarrow>
     session_manager \<times> invocation_context \<times> backend_send_input" where
  "start_turn m user_message system_prompt tools =
     (let m' = m\<lparr>sm_status := Session_Running, sm_messages := sm_messages m @ [User_Msg user_message]\<rparr>;
          n = show_nat (length (sm_messages m'));
          ctx = \<lparr>ctx_session_id = sm_session_id m, ctx_run_id = ''run-'' @ n,
                 ctx_invocation_id = ''inv-'' @ n, ctx_turn_id = ''turn-'' @ n\<rparr>;
          inp = \<lparr>in_turn_id = ctx_turn_id ctx, in_run_id = Some (ctx_run_id ctx),
                 in_invocation_id = Some (ctx_invocation_id ctx), in_max_steps = None,
                 in_messages = sm_messages m', in_system_prompt = system_prompt, in_tools = tools\<rparr>
      in (m', ctx, inp))"

text \<open>Append a turn's events one by one; \<^verbatim>\<open>let _ =\<close> drops a failure and goes on.\<close>

definition keep_going :: "'s \<Rightarrow> ('s, string) result \<Rightarrow> 's" where
  "keep_going s r = (case r of Ok s' \<Rightarrow> s' | Err _ \<Rightarrow> s)"

definition persist_events ::
    "(string \<Rightarrow> string \<Rightarrow> runtime_event \<Rightarrow> 's \<Rightarrow> ('s, string) result) \<Rightarrow>
     string \<Rightarrow> string \<Rightarrow> runtime_event list \<Rightarrow> 's \<Rightarrow> 's" where
  "persist_events append_ev sid rid events s =
     foldl (\<lambda>s e. keep_going s (append_ev sid rid e s)) s events"

definition finalize_turn ::
    "(string \<Rightarrow> string \<Rightarrow> runtime_event \<Rightarrow> 's \<Rightarrow> ('s, string) result) \<Rightarrow>
     (string \<Rightarrow> string \<Rightarrow> runtime_event \<Rightarrow> 's \<Rightarrow> ('s, string) result) \<Rightarrow>
     session_manager \<Rightarrow> 's \<Rightarrow> string \<Rightarrow> runtime_event \<Rightarrow> runtime_event list \<Rightarrow>
     chat_message list \<Rightarrow> string option \<Rightarrow> run_status \<Rightarrow> session_manager \<times> 's \<times> turn_result" where
  "finalize_turn append_ev ensure_terminal m s run_id terminal events messages compact_summary st =
     (let s1 = persist_events append_ev (sm_session_id m) run_id events s;
          s2 = keep_going s1 (ensure_terminal (sm_session_id m) run_id terminal s1);
          status1 = (case st of Run_Completed \<Rightarrow> Session_Done
                     | Run_Failed \<Rightarrow> Session_Aborted | Run_Aborted \<Rightarrow> Session_Aborted);
          status2 = (if status1 = Session_Done then Session_WaitingForUser else status1)
      in (m\<lparr>sm_messages := messages, sm_compact_summary := compact_summary, sm_status := status2\<rparr>, s2,
          \<lparr>tr_status = st, tr_messages = messages, tr_events = events, tr_compact_summary = compact_summary\<rparr>))"

definition send_turn ::
    "(json \<Rightarrow> string) \<Rightarrow> (chat_message list \<Rightarrow> (string, string) result) \<Rightarrow>
     (backend_send_input \<Rightarrow> session_event list) \<Rightarrow>
     (string \<Rightarrow> string \<Rightarrow> runtime_event \<Rightarrow> 's \<Rightarrow> ('s, string) result) \<Rightarrow>
     (string \<Rightarrow> string \<Rightarrow> runtime_event \<Rightarrow> 's \<Rightarrow> ('s, string) result) \<Rightarrow>
     session_manager \<Rightarrow> 's \<Rightarrow> string \<Rightarrow> string option \<Rightarrow> json list \<Rightarrow>
     (session_manager \<times> 's \<times> turn_result) option" where
  "send_turn json_text compact send append_ev ensure_terminal m s user_message system_prompt tools =
     (if sm_status m = Session_Running
      then Some (m, s, \<lparr>tr_status = Run_Failed, tr_messages = sm_messages m, tr_events = [],
                        tr_compact_summary = sm_compact_summary m\<rparr>)
      else
        let (m', ctx, inp) = start_turn m user_message system_prompt tools in
        case runner_run json_text compact send ctx inp (sm_compact_summary m) of
          None \<Rightarrow> None
        | Some r \<Rightarrow>
            Some (finalize_turn append_ev ensure_terminal m' s (ctx_run_id ctx) (rr_terminal r)
                    (rr_events r) (rr_messages r) (rr_compact_summary r) (rr_status r)))"

subsection \<open>What a turn leaves in any store\<close>

context runtime_event_store
begin

text \<open>Every event of the list is accepted at its place.\<close>

fun fits_all :: "string \<Rightarrow> string \<Rightarrow> runtime_event list \<Rightarrow> 's \<Rightarrow> bool" where
  "fits_all sid rid [] s = True"
| "fits_all sid rid (e # es) s =
     (fits sid rid e s \<and> fits_all sid rid es (keep_going s (append_ev sid rid e s)))"

lemma persist_run:
  "wf s \<Longrightarrow> fits_all sid rid es s \<Longrightarrow>
     wf (persist_events append_ev sid rid es s) \<and>
     run_of sid rid (persist_events append_ev sid rid es s) = run_of sid rid s @ es \<and>
     ((sid', rid') \<noteq> (sid, rid) \<longrightarrow>
        run_of sid' rid' (persist_events append_ev sid rid es s) = run_of sid' rid' s)"
proof (induction es arbitrary: s)
  case (Cons e es)
  from Cons.prems have "fits sid rid e s" by simp
  from append_run[OF Cons.prems(1) this] obtain s' where s': "append_ev sid rid e s = Ok s'" "wf s'"
    "run_of sid rid s' = run_of sid rid s @ [e]"
    "(sid', rid') \<noteq> (sid, rid) \<Longrightarrow> run_of sid' rid' s' = run_of sid' rid' s" by metis
  from s'(1) have k: "keep_going s (append_ev sid rid e s) = s'" by (simp add: keep_going_def)
  from Cons.prems(2) k have "fits_all sid rid es s'" by simp
  from Cons.IH[OF s'(2) this] s' k show ?case by (simp add: persist_events_def)
qed (simp add: persist_events_def)

lemma finalize_run:
  assumes "wf s" and "fits_all (sm_session_id m) rid (es @ [t]) s" and "ev_terminal t"
    and "finalize_turn append_ev ensure_terminal m s rid t es ms cs st = (m', s', r)"
  shows "run_of (sm_session_id m) rid s' = run_of (sm_session_id m) rid s @ es @
      (if has_terminal (run_of (sm_session_id m) rid s @ es) then [] else [t])"
    and "(sid', rid') \<noteq> (sm_session_id m, rid) \<Longrightarrow> run_of sid' rid' s' = run_of sid' rid' s"
    and "wf s'"
proof -
  let ?sid = "sm_session_id m"
  let ?s1 = "persist_events append_ev ?sid rid es s"
  have split: "fits_all ?sid rid (es @ [t]) x \<Longrightarrow>
      fits_all ?sid rid es x \<and> fits ?sid rid t (persist_events append_ev ?sid rid es x)" for x
    by (induction es arbitrary: x) (auto simp: persist_events_def)
  from split[OF assms(2)] have f: "fits_all ?sid rid es s" "fits ?sid rid t ?s1" by blast+
  from persist_run[OF assms(1) f(1)] have p: "wf ?s1" "run_of ?sid rid ?s1 = run_of ?sid rid s @ es"
    "(sid', rid') \<noteq> (?sid, rid) \<Longrightarrow> run_of sid' rid' ?s1 = run_of sid' rid' s" by blast+
  from ensure_run[OF p(1) f(2) assms(3)] obtain s2 where s2: "ensure_terminal ?sid rid t ?s1 = Ok s2" "wf s2"
    "run_of ?sid rid s2 = (if has_terminal (run_of ?sid rid ?s1) then run_of ?sid rid ?s1 else run_of ?sid rid ?s1 @ [t])"
    "(sid', rid') \<noteq> (?sid, rid) \<Longrightarrow> run_of sid' rid' s2 = run_of sid' rid' ?s1" by metis
  from assms(4) s2(1) have "s' = s2" by (simp add: finalize_turn_def Let_def keep_going_def)
  with p s2 show "run_of ?sid rid s' = run_of ?sid rid s @ es @
      (if has_terminal (run_of ?sid rid s @ es) then [] else [t])"
    and "(sid', rid') \<noteq> (?sid, rid) \<Longrightarrow> run_of sid' rid' s' = run_of sid' rid' s" and "wf s'"
    by simp_all
qed

lemma finalize_one_terminal:
  assumes "wf s" and "fits_all (sm_session_id m) rid (es @ [t]) s" and "ev_terminal t"
    and "finalize_turn append_ev ensure_terminal m s rid t es ms cs st = (m', s', r)"
    and "run_of (sm_session_id m) rid s = []" and "terminal_count es \<le> 1"
  shows "terminal_count (run_of (sm_session_id m) rid s') = 1"
proof (cases "has_terminal es")
  case True
  then have "terminal_count es \<noteq> 0" by (induction es) auto
  with True assms(6) finalize_run(1)[OF assms(1-4)] assms(5) show ?thesis by simp
next
  case False
  with finalize_run(1)[OF assms(1-4)] assms(3,5) terminal_count_0[OF False] show ?thesis by simp
qed

end

subsection \<open>The in-memory session\<close>

lemma mem_fits_all [simp]: "mem.fits_all sid rid es s"
  by (induction es arbitrary: s) auto

lemma mem_run_of [simp]: "mem.run_of sid rid s = mem_entry sid rid s"
  by (simp add: mem.run_of_def mem_read_run_def)

definition stream_of_turn ::
    "(json \<Rightarrow> string) \<Rightarrow> (chat_message list \<Rightarrow> (string, string) result) \<Rightarrow>
     (backend_send_input \<Rightarrow> session_event list) \<Rightarrow> session_manager \<Rightarrow> string \<Rightarrow> string option \<Rightarrow>
     json list \<Rightarrow> session_event list" where
  "stream_of_turn json_text compact send m user sys tools =
     (let inp = snd (snd (start_turn m user sys tools))
      in send (inp\<lparr>in_messages := cr_messages (compact_if_needed_rolling json_text compact
           (in_messages inp) (sm_compact_summary m))\<rparr>))"

lemma start_turn_simps [simp]:
  "fst (start_turn m user sys tools) =
     m\<lparr>sm_status := Session_Running, sm_messages := sm_messages m @ [User_Msg user]\<rparr>"
  "in_messages (snd (snd (start_turn m user sys tools))) = sm_messages m @ [User_Msg user]"
  "ctx_session_id (fst (snd (start_turn m user sys tools))) = sm_session_id m"
  "ctx_run_id (fst (snd (start_turn m user sys tools))) = ''run-'' @ show_nat (Suc (length (sm_messages m)))"
  "in_turn_id (snd (snd (start_turn m user sys tools))) = ''turn-'' @ show_nat (Suc (length (sm_messages m)))"
  by (simp_all add: start_turn_def Let_def)

lemma send_turn_running:
  "sm_status m = Session_Running \<Longrightarrow>
     send_turn json_text compact send append_ev ensure_terminal m s user sys tools =
       Some (m, s, \<lparr>tr_status = Run_Failed, tr_messages = sm_messages m, tr_events = [],
                    tr_compact_summary = sm_compact_summary m\<rparr>)"
  by (simp add: send_turn_def)

lemma send_turn_runs:
  assumes "sm_status m \<noteq> Session_Running"
  obtains r ue where
    "runner_run json_text compact send (fst (snd (start_turn m user sys tools)))
       (snd (snd (start_turn m user sys tools))) (sm_compact_summary m) = Some r"
    "ev_terminal (rr_terminal r)"
    "\<not> ev_terminal ue"
    "rr_events r = ue # map (\<lambda>se. map_session_event se (fst (snd (start_turn m user sys tools))))
         (stream_of_turn json_text compact send m user sys tools)"
    "send_turn json_text compact send append_ev ensure_terminal m s user sys tools =
       Some (finalize_turn append_ev ensure_terminal (fst (start_turn m user sys tools)) s
         (''run-'' @ show_nat (Suc (length (sm_messages m)))) (rr_terminal r) (rr_events r)
         (rr_messages r) (rr_compact_summary r) (rr_status r))"
proof -
  let ?ctx = "fst (snd (start_turn m user sys tools))" and ?inp = "snd (snd (start_turn m user sys tools))"
  obtain r where r: "runner_run json_text compact send ?ctx ?inp (sm_compact_summary m) = Some r"
    by (simp add: runner_run_eq Let_def)
  have ut: "user_turn ?ctx (in_messages ?inp) = [user_event ?ctx user]"
    by (simp add: user_turn_def)
  note t = runner_run_facts(1)[OF r]
  show thesis
  proof (rule that[OF r t])
    show "\<not> ev_terminal (user_event ?ctx user)"
      by (simp add: user_event_def ev_terminal_def)
    show "rr_events r = user_event ?ctx user # map (\<lambda>se. map_session_event se ?ctx)
         (stream_of_turn json_text compact send m user sys tools)"
      using runner_run_facts(2)[OF r] ut by (simp add: stream_of_turn_def Let_def)
    show "send_turn json_text compact send append_ev ensure_terminal m s user sys tools =
       Some (finalize_turn append_ev ensure_terminal (fst (start_turn m user sys tools)) s
         (''run-'' @ show_nat (Suc (length (sm_messages m)))) (rr_terminal r) (rr_events r)
         (rr_messages r) (rr_compact_summary r) (rr_status r))"
    proof -
      obtain m1 c1 i1 where e: "start_turn m user sys tools = (m1, c1, i1)" by (metis prod_cases3)
      have "ctx_run_id c1 = ''run-'' @ show_nat (Suc (length (sm_messages m)))"
        using start_turn_simps(4)[of m user sys tools] by (simp add: e)
      with assms r show ?thesis unfolding send_turn_def by (simp add: e)
    qed
  qed
qed

lemma send_turn_total:
  "\<exists>m' s' r. send_turn json_text compact send append_ev ensure_terminal m s user sys tools = Some (m', s', r)"
proof (cases "sm_status m = Session_Running")
  case False
  show ?thesis
    by (rule send_turn_runs[OF False, of json_text compact send user sys tools append_ev ensure_terminal s])
      (metis prod_cases3)
qed (simp add: send_turn_running)


lemma mem_new_entry: "mem_entry sid rid (mem_new d) = []"
  by (simp add: mem_entry_def mem_new_def)


subsection \<open>Identities of turns\<close>

text \<open>
  Turn, run and invocation ids number the messages a session holds,
  not its turns.  Compaction shrinks the messages, so after a compacted turn with a plain
  answer the next turn gets an id that is not larger than 9, however long the session is: an
  id of one of the session's first turns.
\<close>

lemma compacted_session_reuses_ids:
  assumes "sm_status m \<noteq> Session_Running"
    and "cr_summary (compact_if_needed_rolling json_text compact (sm_messages m @ [User_Msg user])
           (sm_compact_summary m)) \<noteq> None"
    and "send = (\<lambda>_. [SE_TextDelta i t z msg None body, SE_Complete i' t z' x])"
    and "send_turn json_text compact send append_ev ensure_terminal m s user sys tools = Some (m', s', r)"
  shows "\<exists>n \<le> 9.
    ctx_run_id (fst (snd (start_turn m' user' sys' tools'))) = ''run-'' @ show_nat n \<and>
    ctx_invocation_id (fst (snd (start_turn m' user' sys' tools'))) = ''inv-'' @ show_nat n"
proof -
  let ?ms = "sm_messages m @ [User_Msg user]"
  let ?c = "compact_if_needed_rolling json_text compact ?ms (sm_compact_summary m)"
  obtain r' ue where r': "runner_run json_text compact send (fst (snd (start_turn m user sys tools)))
      (snd (snd (start_turn m user sys tools))) (sm_compact_summary m) = Some r'"
    and "ev_terminal (rr_terminal r')" "\<not> ev_terminal ue"
    and "rr_events r' = ue # map (\<lambda>se. map_session_event se (fst (snd (start_turn m user sys tools))))
      (stream_of_turn json_text compact send m user sys tools)"
    and send: "send_turn json_text compact send append_ev ensure_terminal m s user sys tools =
       Some (finalize_turn append_ev ensure_terminal (fst (start_turn m user sys tools)) s
         (''run-'' @ show_nat (Suc (length (sm_messages m)))) (rr_terminal r') (rr_events r')
         (rr_messages r') (rr_compact_summary r') (rr_status r'))"
    by (rule send_turn_runs[OF assms(1), of json_text compact send user sys tools append_ev ensure_terminal s])
  from compact_cases[of json_text compact ?ms DEFAULT_THRESHOLD_CHARS DEFAULT_KEEP_RECENT "sm_compact_summary m"]
    assms(2) have "length (cr_messages ?c) \<le> 7"
    unfolding compact_if_needed_rolling_def by (auto simp: DEFAULT_KEEP_RECENT_def)
  moreover have "length (rr_messages r') \<le> Suc (length (cr_messages ?c))"
    using runner_run_facts(3)[OF r'] by (simp add: assms(3) final_state_def end_turn_def)
  moreover have "sm_messages m' = rr_messages r'"
    using assms(4) send by (auto simp: finalize_turn_def Let_def)
  ultimately have len: "length (sm_messages m') \<le> 8" by simp
  have "ctx_invocation_id (fst (snd (start_turn m' user' sys' tools'))) =
      ''inv-'' @ show_nat (Suc (length (sm_messages m')))" by (simp add: start_turn_def Let_def)
  with len show ?thesis by (intro exI[of _ "Suc (length (sm_messages m'))"]) simp
qed

lemma compacted_session_reuses_ids_witness:
  "\<exists>m' s' r. send_turn (\<lambda>_. '''') (\<lambda>_. Ok ''sum'')
      (\<lambda>_. [SE_TextDelta ''a'' ''t'' 0 ''m'' None ''ok'', SE_Complete ''b'' ''t'' 0 Stop_EndTurn])
      mem_append mem_ensure_terminal
      (session_new ''s''\<lparr>sm_messages := replicate 40 (Assistant_Msg (Some (replicate 500 CHR ''x'')) [] [])\<rparr>)
      (mem_new BestEffort) ''go'' None [] = Some (m', s', r) \<and>
    (\<exists>n \<le> 9. ctx_run_id (fst (snd (start_turn m' ''on'' None []))) = ''run-'' @ show_nat n)"
proof -
  let ?m = "session_new ''s''\<lparr>sm_messages := replicate 40 (Assistant_Msg (Some (replicate 500 CHR ''x'')) [] [])\<rparr>"
  have idle: "sm_status ?m \<noteq> Session_Running" by (simp add: session_new_def)
  have c: "cr_summary (compact_if_needed_rolling (\<lambda>_. '''') (\<lambda>_. Ok ''sum'') (sm_messages ?m @ [User_Msg ''go''])
      (sm_compact_summary ?m)) \<noteq> None"
    by (simp add: compact_if_needed_rolling_def compact_if_needed_with_def DEFAULT_THRESHOLD_CHARS_def
        DEFAULT_KEEP_RECENT_def session_new_def sum_list_replicate Let_def split: prod.split)
  obtain m' s' r where e: "send_turn (\<lambda>_. '''') (\<lambda>_. Ok ''sum'')
      (\<lambda>_. [SE_TextDelta ''a'' ''t'' 0 ''m'' None ''ok'', SE_Complete ''b'' ''t'' 0 Stop_EndTurn])
      mem_append mem_ensure_terminal ?m (mem_new BestEffort) ''go'' None [] = Some (m', s', r)"
    using send_turn_total[of "\<lambda>_. ''''" "\<lambda>_. Ok ''sum''"
        "\<lambda>_. [SE_TextDelta ''a'' ''t'' 0 ''m'' None ''ok'', SE_Complete ''b'' ''t'' 0 Stop_EndTurn]"
        mem_append mem_ensure_terminal ?m "mem_new BestEffort" "''go''" None "[]"]
    by (elim exE) 
  from compacted_session_reuses_ids[OF idle c refl e] e show ?thesis by blast
qed

end
