(* ===== verification/Headless.thy ===== *)
theory Headless
  imports Session_Manager Sqlite_Tables Agent_Loop "HOL-Library.Countable"
begin

text \<open>
  Durable task runs (\<^verbatim>\<open>meepo-headless/src/lib.rs\<close>): the event ledger of a task run and its
  projection, the self-check gates and the loop over attempts.  The task store is the locale
  \<open>task_run_store\<close>; the in-memory store and the SQLite store interpret it.  \<open>send\<close> gives the
  backend's stream of each attempt, \<open>gate\<close> the decision on each completed attempt.
\<close>

datatype task_run_status =
  TR_Queued | TR_Created | TR_Running | TR_Verifying | TR_Completed | TR_Failed | TR_Incomplete
| TR_Blocked | TR_PolicyDenied | TR_BudgetExhausted | TR_NeedsApproval | TR_Aborted | TR_Cancelled

fun tr_is_terminal :: "task_run_status \<Rightarrow> bool" where
  "tr_is_terminal TR_Completed = True"
| "tr_is_terminal TR_Failed = True"
| "tr_is_terminal TR_Incomplete = True"
| "tr_is_terminal TR_Blocked = True"
| "tr_is_terminal TR_PolicyDenied = True"
| "tr_is_terminal TR_BudgetExhausted = True"
| "tr_is_terminal TR_Aborted = True"
| "tr_is_terminal TR_Cancelled = True"
| "tr_is_terminal _ = False"

record task_definition =
  df_task_id :: string
  df_instruction :: string
  df_workspace_dir :: string

record task_run =
  tn_task_run_id :: string
  tn_task_id :: string
  tn_status :: task_run_status
  tn_instruction :: string
  tn_started_at :: "int option"
  tn_finished_at :: "int option"
  tn_attempt_count :: nat

datatype task_event =
  TE_Created string string string int
| TE_Queued string int
| TE_AttemptStarted string string int
| TE_AttemptCompleted string string task_run_status int
| TE_RunCompleted string int
| TE_RunFailed string string int

subsection \<open>The projection of a ledger\<close>

definition project_task_step :: "task_run option \<times> nat \<Rightarrow> task_event \<Rightarrow> task_run option \<times> nat" where
  "project_task_step st e = (case st of (run, n) \<Rightarrow>
     (case e of
        TE_Created rid tid instr ts \<Rightarrow>
          (Some \<lparr>tn_task_run_id = rid, tn_task_id = tid, tn_status = TR_Created, tn_instruction = instr,
             tn_started_at = Some ts, tn_finished_at = None, tn_attempt_count = 0\<rparr>, n)
      | TE_Queued _ _ \<Rightarrow> (map_option (\<lambda>r. r\<lparr>tn_status := TR_Queued\<rparr>) run, n)
      | TE_AttemptStarted _ _ _ \<Rightarrow>
          (map_option (\<lambda>r. r\<lparr>tn_status := TR_Running, tn_attempt_count := n + 1\<rparr>) run, n + 1)
      | TE_AttemptCompleted _ _ st _ \<Rightarrow> (map_option (\<lambda>r. r\<lparr>tn_status := st\<rparr>) run, n)
      | TE_RunCompleted _ ts \<Rightarrow>
          (map_option (\<lambda>r. r\<lparr>tn_status := TR_Completed, tn_finished_at := Some ts\<rparr>) run, n)
      | TE_RunFailed _ _ ts \<Rightarrow>
          (map_option (\<lambda>r. r\<lparr>tn_status := TR_Failed, tn_finished_at := Some ts\<rparr>) run, n)))"

definition project_task_run :: "task_event list \<Rightarrow> task_run option" where
  "project_task_run events = fst (foldl project_task_step (None, 0) events)"

subsection \<open>The in-memory task store\<close>

type_synonym mem_task_store = "string \<Rightarrow> task_event list option"

definition mem_task_append ::
    "string \<Rightarrow> int \<Rightarrow> task_event \<Rightarrow> mem_task_store \<Rightarrow> (mem_task_store, string) result" where
  "mem_task_append rid sequence e s = Ok (s(rid \<mapsto> unwrap_or [] (s rid) @ [e]))"

definition mem_task_read :: "string \<Rightarrow> mem_task_store \<Rightarrow> (task_event list, string) result" where
  "mem_task_read rid s = Ok (unwrap_or [] (s rid))"

subsection \<open>Self-check gates\<close>

datatype self_check_decision =
  AllowFinalize string
| Repair string string
| AllowAfterBounded string

type_synonym self_check_gate = "nat \<Rightarrow> task_run_status \<Rightarrow> self_check_decision"

definition default_gate_decision :: self_check_gate where
  "default_gate_decision attempt st = AllowFinalize ''self-check not configured''"

definition self_check_input :: "nat \<Rightarrow> backend_send_input" where
  "self_check_input attempt =
     (let check_id = ''selfcheck-a'' @ show_nat attempt in
      \<lparr>in_turn_id = check_id, in_run_id = Some check_id, in_invocation_id = Some check_id,
       in_max_steps = None,
       in_messages = [User_Msg ''Did you fully complete the task? Reply with YES or NO followed by a one-line reason.''],
       in_system_prompt = Some ''You are a strict task completion verifier.'', in_tools = []\<rparr>)"

definition self_check_reply :: "session_event list \<Rightarrow> string" where
  "self_check_reply stream = foldl (\<lambda>reply e. case e of SE_TextComplete _ _ _ _ body _ \<Rightarrow> body | _ \<Rightarrow> reply) [] stream"

text \<open>
  \<^verbatim>\<open>to_lowercase\<close> is used only to compare with \<^verbatim>\<open>"yes"\<close>; no character outside ASCII
  has \<open>y\<close>, \<open>e\<close> or \<open>s\<close> as its lower case, so the ASCII mapping decides the same.
\<close>

definition model_gate_decision :: "(backend_send_input \<Rightarrow> session_event list) \<Rightarrow> nat \<Rightarrow> self_check_decision" where
  "model_gate_decision send attempt =
     (let reply = self_check_reply (send (self_check_input attempt));
          trimmed = to_ascii_lowercase (str_trim reply)
      in if starts_with trimmed ''yes'' then AllowFinalize (''model verified: '' @ chars_take 120 reply)
         else Repair (''model rejected: '' @ chars_take 120 reply)
           (''Your previous attempt did not pass self-check. Feedback: '' @ reply @ ''. Please complete the task fully.''))"

subsection \<open>The loop over attempts\<close>

fun attempt_status_of :: "run_status \<Rightarrow> task_run_status" where
  "attempt_status_of Run_Completed = TR_Completed"
| "attempt_status_of Run_Aborted = TR_Aborted"
| "attempt_status_of Run_Failed = TR_Failed"

fun run_attempts ::
    "(json \<Rightarrow> string) \<Rightarrow> (chat_message list \<Rightarrow> (string, string) result) \<Rightarrow>
     (nat \<Rightarrow> backend_send_input \<Rightarrow> session_event list) \<Rightarrow>
     (string \<Rightarrow> string \<Rightarrow> runtime_event \<Rightarrow> 's \<Rightarrow> ('s, string) result) \<Rightarrow>
     (string \<Rightarrow> string \<Rightarrow> runtime_event \<Rightarrow> 's \<Rightarrow> ('s, string) result) \<Rightarrow>
     (string \<Rightarrow> int \<Rightarrow> task_event \<Rightarrow> 't \<Rightarrow> ('t, string) result) \<Rightarrow> self_check_gate \<Rightarrow> string \<Rightarrow>
     nat \<Rightarrow> nat \<Rightarrow> string \<Rightarrow> int \<Rightarrow> 's \<Rightarrow> 't \<Rightarrow> (bool \<times> int \<times> 's \<times> 't) option" where
  "run_attempts json_text compact send append_ev ensure append_task gate rid 0 attempt instr sequence ss ts =
     Some (False, sequence, ss, ts)"
| "run_attempts json_text compact send append_ev ensure append_task gate rid (Suc left) attempt instr sequence ss ts =
     (let attempt_id = rid @ ''-a'' @ show_nat attempt;
          ts1 = keep_going ts (append_task rid sequence (TE_AttemptStarted rid attempt_id sequence) ts)
      in case send_turn json_text compact (send attempt) append_ev ensure
              (session_new (rid @ ''-s'' @ show_nat attempt)) ss instr None [] of
           None \<Rightarrow> None
         | Some (_, ss', r) \<Rightarrow>
             (let st = attempt_status_of (tr_status r);
                  ts2 = keep_going ts1 (append_task rid (sequence + 1)
                          (TE_AttemptCompleted rid attempt_id st (sequence + 1)) ts1)
              in if st = TR_Completed
                 then (case gate attempt st of
                         Repair _ prompt \<Rightarrow>
                           run_attempts json_text compact send append_ev ensure append_task gate rid
                             left (attempt + 1) prompt (sequence + 2) ss' ts2
                       | _ \<Rightarrow> Some (True, sequence + 2, ss',
                           keep_going ts2 (append_task rid (sequence + 2) (TE_RunCompleted rid (sequence + 2)) ts2)))
                 else run_attempts json_text compact send append_ev ensure append_task gate rid
                        left (attempt + 1) instr (sequence + 2) ss' ts2))"

definition run_task ::
    "(json \<Rightarrow> string) \<Rightarrow> (chat_message list \<Rightarrow> (string, string) result) \<Rightarrow>
     (nat \<Rightarrow> backend_send_input \<Rightarrow> session_event list) \<Rightarrow>
     (string \<Rightarrow> string \<Rightarrow> runtime_event \<Rightarrow> 's \<Rightarrow> ('s, string) result) \<Rightarrow>
     (string \<Rightarrow> string \<Rightarrow> runtime_event \<Rightarrow> 's \<Rightarrow> ('s, string) result) \<Rightarrow>
     (string \<Rightarrow> int \<Rightarrow> task_event \<Rightarrow> 't \<Rightarrow> ('t, string) result) \<Rightarrow>
     (string \<Rightarrow> 't \<Rightarrow> (task_event list, string) result) \<Rightarrow> self_check_gate \<Rightarrow> string \<Rightarrow> task_definition \<Rightarrow> nat \<Rightarrow>
     's \<Rightarrow> 't \<Rightarrow> (task_run \<times> 's \<times> 't) option" where
  "run_task json_text compact send append_ev ensure append_task read_task gate rid task max_attempts ss ts =
     (let ts0 = keep_going ts (append_task rid 0 (TE_Created rid (df_task_id task) (df_instruction task) 0) ts)
      in case run_attempts json_text compact send append_ev ensure append_task gate rid max_attempts 0
              (df_instruction task) 1 ss ts0 of
           None \<Rightarrow> None
         | Some (succeeded, sequence, ss', ts') \<Rightarrow>
             (let ts'' = (if succeeded then ts'
                    else keep_going ts' (append_task rid sequence
                      (TE_RunFailed rid (''exhausted '' @ show_nat max_attempts @ '' attempts'') sequence) ts'));
                  events = (case read_task rid ts'' of Ok es \<Rightarrow> es | Err _ \<Rightarrow> [])
              in Some (unwrap_or \<lparr>tn_task_run_id = rid, tn_task_id = df_task_id task, tn_status = TR_Failed,
                   tn_instruction = df_instruction task, tn_started_at = None, tn_finished_at = None,
                   tn_attempt_count = 0\<rparr> (project_task_run events), ss', ts'')))"

subsection \<open>The task store's contract\<close>

text \<open>
  \<open>ready rid n es s\<close>: the ledger of the run is \<open>es\<close> and takes its next event at
  sequence number \<open>n\<close>.
\<close>

locale task_run_store =
  fixes append_task :: "string \<Rightarrow> int \<Rightarrow> task_event \<Rightarrow> 't \<Rightarrow> ('t, string) result"
    and read_task :: "string \<Rightarrow> 't \<Rightarrow> (task_event list, string) result"
    and ready :: "string \<Rightarrow> int \<Rightarrow> task_event list \<Rightarrow> 't \<Rightarrow> bool"
  assumes reads: "ready rid n es s \<Longrightarrow> read_task rid s = Ok es"
    and appends: "ready rid n es s \<Longrightarrow> \<exists>s'. append_task rid n e s = Ok s' \<and> ready rid (n + 1) (es @ [e]) s'"

interpretation mem_tasks: task_run_store mem_task_append mem_task_read "\<lambda>rid n es s. unwrap_or [] (s rid) = es"
  by unfold_locales (auto simp: mem_task_append_def mem_task_read_def)

definition sql_task_ready ::
    "(task_event \<Rightarrow> (string, string) result) \<Rightarrow> (string \<Rightarrow> (task_event, string) result) \<Rightarrow>
     string \<Rightarrow> int \<Rightarrow> task_event list \<Rightarrow> task_run_row list \<Rightarrow> bool" where
  "sql_task_ready enc dec rid n es rows \<longleftrightarrow>
     (\<forall>e. \<exists>j. enc e = Ok j \<and> dec j = Ok e) \<and> 0 \<le> n \<and>
     (\<forall>r \<in> set rows. tk_task_run_id r = rid \<longrightarrow> tk_sequence r < n) \<and>
     sql_read_task_events dec rid rows = Ok es"

lemma decode_tasks_snoc:
  "decode_tasks dec rs = Ok es \<Longrightarrow> dec (tk_record_json r) = Ok e \<Longrightarrow> decode_tasks dec (rs @ [r]) = Ok (es @ [e])"
  by (induction rs arbitrary: es) (auto split: sum.splits)

interpretation sql_tasks: task_run_store "sql_append_task_event enc" "sql_read_task_events dec" "sql_task_ready enc dec"
  for enc dec
proof unfold_locales
  fix rid n es rows e assume r: "sql_task_ready enc dec rid n es rows"
  then show "sql_read_task_events dec rid rows = Ok es" by (simp add: sql_task_ready_def)
  from r obtain j where j: "enc e = Ok j" "dec j = Ok e" unfolding sql_task_ready_def by blast
  define row where "row = \<lparr>tk_task_run_id = rid, tk_sequence = n, tk_event_id = rid @ ''-'' @ show_int n, tk_record_json = j\<rparr>"
  have row: "tk_task_run_id row = rid" "tk_sequence row = n" "tk_record_json row = j" by (simp_all add: row_def)
  have app: "sql_append_task_event enc rid n e rows = Ok (replace_into task_clash row rows)"
    using r j by (simp add: sql_append_task_event_def append_task_run_event_def row_def sql_task_ready_def)
  have "\<forall>q \<in> set rows. tk_task_run_id q = tk_task_run_id row \<longrightarrow> tk_sequence q < tk_sequence row"
    using r by (simp add: row sql_task_ready_def)
  from read_task_append[OF this] have "read_task_run_events rid (replace_into task_clash row rows) =
      read_task_run_events rid rows @ [row]" by (simp add: row)
  with r j have "sql_read_task_events dec rid (replace_into task_clash row rows) = Ok (es @ [e])"
    by (simp add: sql_read_task_events_def sql_task_ready_def decode_tasks_snoc row)
  moreover have "\<forall>q \<in> set (replace_into task_clash row rows). tk_task_run_id q = rid \<longrightarrow> tk_sequence q < n + 1"
    using r by (fastforce simp: sql_task_ready_def replace_into_def row)
  ultimately show "\<exists>s'. sql_append_task_event enc rid n e rows = Ok s' \<and> sql_task_ready enc dec rid (n + 1) (es @ [e]) s'"
    using app r by (auto simp: sql_task_ready_def)
qed

subsection \<open>The protocol of a task run's ledger\<close>

text \<open>
  What the attempts append, without any store: \<open>attempt_log gate rid left a n ok evs\<close> says that with
  \<open>left\<close> attempts allowed from attempt \<open>a\<close> and sequence number \<open>n\<close> on, the
  events \<open>evs\<close> are appended and the run is \<open>ok\<close>.
\<close>

abbreviation allows :: "self_check_decision \<Rightarrow> bool" where
  "allows d \<equiv> (\<forall>why prompt. d \<noteq> Repair why prompt)"

inductive attempt_log :: "self_check_gate \<Rightarrow> string \<Rightarrow> nat \<Rightarrow> nat \<Rightarrow> int \<Rightarrow> bool \<Rightarrow> task_event list \<Rightarrow> bool"
  for gate rid where
  log_exhausted: "attempt_log gate rid 0 a n False []"
| log_retry: "attempt_log gate rid left (Suc a) (n + 2) ok evs \<Longrightarrow>
    st \<in> {TR_Completed, TR_Aborted, TR_Failed} \<Longrightarrow> st = TR_Completed \<longrightarrow> \<not> allows (gate a st) \<Longrightarrow>
    attempt_log gate rid (Suc left) a n ok
      (TE_AttemptStarted rid (rid @ ''-a'' @ show_nat a) n #
       TE_AttemptCompleted rid (rid @ ''-a'' @ show_nat a) st (n + 1) # evs)"
| log_accepted: "allows (gate a TR_Completed) \<Longrightarrow>
    attempt_log gate rid (Suc left) a n True
      [TE_AttemptStarted rid (rid @ ''-a'' @ show_nat a) n,
       TE_AttemptCompleted rid (rid @ ''-a'' @ show_nat a) TR_Completed (n + 1), TE_RunCompleted rid (n + 2)]"

inductive_cases attempt_log_0: "attempt_log gate rid 0 a n ok evs"

context task_run_store
begin

lemma keeps: "ready rid n es s \<Longrightarrow> ready rid (n + 1) (es @ [e]) (keep_going s (append_task rid n e s))"
  using appends[of rid n es s e] by (auto simp: keep_going_def)

lemma run_attempts_log:
  "ready rid n es ts \<Longrightarrow>
   run_attempts json_text compact send append_ev ensure append_task gate rid left a instr n ss ts = Some (ok, n', ss', ts') \<Longrightarrow>
   \<exists>evs. attempt_log gate rid left a n ok evs \<and> ready rid (n + int (length evs)) (es @ evs) ts' \<and>
     (\<not> ok \<longrightarrow> n' = n + int (length evs))"
proof (induction left arbitrary: a instr n es ss ts)
  case 0
  then show ?case by (auto intro!: exI[of _ "[]"] log_exhausted)
next
  case (Suc left)
  let ?id = "rid @ ''-a'' @ show_nat a"
  define ts1 where "ts1 = keep_going ts (append_task rid n (TE_AttemptStarted rid ?id n) ts)"
  obtain m ss1 r where turn: "send_turn json_text compact (send a) append_ev ensure
      (session_new (rid @ ''-s'' @ show_nat a)) ss instr None [] = Some (m, ss1, r)"
    using send_turn_total by metis
  define st where "st = attempt_status_of (tr_status r)"
  define ts2 where "ts2 = keep_going ts1 (append_task rid (n + 1) (TE_AttemptCompleted rid ?id st (n + 1)) ts1)"
  let ?evs = "[TE_AttemptStarted rid ?id n, TE_AttemptCompleted rid ?id st (n + 1)]"
  have "ready rid (n + 1) (es @ [TE_AttemptStarted rid ?id n]) ts1" unfolding ts1_def by (rule keeps[OF Suc.prems(1)])
  from keeps[OF this] have ts2: "ready rid (n + 2) (es @ ?evs) ts2" by (simp add: ts2_def add.assoc)
  have step: "(if st = TR_Completed
      then (case gate a st of
              Repair _ prompt \<Rightarrow> run_attempts json_text compact send append_ev ensure append_task gate rid
                left (a + 1) prompt (n + 2) ss1 ts2
            | _ \<Rightarrow> Some (True, n + 2, ss1, keep_going ts2 (append_task rid (n + 2) (TE_RunCompleted rid (n + 2)) ts2)))
      else run_attempts json_text compact send append_ev ensure append_task gate rid left (a + 1) instr (n + 2) ss1 ts2) =
      Some (ok, n', ss', ts')"
    unfolding Suc.prems(2)[symmetric] ts2_def st_def ts1_def run_attempts.simps Let_def turn by simp
  have st: "st \<in> {TR_Completed, TR_Aborted, TR_Failed}" unfolding st_def by (cases "tr_status r") simp_all
  have retry: ?case if "st = TR_Completed \<longrightarrow> \<not> allows (gate a st)"
    "run_attempts json_text compact send append_ev ensure append_task gate rid left (a + 1) ins (n + 2) ss1 ts2 =
       Some (ok, n', ss', ts')" for ins
  proof -
    from Suc.IH[OF ts2 that(2)] obtain evs where "attempt_log gate rid left (Suc a) (n + 2) ok evs"
      "ready rid (n + 2 + int (length evs)) (es @ ?evs @ evs) ts'" "\<not> ok \<longrightarrow> n' = n + 2 + int (length evs)" by auto
    with log_retry[OF this(1) st that(1)] show ?thesis by (intro exI[of _ "?evs @ evs"]) (simp add: add.commute add.left_commute)
  qed
  show ?case
  proof (cases "st = TR_Completed \<and> allows (gate a st)")
    case True
    then have "ok" "n' = n + 2" "ts' = keep_going ts2 (append_task rid (n + 2) (TE_RunCompleted rid (n + 2)) ts2)"
      using step by (auto split: self_check_decision.splits)
    moreover have "attempt_log gate rid (Suc left) a n True (?evs @ [TE_RunCompleted rid (n + 2)])"
      using True log_accepted[of gate a rid left n] by auto
    ultimately show ?thesis using keeps[OF ts2, of "TE_RunCompleted rid (n + 2)"]
      by (intro exI[of _ "?evs @ [TE_RunCompleted rid (n + 2)]"]) (simp add: add.assoc)
  next
    case False
    then show ?thesis using step retry by (auto split: self_check_decision.splits if_splits)
  qed
qed

lemma run_attempts_total:
  "\<exists>r. run_attempts json_text compact send append_ev ensure append_task gate rid left a instr n ss ts = Some r"
proof (induction left arbitrary: a instr n ss ts)
  case (Suc left)
  obtain m ss1 r where "send_turn json_text compact (send a) append_ev ensure
      (session_new (rid @ ''-s'' @ show_nat a)) ss instr None [] = Some (m, ss1, r)"
    using send_turn_total by metis
  with Suc show ?case by (auto simp: Let_def split: self_check_decision.split)
qed auto

lemma run_task_total:
  "\<exists>run ss' ts'. run_task json_text compact send append_ev ensure append_task read_task gate rid task m ss ts = Some (run, ss', ts')"
proof -
  define ts0 where "ts0 = keep_going ts (append_task rid 0 (TE_Created rid (df_task_id task) (df_instruction task) 0) ts)"
  obtain ok n ss' ts1 where "run_attempts json_text compact send append_ev ensure append_task gate rid m 0
      (df_instruction task) 1 ss ts0 = Some (ok, n, ss', ts1)"
    using run_attempts_total by (metis prod_cases4)
  then show ?thesis by (simp add: run_task_def Let_def ts0_def[symmetric])
qed

lemma run_task_log:
  assumes "ready rid 0 [] ts"
  obtains run ss' ts' ok evs where
    "run_task json_text compact send append_ev ensure append_task read_task gate rid task max_attempts ss ts =
       Some (run, ss', ts')"
    "attempt_log gate rid max_attempts 0 1 ok evs"
    "read_task rid ts' = Ok (TE_Created rid (df_task_id task) (df_instruction task) 0 # evs @
       (if ok then [] else [TE_RunFailed rid (''exhausted '' @ show_nat max_attempts @ '' attempts'') (1 + int (length evs))]))"
    "project_task_run (TE_Created rid (df_task_id task) (df_instruction task) 0 # evs @
       (if ok then [] else [TE_RunFailed rid (''exhausted '' @ show_nat max_attempts @ '' attempts'') (1 + int (length evs))])) = Some run"
proof -
  let ?c = "TE_Created rid (df_task_id task) (df_instruction task) 0"
  define ts0 where "ts0 = keep_going ts (append_task rid 0 ?c ts)"
  have ts0: "ready rid 1 [?c] ts0" using keeps[OF assms, of ?c] by (simp add: ts0_def)
  obtain ok n ss' ts1 where r: "run_attempts json_text compact send append_ev ensure append_task gate rid max_attempts 0
      (df_instruction task) 1 ss ts0 = Some (ok, n, ss', ts1)"
    using run_attempts_total by (metis prod_cases4)
  from run_attempts_log[OF ts0 r] obtain evs where log: "attempt_log gate rid max_attempts 0 1 ok evs"
    and ts1: "ready rid (1 + int (length evs)) ([?c] @ evs) ts1" "\<not> ok \<longrightarrow> n = 1 + int (length evs)" by blast
  define failed where "failed = TE_RunFailed rid (''exhausted '' @ show_nat max_attempts @ '' attempts'') (1 + int (length evs))"
  define ts' where "ts' = (if ok then ts1 else keep_going ts1 (append_task rid (1 + int (length evs)) failed ts1))"
  let ?es = "?c # evs @ (if ok then [] else [failed])"
  have read: "read_task rid ts' = Ok ?es"
    using reads[OF ts1(1)] reads[OF keeps[OF ts1(1), of failed]] by (simp add: ts'_def)
  have "foldl project_task_step (Some r, k) xs = (q, j) \<Longrightarrow> q \<noteq> None" for r k xs q j
    by (induction xs arbitrary: r k) (auto simp: project_task_step_def split: task_event.splits)
  then obtain run where run: "project_task_run ?es = Some run"
    by (simp add: project_task_run_def project_task_step_def) (metis fst_conv not_None_eq prod.exhaust)
  have "run_task json_text compact send append_ev ensure append_task read_task gate rid task max_attempts ss ts =
      Some (run, ss', ts')"
    using r ts1(2) read run by (auto simp: run_task_def Let_def ts0_def[symmetric] ts'_def failed_def)
  from that[OF this log read[unfolded failed_def] run[unfolded failed_def]] show thesis .
qed

end

subsection \<open>Reading a ledger that follows the protocol\<close>

lemma project_task_step_simps [simp]:
  "project_task_step (Some r, k) (TE_AttemptStarted i j ts) = (Some (r\<lparr>tn_status := TR_Running, tn_attempt_count := k + 1\<rparr>), k + 1)"
  "project_task_step (Some r, k) (TE_AttemptCompleted i j st ts) = (Some (r\<lparr>tn_status := st\<rparr>), k)"
  "project_task_step (Some r, k) (TE_RunCompleted i ts) = (Some (r\<lparr>tn_status := TR_Completed, tn_finished_at := Some ts\<rparr>), k)"
  "project_task_step (Some r, k) (TE_RunFailed i msg ts) = (Some (r\<lparr>tn_status := TR_Failed, tn_finished_at := Some ts\<rparr>), k)"
  "project_task_step (x, k) (TE_Created rid tid instr ts) =
     (Some \<lparr>tn_task_run_id = rid, tn_task_id = tid, tn_status = TR_Created, tn_instruction = instr,
        tn_started_at = Some ts, tn_finished_at = None, tn_attempt_count = 0\<rparr>, k)"
  by (simp_all add: project_task_step_def)

lemma project_log:
  "attempt_log gate rid left a n ok evs \<Longrightarrow> tn_attempt_count r = a \<Longrightarrow>
   \<exists>r' k. foldl project_task_step (Some r, a) evs = (Some r', k) \<and> tn_attempt_count r' = k \<and>
     tn_task_run_id r' = tn_task_run_id r \<and> tn_task_id r' = tn_task_id r \<and> tn_instruction r' = tn_instruction r \<and>
     (if ok then tn_status r' = TR_Completed \<and> tn_finished_at r' \<noteq> None \<and> a < k \<and> k \<le> a + left \<and> allows (gate (k - 1) TR_Completed)
      else k = a + left)"
proof (induction arbitrary: r rule: attempt_log.induct)
  case (log_retry left a n ok evs st)
  let ?r = "r\<lparr>tn_attempt_count := Suc a, tn_status := st\<rparr>"
  have "tn_attempt_count ?r = Suc a" by simp
  from log_retry.IH[OF this] obtain r' k where
    "foldl project_task_step (Some ?r, Suc a) evs = (Some r', k)" "tn_attempt_count r' = k"
    "tn_task_run_id r' = tn_task_run_id r" "tn_task_id r' = tn_task_id r" "tn_instruction r' = tn_instruction r"
    "if ok then tn_status r' = TR_Completed \<and> tn_finished_at r' \<noteq> None \<and> Suc a < k \<and> k \<le> Suc a + left \<and> allows (gate (k - 1) TR_Completed)
     else k = Suc a + left" by auto
  moreover have "foldl project_task_step (Some r, a) (TE_AttemptStarted rid (rid @ ''-a'' @ show_nat a) n #
       TE_AttemptCompleted rid (rid @ ''-a'' @ show_nat a) st (n + 1) # evs) = foldl project_task_step (Some ?r, Suc a) evs"
    by (simp)
  ultimately show ?case by (auto split: if_splits)
qed auto

lemma log_length: "attempt_log gate rid left a n ok evs \<Longrightarrow> \<not> ok \<Longrightarrow> length evs = 2 * left"
  by (induction rule: attempt_log.induct) auto

lemma project_task_ledger:
  assumes "attempt_log gate rid m 0 1 ok evs"
    and "project_task_run (TE_Created rid tid instr 0 # evs @ (if ok then [] else [TE_RunFailed rid msg z])) = Some run"
  shows "tn_task_run_id run = rid \<and> tn_task_id run = tid \<and> tn_instruction run = instr \<and> tn_finished_at run \<noteq> None \<and>
    (if ok then tn_status run = TR_Completed \<and> 0 < tn_attempt_count run \<and> tn_attempt_count run \<le> m \<and>
       allows (gate (tn_attempt_count run - 1) TR_Completed)
     else tn_status run = TR_Failed \<and> tn_attempt_count run = m)"
proof -
  let ?r = "\<lparr>tn_task_run_id = rid, tn_task_id = tid, tn_status = TR_Created, tn_instruction = instr,
        tn_started_at = Some 0, tn_finished_at = None, tn_attempt_count = 0\<rparr>"
  have "tn_attempt_count ?r = 0" by simp
  from project_log[OF assms(1) this] obtain r' k where
    "foldl project_task_step (Some ?r, 0) evs = (Some r', k)" "tn_attempt_count r' = k"
    "tn_task_run_id r' = rid" "tn_task_id r' = tid" "tn_instruction r' = instr"
    "if ok then tn_status r' = TR_Completed \<and> tn_finished_at r' \<noteq> None \<and> 0 < k \<and> k \<le> m \<and> allows (gate (k - 1) TR_Completed)
     else k = m" by (simp only: add_0 task_run.simps) blast
  with assms(2) show ?thesis by (auto simp: project_task_run_def split: if_splits)
qed

lemma fresh_ready:
  assumes "\<forall>e. \<exists>j. enc e = Ok j \<and> dec j = Ok e" and "\<forall>r \<in> set rows. tk_task_run_id r \<noteq> rid"
  shows "sql_task_ready enc dec rid 0 [] rows"
proof -
  have "filter (\<lambda>r. tk_task_run_id r = rid) rows = []" using assms(2) by (auto simp: filter_empty_conv)
  then show ?thesis using assms by (simp add: sql_task_ready_def sql_read_task_events_def read_task_run_events_def)
qed

lemma rejected_task_fails:
  assumes "\<forall>e. \<exists>j. enc e = Ok j \<and> dec j = Ok e" and "\<forall>r \<in> set rows. tk_task_run_id r \<noteq> rid"
    and "\<And>attempt st. \<not> allows (gate attempt st)"
  shows "\<exists>run ss' rows'.
    run_task json_text compact send append_ev ensure (sql_append_task_event enc) (sql_read_task_events dec)
      gate rid task max_attempts ss rows = Some (run, ss', rows') \<and>
    tn_status run = TR_Failed \<and> tn_attempt_count run = max_attempts"
  by (rule sql_tasks.run_task_log[OF fresh_ready[OF assms(1,2)], of json_text compact send append_ev ensure gate task max_attempts ss])
    (use project_task_ledger assms(3) in \<open>fastforce split: if_splits\<close>)

text \<open>
  C15. A task run on the SQLite store always comes back, and what it returns is what
  a new process reads back: the projection of the stored ledger.  The run is finished; it is Completed
  only when the gate allowed its last attempt, within the allowed attempts, and otherwise
  Failed with all attempts used.
\<close>

theorem task_run_outcome:
  assumes "\<forall>e. \<exists>j. enc e = Ok j \<and> dec j = Ok e" and "\<forall>r \<in> set rows. tk_task_run_id r \<noteq> rid"
  shows "\<exists>run ss' rows' events.
    run_task json_text compact send append_ev ensure (sql_append_task_event enc) (sql_read_task_events dec)
      gate rid task max_attempts ss rows = Some (run, ss', rows') \<and>
    sql_read_task_events dec rid rows' = Ok events \<and> project_task_run events = Some run \<and>
    tn_task_run_id run = rid \<and> tn_task_id run = df_task_id task \<and> tn_finished_at run \<noteq> None \<and>
    (tn_status run = TR_Completed \<and> 0 < tn_attempt_count run \<and> tn_attempt_count run \<le> max_attempts \<and>
       allows (gate (tn_attempt_count run - 1) TR_Completed) \<or>
     tn_status run = TR_Failed \<and> tn_attempt_count run = max_attempts)"
  by (rule sql_tasks.run_task_log[OF fresh_ready[OF assms], of json_text compact send append_ev ensure gate task max_attempts ss])
    (use project_task_ledger in \<open>fastforce split: if_splits\<close>)

text \<open>
  The model self-check gate reads completed texts only, and the agent
  loop streams deltas only.  Over the agent loop the gate never verifies: whatever the
  provider answers, a task run uses all its attempts and fails.
\<close>

lemma model_gate_never_verifies:
  assumes "\<forall>e. \<exists>j. enc e = Ok j \<and> dec j = Ok e" and "\<forall>r \<in> set rows. tk_task_run_id r \<noteq> rid"
    and "\<And>attempt st. gate attempt st = model_gate_decision
      (\<lambda>inp. ag_events (agent_send sha256 json_text cancelled provider c (counter attempt) w inp)) attempt"
  shows "\<exists>run ss' rows'.
    run_task json_text compact send append_ev ensure (sql_append_task_event enc) (sql_read_task_events dec)
      gate rid task max_attempts ss rows = Some (run, ss', rows') \<and>
    tn_status run = TR_Failed \<and> tn_attempt_count run = max_attempts"
proof -
  have no_text: "self_check_reply (ag_events (agent_send sha256 json_text cancelled provider c n w inp)) = []" for n inp
  proof -
    obtain xs t m c' where xs: "ag_events (agent_send sha256 json_text cancelled provider c n w inp) = xs @ [t]"
      "agent_trace sha256 json_text c' False n m xs" "closing_event (in_turn_id inp) (Suc m) t"
      by (rule agent_send_trace[of False provider sha256 json_text cancelled c n w inp]) blast+
    from xs(2) have "self_check_reply xs = []"
      by (induction rule: agent_trace.induct) (simp_all add: self_check_reply_def)
    with xs(1,3) show ?thesis
      by (auto simp: self_check_reply_def closing_event_def done_event_def err_event_def abort_event_def)
  qed
  have g: "\<not> allows (gate a st)" for a st
    unfolding assms(3) model_gate_decision_def no_text Let_def
    by (simp add: to_ascii_lowercase_def str_trim_def trim_start.simps trim_end_def trim_start_rev.simps)
  show ?thesis by (rule rejected_task_fails[OF assms(1,2) g])
qed

subsection \<open>A crash before verification, and a second run\<close>

text \<open>
  The projection takes the status of an attempt as the status of the run: a ledger that ends after a
  completed attempt projects to the terminal status Completed although no gate has decided yet and the
  run is not finished.
\<close>

lemma crash_before_verification:
  assumes "project_task_run es = Some r"
  shows "\<exists>r'. project_task_run (es @ [TE_AttemptStarted rid aid z, TE_AttemptCompleted rid aid TR_Completed z']) = Some r' \<and>
    tr_is_terminal (tn_status r') \<and> tn_status r' = TR_Completed \<and> tn_finished_at r' = tn_finished_at r"
proof -
  obtain k where "foldl project_task_step (None, 0) es = (Some r, k)"
    using assms by (metis prod.collapse project_task_run_def)
  then show ?thesis by (simp add: project_task_run_def)
qed

text \<open>The newest row of a ledger stays the newest under writes before it.\<close>

definition newest :: "string \<Rightarrow> task_run_row \<Rightarrow> task_run_row list \<Rightarrow> bool" where
  "newest rid q rows \<longleftrightarrow> q \<in> set rows \<and> tk_task_run_id q = rid \<and>
     (\<forall>r \<in> set rows. tk_task_run_id r = rid \<longrightarrow> r = q \<or> tk_sequence r < tk_sequence q)"

lemma newest_append:
  assumes "newest rid q rows" and "n < tk_sequence q"
  shows "newest rid q (keep_going rows (sql_append_task_event enc rid n e rows))"
  using assms by (auto simp: newest_def keep_going_def sql_append_task_event_def append_task_run_event_def
      replace_into_def task_clash_def split: sum.split)

lemma newest_last:
  assumes "newest rid q rows"
  shows "\<exists>xs. read_task_run_events rid rows = xs @ [q]"
proof -
  let ?rs = "filter (\<lambda>r. tk_task_run_id r = rid) rows" and ?s = "read_task_run_events rid rows"
  have q: "q \<in> set ?s" using assms by (simp add: newest_def read_task_run_events_def)
  then have ne: "?s \<noteq> []" by auto
  have le_last: "x \<le> last xs" if "sorted xs" "x \<in> set xs" for x and xs :: "int list"
    using that by (induction xs) auto
  have "sorted (map tk_sequence ?s)" by (simp add: read_task_run_events_def)
  from le_last[OF this, of "tk_sequence q"] q have "tk_sequence q \<le> tk_sequence (last ?s)"
    by (simp add: last_map[OF ne])
  moreover have "last ?s \<in> set rows" "tk_task_run_id (last ?s) = rid"
    using last_in_set[OF ne] by (auto simp: read_task_run_events_def)
  ultimately have "last ?s = q" using assms by (force simp: newest_def)
  with ne show ?thesis by (metis append_butlast_last_id)
qed

lemma newest_attempts:
  "newest rid q rows \<Longrightarrow> n + 2 * int left < tk_sequence q \<Longrightarrow>
   run_attempts json_text compact send append_ev ensure (sql_append_task_event enc) gate rid left a instr n ss rows =
     Some (ok, n', ss', rows') \<Longrightarrow>
   newest rid q rows' \<and> n' \<le> n + 2 * int left"
proof (induction left arbitrary: a instr n ss rows)
  case (Suc left)
  let ?id = "rid @ ''-a'' @ show_nat a"
  define ts1 where "ts1 = keep_going rows (sql_append_task_event enc rid n (TE_AttemptStarted rid ?id n) rows)"
  obtain m ss1 r where turn: "send_turn json_text compact (send a) append_ev ensure
      (session_new (rid @ ''-s'' @ show_nat a)) ss instr None [] = Some (m, ss1, r)"
    using send_turn_total by metis
  define st where "st = attempt_status_of (tr_status r)"
  define ts2 where "ts2 = keep_going ts1 (sql_append_task_event enc rid (n + 1) (TE_AttemptCompleted rid ?id st (n + 1)) ts1)"
  have ts2: "newest rid q ts2"
    unfolding ts2_def ts1_def using Suc.prems(1,2) by (intro newest_append) auto
  have step: "(if st = TR_Completed
      then (case gate a st of
              Repair _ prompt \<Rightarrow> run_attempts json_text compact send append_ev ensure (sql_append_task_event enc) gate rid
                left (a + 1) prompt (n + 2) ss1 ts2
            | _ \<Rightarrow> Some (True, n + 2, ss1, keep_going ts2 (sql_append_task_event enc rid (n + 2) (TE_RunCompleted rid (n + 2)) ts2)))
      else run_attempts json_text compact send append_ev ensure (sql_append_task_event enc) gate rid left (a + 1) instr (n + 2) ss1 ts2) =
      Some (ok, n', ss', rows')"
    unfolding Suc.prems(3)[symmetric] ts2_def st_def ts1_def run_attempts.simps Let_def turn by simp
  have le: "n + 2 + 2 * int left < tk_sequence q" using Suc.prems(2) by simp
  consider ins where "run_attempts json_text compact send append_ev ensure (sql_append_task_event enc) gate rid left (a + 1)
      ins (n + 2) ss1 ts2 = Some (ok, n', ss', rows')"
    | "n' = n + 2" "rows' = keep_going ts2 (sql_append_task_event enc rid (n + 2) (TE_RunCompleted rid (n + 2)) ts2)"
    using step by (auto split: self_check_decision.splits if_splits)
  then show ?case
  proof cases
    case 1
    with Suc.IH[OF ts2 le 1] show ?thesis by simp
  next
    case 2
    with newest_append[OF ts2, of "n + 2"] le show ?thesis by simp
  qed
qed simp

lemma failed_run_newest:
  assumes codec: "\<forall>e. \<exists>j. enc e = Ok j \<and> dec j = Ok e" and fresh: "\<forall>r \<in> set rows. tk_task_run_id r \<noteq> rid"
    and run: "run_task json_text compact send append_ev ensure (sql_append_task_event enc) (sql_read_task_events dec)
      gate rid task m ss rows = Some (r1, ss1, rows1)" and failed: "tn_status r1 = TR_Failed"
  shows "\<exists>q i msg z. newest rid q rows1 \<and> tk_sequence q = 1 + 2 * int m \<and> dec (tk_record_json q) = Ok (TE_RunFailed i msg z)"
proof -
  let ?c = "TE_Created rid (df_task_id task) (df_instruction task) 0"
  define ts0 where "ts0 = keep_going rows (sql_append_task_event enc rid 0 ?c rows)"
  from sql_tasks.keeps[OF fresh_ready[OF codec fresh], of ?c] have ts0: "sql_task_ready enc dec rid 1 [?c] ts0" by (simp add: ts0_def)
  obtain ok n ss' ts1 where r: "run_attempts json_text compact send append_ev ensure (sql_append_task_event enc) gate rid m 0
      (df_instruction task) 1 ss ts0 = Some (ok, n, ss', ts1)"
    using sql_tasks.run_attempts_total by (metis prod_cases4)
  from sql_tasks.run_attempts_log[OF ts0 r] obtain evs where log: "attempt_log gate rid m 0 1 ok evs"
    and ts1: "sql_task_ready enc dec rid (1 + int (length evs)) ([?c] @ evs) ts1" "\<not> ok \<longrightarrow> n = 1 + int (length evs)" by blast
  have "\<not> ok"
  proof
    assume ok
    obtain r0 where r0: "project_task_run (?c # evs) = Some r0"
      using project_log[OF log, of "\<lparr>tn_task_run_id = rid, tn_task_id = df_task_id task, tn_status = TR_Created, tn_instruction = df_instruction task,
        tn_started_at = Some 0, tn_finished_at = None, tn_attempt_count = 0\<rparr>"] by (auto simp: project_task_run_def)
    have "sql_read_task_events dec rid ts1 = Ok (?c # evs)" using sql_tasks.reads[OF ts1(1)] by simp
    with run r \<open>ok\<close> r0 have "r1 = r0" by (simp add: run_task_def Let_def ts0_def[symmetric])
    with r0 have "project_task_run (?c # evs @ (if ok then [] else [TE_RunFailed rid [] 0])) = Some r1" using \<open>ok\<close> by simp
    from project_task_ledger[OF log this] \<open>ok\<close> failed show False by simp
  qed
  with ts1(2) log_length[OF log] have n: "n = 1 + 2 * int m" by simp
  define fe where "fe = TE_RunFailed rid (''exhausted '' @ show_nat m @ '' attempts'') n"
  obtain j where j: "enc fe = Ok j" "dec j = Ok fe" using codec by blast
  define q where "q = \<lparr>tk_task_run_id = rid, tk_sequence = n, tk_event_id = rid @ ''-'' @ show_int n, tk_record_json = j\<rparr>"
  have "rows1 = keep_going ts1 (sql_append_task_event enc rid n fe ts1)"
    using run r \<open>\<not> ok\<close> by (simp add: run_task_def Let_def ts0_def[symmetric] fe_def)
  also have "\<dots> = replace_into task_clash q ts1"
    using n j by (simp add: keep_going_def sql_append_task_event_def append_task_run_event_def q_def)
  finally have "rows1 = replace_into task_clash q ts1" .
  moreover have "\<forall>r \<in> set ts1. tk_task_run_id r = rid \<longrightarrow> tk_sequence r < n"
    using ts1 \<open>\<not> ok\<close> by (simp add: sql_task_ready_def)
  ultimately have "newest rid q rows1" by (auto simp: newest_def replace_into_def q_def)
  with n j show ?thesis by (intro exI[of _ q]) (auto simp: q_def fe_def)
qed

text \<open>Whoever reads a ledger that ends in a failure is told that the run failed.\<close>

lemma newest_failure_projects:
  assumes "newest rid q rows" and "dec (tk_record_json q) = Ok (TE_RunFailed i msg z)" and "tn_status d = TR_Failed"
  shows "tn_status (unwrap_or d (project_task_run (case sql_read_task_events dec rid rows of Ok es \<Rightarrow> es | Err _ \<Rightarrow> []))) = TR_Failed"
proof -
  from newest_last[OF assms(1)] obtain xs where xs: "read_task_run_events rid rows = xs @ [q]" by blast
  have "\<exists>ys. es = ys @ [TE_RunFailed i msg z]" if "decode_tasks dec (rs @ [q]) = Ok es" for rs es
    using that assms(2) by (induction rs arbitrary: es) (auto split: sum.splits)
  then have read: "case sql_read_task_events dec rid rows of Ok es \<Rightarrow> \<exists>ys. es = ys @ [TE_RunFailed i msg z] | Err _ \<Rightarrow> True"
    unfolding sql_read_task_events_def xs by (simp split: sum.split)
  have last: "project_task_run (ys @ [TE_RunFailed i msg z]) = Some r \<Longrightarrow> tn_status r = TR_Failed" for ys r
    by (auto simp: project_task_run_def project_task_step_def split: prod.splits)
  show ?thesis
  proof (cases "project_task_run (case sql_read_task_events dec rid rows of Ok es \<Rightarrow> es | Err _ \<Rightarrow> [])")
    case (Some r)
    with read last show ?thesis by (auto simp: project_task_run_def split: sum.splits)
  qed (simp add: assms(3))
qed

text \<open>
  A task run is not resumable: a second run with the same id starts
  again at sequence number 0 and overwrites the first rows of the ledger.  After a run that
  failed, a later run that uses fewer attempts, even one that ends in a verified completion, leaves the old
  failure at the end of the ledger and reports Failed.
\<close>

lemma failed_task_stays_failed:
  assumes "\<forall>e. \<exists>j. enc e = Ok j \<and> dec j = Ok e" and "\<forall>r \<in> set rows. tk_task_run_id r \<noteq> rid"
    and "run_task json_text compact send append_ev ensure (sql_append_task_event enc) (sql_read_task_events dec)
      gate rid task m ss rows = Some (r1, ss1, rows1)" and "tn_status r1 = TR_Failed"
    and "run_task json_text' compact' send' append_ev' ensure' (sql_append_task_event enc) (sql_read_task_events dec)
      gate' rid task' m' ss' rows1 = Some (r2, ss2, rows2)" and "m' < m"
  shows "tn_status r2 = TR_Failed"
proof -
  from failed_run_newest[OF assms(1-4)] obtain q i msg z where q: "newest rid q rows1" "tk_sequence q = 1 + 2 * int m"
    "dec (tk_record_json q) = Ok (TE_RunFailed i msg z)" by blast
  define ts0 where "ts0 = keep_going rows1 (sql_append_task_event enc rid 0 (TE_Created rid (df_task_id task') (df_instruction task') 0) rows1)"
  have ts0: "newest rid q ts0" unfolding ts0_def by (rule newest_append) (use q in simp_all)
  obtain ok n sx ts1 where r: "run_attempts json_text' compact' send' append_ev' ensure' (sql_append_task_event enc) gate' rid m' 0
      (df_instruction task') 1 ss' ts0 = Some (ok, n, sx, ts1)"
    using sql_tasks.run_attempts_total by (metis prod_cases4)
  have lt: "1 + 2 * int m' < tk_sequence q" using q(2) assms(6) by simp
  from newest_attempts[OF ts0 lt r] have n: "newest rid q ts1" "n < tk_sequence q" using lt by auto
  have "newest rid q rows2"
    using assms(5) r n newest_append[OF n] by (auto simp: run_task_def Let_def ts0_def[symmetric] split: if_splits)
  from newest_failure_projects[where dec = dec, OF this q(3)] assms(5) r show ?thesis by (auto simp: run_task_def Let_def ts0_def[symmetric])
qed

text \<open>The same after a later run, of as many attempts, whose first attempt completes and is accepted.\<close>

lemma completed_rerun_reports_failed:
  assumes "\<forall>e. \<exists>j. enc e = Ok j \<and> dec j = Ok e" and "\<forall>r \<in> set rows. tk_task_run_id r \<noteq> rid"
    and "run_task json_text compact send append_ev ensure (sql_append_task_event enc) (sql_read_task_events dec)
      gate rid task m ss rows = Some (r1, ss1, rows1)" and "tn_status r1 = TR_Failed" and "1 < m"
    and "run_task json_text' compact' send' append_ev' ensure' (sql_append_task_event enc) (sql_read_task_events dec)
      gate' rid task' (Suc left) ss' rows1 = Some (r2, ss2, rows2)"
    and turn: "send_turn json_text' compact' (send' 0) append_ev' ensure' (session_new (rid @ ''-s'' @ show_nat 0)) ss'
      (df_instruction task') None [] = Some (sm, sx, t)" "tr_status t = Run_Completed" "allows (gate' 0 TR_Completed)"
  shows "tn_status r2 = TR_Failed"
proof -
  let ?id = "rid @ ''-a'' @ show_nat 0"
  from failed_run_newest[OF assms(1-4)] obtain q i msg z where q: "newest rid q rows1" "tk_sequence q = 1 + 2 * int m"
    "dec (tk_record_json q) = Ok (TE_RunFailed i msg z)" by blast
  define put where "put k e rows = keep_going rows (sql_append_task_event enc rid k e rows)" for k e rows
  let ?ts = "put 3 (TE_RunCompleted rid 3) (put 2 (TE_AttemptCompleted rid ?id TR_Completed 2) (put 1 (TE_AttemptStarted rid ?id 1)
    (put 0 (TE_Created rid (df_task_id task') (df_instruction task') 0) rows1)))"
  have "run_attempts json_text' compact' send' append_ev' ensure' (sql_append_task_event enc) gate' rid (Suc left) 0 (df_instruction task') 1 ss'
      (put 0 (TE_Created rid (df_task_id task') (df_instruction task') 0) rows1) = Some (True, 3, sx, ?ts)"
    using turn by (simp add: put_def Let_def split: self_check_decision.split)
  then have r2: "rows2 = ?ts" "r2 = unwrap_or \<lparr>tn_task_run_id = rid, tn_task_id = df_task_id task', tn_status = TR_Failed,
      tn_instruction = df_instruction task', tn_started_at = None, tn_finished_at = None, tn_attempt_count = 0\<rparr>
      (project_task_run (case sql_read_task_events dec rid rows2 of Ok es \<Rightarrow> es | Err _ \<Rightarrow> []))"
    using assms(6) by (auto simp: run_task_def put_def[symmetric] Let_def)
  have "newest rid q rows2"
    unfolding r2(1) put_def using q(1,2) \<open>1 < m\<close> by (intro newest_append) simp_all
  from newest_failure_projects[where dec = dec, OF this q(3)] show ?thesis unfolding r2(2) by simp
qed

subsection \<open>Witnesses\<close>

instance task_run_status :: countable
  by countable_datatype

instance task_event :: countable
  by countable_datatype

definition sample_task_enc :: "task_event \<Rightarrow> (string, string) result" where
  "sample_task_enc e = Ok (replicate (to_nat e) CHR ''x'')"

definition sample_task_dec :: "string \<Rightarrow> (task_event, string) result" where
  "sample_task_dec s = Ok (from_nat (length s))"

lemma sample_task_codec: "\<forall>e. \<exists>j. sample_task_enc e = Ok j \<and> sample_task_dec j = Ok e"
  by (simp add: sample_task_enc_def sample_task_dec_def)

definition sample_task :: task_definition where
  "sample_task = \<lparr>df_task_id = ''k'', df_instruction = ''go'', df_workspace_dir = ''/w''\<rparr>"

theorem task_run_outcome_witness:
  "\<exists>run ss' rows' events.
    run_task (\<lambda>_. []) (\<lambda>_. Err []) (\<lambda>_ _. sample_stream) mem_append mem_ensure_terminal
      (sql_append_task_event sample_task_enc) (sql_read_task_events sample_task_dec)
      default_gate_decision ''t'' sample_task 2 (mem_new Canonical) [] = Some (run, ss', rows') \<and>
    sql_read_task_events sample_task_dec ''t'' rows' = Ok events \<and> project_task_run events = Some run"
proof -
  have fresh: "\<forall>r \<in> set []. tk_task_run_id r \<noteq> ''t''" by simp
  show ?thesis
    using task_run_outcome[OF sample_task_codec fresh, of "\<lambda>_. []" "\<lambda>_. Err []" "\<lambda>_ _. sample_stream" mem_append
        mem_ensure_terminal default_gate_decision sample_task 2 "mem_new Canonical"] by blast
qed

lemma model_gate_never_verifies_witness:
  "\<exists>run ss' rows'.
    run_task (\<lambda>_. []) (\<lambda>_. Err []) (\<lambda>_ _. sample_stream) mem_append mem_ensure_terminal
      (sql_append_task_event sample_task_enc) (sql_read_task_events sample_task_dec)
      (\<lambda>attempt st. model_gate_decision (\<lambda>inp. ag_events (agent_send (\<lambda>_. []) (\<lambda>_. []) (\<lambda>_. False) sample_provider
         sample_config attempt sample_world inp)) attempt)
      ''t'' sample_task 2 (mem_new Canonical) [] = Some (run, ss', rows') \<and> tn_status run = TR_Failed"
proof -
  have fresh: "\<forall>r \<in> set []. tk_task_run_id r \<noteq> ''t''" by simp
  have "\<exists>run ss' rows'.
    run_task (\<lambda>_. []) (\<lambda>_. Err []) (\<lambda>_ _. sample_stream) mem_append mem_ensure_terminal
      (sql_append_task_event sample_task_enc) (sql_read_task_events sample_task_dec)
      (\<lambda>attempt st. model_gate_decision (\<lambda>inp. ag_events (agent_send (\<lambda>_. []) (\<lambda>_. []) (\<lambda>_. False) sample_provider
         sample_config attempt sample_world inp)) attempt)
      ''t'' sample_task 2 (mem_new Canonical) [] = Some (run, ss', rows') \<and>
    tn_status run = TR_Failed \<and> tn_attempt_count run = 2"
    by (rule model_gate_never_verifies[OF sample_task_codec fresh]) (rule refl)
  then show ?thesis by blast
qed

lemma failed_task_stays_failed_witness:
  "\<exists>r1 ss1 rows1 r2 ss2 rows2.
    run_task (\<lambda>_. []) (\<lambda>_. Err []) (\<lambda>_ _. sample_stream) mem_append mem_ensure_terminal
      (sql_append_task_event sample_task_enc) (sql_read_task_events sample_task_dec)
      (\<lambda>_ _. Repair [] []) ''t'' sample_task 2 (mem_new Canonical) [] = Some (r1, ss1, rows1) \<and>
    run_task (\<lambda>_. []) (\<lambda>_. Err []) (\<lambda>_ _. sample_stream) mem_append mem_ensure_terminal
      (sql_append_task_event sample_task_enc) (sql_read_task_events sample_task_dec)
      default_gate_decision ''t'' sample_task 1 ss1 rows1 = Some (r2, ss2, rows2) \<and>
    tn_status r2 = TR_Failed"
proof -
  let ?run = "run_task (\<lambda>_. []) (\<lambda>_. Err []) (\<lambda>_ _. sample_stream) mem_append mem_ensure_terminal
      (sql_append_task_event sample_task_enc) (sql_read_task_events sample_task_dec)"
  have fresh: "\<forall>r \<in> set []. tk_task_run_id r \<noteq> ''t''" by simp
  have "\<exists>run ss' rows'. ?run (\<lambda>_ _. Repair [] []) ''t'' sample_task 2 (mem_new Canonical) [] = Some (run, ss', rows') \<and>
      tn_status run = TR_Failed \<and> tn_attempt_count run = 2"
    by (rule rejected_task_fails[OF sample_task_codec fresh]) simp
  then obtain r1 ss1 rows1 where r1: "?run (\<lambda>_ _. Repair [] []) ''t'' sample_task 2 (mem_new Canonical) [] = Some (r1, ss1, rows1)"
    "tn_status r1 = TR_Failed" by blast
  obtain r2 ss2 rows2 where r2: "?run default_gate_decision ''t'' sample_task 1 ss1 rows1 = Some (r2, ss2, rows2)"
    using sql_tasks.run_task_total[of "\<lambda>_. []" "\<lambda>_. Err []" "\<lambda>_ _. sample_stream" mem_append mem_ensure_terminal
        sample_task_enc sample_task_dec default_gate_decision "''t''" sample_task 1 ss1 rows1] by blast
  have "(1 :: nat) < 2" by simp
  from failed_task_stays_failed[OF sample_task_codec fresh r1 r2 this] r1(1) r2 show ?thesis by blast
qed

end
