(* ===== verification/Handshake.thy ===== *)
theory Handshake
  imports Json "HOL-Library.Word"
begin

text \<open>
  The handshake of a client with the host: versions and limits
  (\<^verbatim>\<open>meepo-host/src/protocol/versions.rs\<close>), the error model
  (\<^verbatim>\<open>protocol/errors.rs\<close>), the frames and the negotiation
  (\<^verbatim>\<open>protocol/handshake.rs\<close>).  A \<^verbatim>\<open>u32\<close> is a \<open>32 word\<close>.

  The \<open>_wire\<close> functions are the snake\_case names the declarations derive; the wire form of the
  frames is in the theory of the envelopes.  The text of the library's error messages is not
  modelled.
\<close>

subsection \<open>Versions and limits\<close>

definition REGISTRATION_SCHEMA_VERSION :: "32 word" where "REGISTRATION_SCHEMA_VERSION = 1"
definition PROTOCOL_MIN :: "32 word" where "PROTOCOL_MIN = 0"
definition PROTOCOL_MAX :: "32 word" where "PROTOCOL_MAX = 0"
definition COMPATIBILITY_EPOCH :: "32 word" where "COMPATIBILITY_EPOCH = 10"
definition MAX_FRAME_BYTES :: nat where "MAX_FRAME_BYTES = 96 * 1024"
definition MAX_IN_FLIGHT_DOMAIN_REQUESTS :: nat where "MAX_IN_FLIGHT_DOMAIN_REQUESTS = 64"

subsection \<open>Errors\<close>

datatype protocol_error = InvalidFrame | FrameTooLarge | InvalidUtf8 | InvalidJson

datatype op_error_code =
  HostNotReady | HostDraining | OperationUnavailable | NotFound | SessionArchived | SessionBusy
| OperationConflict | CapabilityUnavailable | InvalidRequest | ProjectionIncomplete | PersistenceFailed
| CommitOutcomeUnknown | AlreadyResolved | OutcomeUnknown | InternalFailure | RevisionConflict

fun code_wire :: "op_error_code \<Rightarrow> string" where
  "code_wire HostNotReady = ''host_not_ready''"
| "code_wire HostDraining = ''host_draining''"
| "code_wire OperationUnavailable = ''operation_unavailable''"
| "code_wire NotFound = ''not_found''"
| "code_wire SessionArchived = ''session_archived''"
| "code_wire SessionBusy = ''session_busy''"
| "code_wire OperationConflict = ''operation_conflict''"
| "code_wire CapabilityUnavailable = ''capability_unavailable''"
| "code_wire InvalidRequest = ''invalid_request''"
| "code_wire ProjectionIncomplete = ''projection_incomplete''"
| "code_wire PersistenceFailed = ''persistence_failed''"
| "code_wire CommitOutcomeUnknown = ''commit_outcome_unknown''"
| "code_wire AlreadyResolved = ''already_resolved''"
| "code_wire OutcomeUnknown = ''outcome_unknown''"
| "code_wire InternalFailure = ''internal_failure''"
| "code_wire RevisionConflict = ''revision_conflict''"

definition all_codes :: "op_error_code list" where
  "all_codes = [HostNotReady, HostDraining, OperationUnavailable, NotFound, SessionArchived, SessionBusy,
     OperationConflict, CapabilityUnavailable, InvalidRequest, ProjectionIncomplete, PersistenceFailed,
     CommitOutcomeUnknown, AlreadyResolved, OutcomeUnknown, InternalFailure, RevisionConflict]"

datatype transport_error = Tr_Closed | Tr_ReadEof | Tr_WriteZero | Tr_Io string

record operation_error =
  oe_code :: op_error_code
  oe_message :: string

definition MAX_ERROR_MESSAGE_CHARS :: nat where "MAX_ERROR_MESSAGE_CHARS = 1024"

definition operation_error_new :: "op_error_code \<Rightarrow> string \<Rightarrow> operation_error" where
  "operation_error_new code message =
     (let message = (if MAX_ERROR_MESSAGE_CHARS < char_count message
                     then chars_take MAX_ERROR_MESSAGE_CHARS message else message)
      in \<lparr>oe_code = code, oe_message = message\<rparr>)"

lemma operation_error_capped: "char_count (oe_message (operation_error_new c m)) \<le> 1024 \<and> prefix (oe_message (operation_error_new c m)) m"
  by (auto simp: operation_error_new_def MAX_ERROR_MESSAGE_CHARS_def Let_def char_count_chars_take chars_take_prefix)

subsection \<open>Frames\<close>

datatype handshake_surface = Surface_Desktop | Surface_Tui | Surface_Run | Surface_Activation | Surface_Bot | Surface_Inspect

fun surface_wire :: "handshake_surface \<Rightarrow> string" where
  "surface_wire Surface_Desktop = ''desktop''"
| "surface_wire Surface_Tui = ''tui''"
| "surface_wire Surface_Run = ''run''"
| "surface_wire Surface_Activation = ''activation''"
| "surface_wire Surface_Bot = ''bot''"
| "surface_wire Surface_Inspect = ''inspect''"

datatype handshake_kind = Kind_Hello | Kind_Accepted | Kind_Incompatible | Kind_Draining

fun kind_wire :: "handshake_kind \<Rightarrow> string" where
  "kind_wire Kind_Hello = ''hello''"
| "kind_wire Kind_Accepted = ''accepted''"
| "kind_wire Kind_Incompatible = ''incompatible''"
| "kind_wire Kind_Draining = ''draining''"

datatype lifecycle_state = State_Starting | State_Recovering | State_Ready | State_Draining

fun state_wire :: "lifecycle_state \<Rightarrow> string" where
  "state_wire State_Starting = ''starting''"
| "state_wire State_Recovering = ''recovering''"
| "state_wire State_Ready = ''ready''"
| "state_wire State_Draining = ''draining''"

datatype replacement_policy = BlockedByResidency | WaitForIdleExit

fun replacement_wire :: "replacement_policy \<Rightarrow> string" where
  "replacement_wire BlockedByResidency = ''blocked_by_residency''"
| "replacement_wire WaitForIdleExit = ''wait_for_idle_exit''"

record hello_frame =
  hl_kind :: handshake_kind
  hl_client_instance_id :: string
  hl_surface :: handshake_surface
  hl_protocol_min :: "32 word"
  hl_protocol_max :: "32 word"
  hl_compatibility_epoch :: "32 word"

record accepted_frame =
  ac_kind :: handshake_kind
  ac_host_epoch :: string
  ac_connection_id :: string
  ac_selected_protocol :: "32 word"
  ac_compatibility_epoch :: "32 word"
  ac_state :: lifecycle_state

record incompatible_frame =
  ic_kind :: handshake_kind
  ic_host_epoch :: string
  ic_protocol_min :: "32 word"
  ic_protocol_max :: "32 word"
  ic_compatibility_epoch :: "32 word"
  ic_state :: lifecycle_state
  ic_replacement :: replacement_policy

record draining_frame =
  dr_kind :: handshake_kind
  dr_host_epoch :: string

definition hello_new :: "string \<Rightarrow> handshake_surface \<Rightarrow> 32 word \<Rightarrow> 32 word \<Rightarrow> 32 word \<Rightarrow> hello_frame" where
  "hello_new cid surface pmin pmax epoch = \<lparr>hl_kind = Kind_Hello, hl_client_instance_id = cid,
     hl_surface = surface, hl_protocol_min = pmin, hl_protocol_max = pmax, hl_compatibility_epoch = epoch\<rparr>"

definition accepted_new :: "string \<Rightarrow> string \<Rightarrow> 32 word \<Rightarrow> 32 word \<Rightarrow> lifecycle_state \<Rightarrow> accepted_frame" where
  "accepted_new host_epoch cid selected epoch state = \<lparr>ac_kind = Kind_Accepted, ac_host_epoch = host_epoch,
     ac_connection_id = cid, ac_selected_protocol = selected, ac_compatibility_epoch = epoch, ac_state = state\<rparr>"

definition draining_new :: "string \<Rightarrow> draining_frame" where
  "draining_new host_epoch = \<lparr>dr_kind = Kind_Draining, dr_host_epoch = host_epoch\<rparr>"

datatype handshake_result =
  HR_Accepted accepted_frame | HR_Incompatible incompatible_frame | HR_Draining draining_frame

subsection \<open>Negotiation\<close>

datatype handshake_error = InvalidRange "32 word" "32 word" | NoOverlap

definition validate_protocol_range :: "32 word \<Rightarrow> 32 word \<Rightarrow> (unit, handshake_error) result" where
  "validate_protocol_range pmin pmax = (if pmax < pmin then Err (InvalidRange pmin pmax) else Ok ())"

definition negotiate_protocol ::
    "32 word \<Rightarrow> 32 word \<Rightarrow> 32 word \<Rightarrow> 32 word \<Rightarrow> (32 word, handshake_error) result" where
  "negotiate_protocol client_min client_max host_min host_max =
     (case validate_protocol_range client_min client_max of
        Err e \<Rightarrow> Err e
      | Ok _ \<Rightarrow>
        (case validate_protocol_range host_min host_max of
           Err e \<Rightarrow> Err e
         | Ok _ \<Rightarrow>
             (let selected = min client_max host_max; floor = max client_min host_min
              in if floor \<le> selected then Ok selected else Err NoOverlap)))"

text \<open>
  Negotiation is exact: a version is selected if and only if
  it is the greatest version in both ranges, \<open>NoOverlap\<close> is answered exactly for two proper but
  disjoint ranges, and an inverted range (the client's first) is refused as such.  Swapping the
  two sides selects the same version.
\<close>

lemma negotiation_picks_newest_common:
  "((negotiate_protocol a b c d = Ok v) = (v \<in> {a..b} \<inter> {c..d} \<and> (\<forall>w \<in> {a..b} \<inter> {c..d}. w \<le> v))) \<and>
   ((negotiate_protocol a b c d = Err NoOverlap) = (a \<le> b \<and> c \<le> d \<and> {a..b} \<inter> {c..d} = {})) \<and>
   ((negotiate_protocol a b c d = Err (InvalidRange x y)) =
      (y < x \<and> (x = a \<and> y = b \<or> a \<le> b \<and> x = c \<and> y = d))) \<and>
   ((negotiate_protocol a b c d = Ok v) = (negotiate_protocol c d a b = Ok v))"
proof (intro conjI)
  note d = negotiate_protocol_def validate_protocol_range_def Let_def
  define lo hi where "lo = max a c" and "hi = min b d"
  have common: "{a..b} \<inter> {c..d} = {lo..hi}" by (simp add: lo_def hi_def)
  have proper: "a \<le> b \<and> c \<le> d" if "lo \<le> hi" using that by (simp add: lo_def hi_def)
  have neg: "negotiate_protocol a b c d =
      (if b < a then Err (InvalidRange a b) else if d < c then Err (InvalidRange c d)
       else if lo \<le> hi then Ok hi else Err NoOverlap)" by (simp add: d lo_def hi_def)
  have "(negotiate_protocol a b c d = Ok v) = (lo \<le> hi \<and> v = hi)"
    using proper by (auto simp: neg not_less)
  moreover have "(v \<in> {lo..hi} \<and> (\<forall>w \<in> {lo..hi}. w \<le> v)) = (lo \<le> hi \<and> v = hi)"
    by (auto intro: antisym order_trans)
  ultimately show "(negotiate_protocol a b c d = Ok v) =
      (v \<in> {a..b} \<inter> {c..d} \<and> (\<forall>w \<in> {a..b} \<inter> {c..d}. w \<le> v))" by (simp only: common)
  show "(negotiate_protocol a b c d = Err NoOverlap) = (a \<le> b \<and> c \<le> d \<and> {a..b} \<inter> {c..d} = {})"
    by (auto simp only: neg common atLeastatMost_empty_iff not_less not_le split: if_splits)
  show "(negotiate_protocol a b c d = Err (InvalidRange x y)) =
      (y < x \<and> (x = a \<and> y = b \<or> a \<le> b \<and> x = c \<and> y = d))"
    by (auto simp: neg not_less)
  show "(negotiate_protocol a b c d = Ok v) = (negotiate_protocol c d a b = Ok v)"
    by (simp add: d min.commute max.commute)
qed

lemma negotiation_picks_newest_common_witness:
  "negotiate_protocol 2 5 3 7 = Ok 5 \<and> 5 \<in> {2..5} \<inter> {3..7::32 word} \<and>
   negotiate_protocol 1 2 3 7 = Err NoOverlap \<and> negotiate_protocol 4 2 9 7 = Err (InvalidRange 4 2)"
proof (intro conjI)
  show "negotiate_protocol 2 5 3 7 = Ok 5"
    using negotiation_picks_newest_common [of 2 5 3 7 5 0 0] by (auto simp: word_le_nat_alt)
  show "5 \<in> {2..5} \<inter> {3..7::32 word}" by (simp add: word_le_nat_alt)
  have "{1..2} \<inter> {3..7::32 word} = {}" by (auto simp: word_le_nat_alt)
  then show "negotiate_protocol 1 2 3 7 = Err NoOverlap"
    using negotiation_picks_newest_common [of 1 2 3 7 0 0 0] by (simp add: word_le_nat_alt)
  show "negotiate_protocol 4 2 9 7 = Err (InvalidRange 4 2)"
    using negotiation_picks_newest_common [of 4 2 9 7 0 4 2] by (simp add: word_less_nat_alt)
qed

end
