(* ===== verification/Checkpoint.thy ===== *)
theory Checkpoint
  imports Events
begin

text \<open>
  Compaction checkpoints (\<^verbatim>\<open>meepo-runtime/src/checkpoint.rs\<close>): a summary of a
  prefix of events with a digest over their canonical JSON.  SHA-256 and the canonical JSON of
  an event (with \<^verbatim>\<open>unwrap_or_default\<close> for an event that has none) are the
  parameters \<open>sha256\<close> and \<open>canon\<close>; a failed \<^verbatim>\<open>assert!\<close> is \<open>None\<close>.
\<close>

record checkpoint =
  ck_checkpoint_id :: string
  ck_session_id :: string
  ck_created_at_ts :: int
  ck_event_count :: nat
  ck_turn_count :: nat
  ck_through_run_id :: string
  ck_through_turn_id :: string
  ck_through_event_id :: string
  ck_source_digest :: string
  ck_summary :: string
  ck_previous_checkpoint_id :: "string option"

definition digest_input :: "(runtime_event \<Rightarrow> (string, string) result) \<Rightarrow> runtime_event list \<Rightarrow> string" where
  "digest_input canon es =
     concat (map (\<lambda>e. (case canon e of Ok j \<Rightarrow> j | Err _ \<Rightarrow> '''') @ [CHR 0x0A]) es)"

definition source_digest ::
    "(string \<Rightarrow> string) \<Rightarrow> (runtime_event \<Rightarrow> (string, string) result) \<Rightarrow> runtime_event list \<Rightarrow> string" where
  "source_digest sha256 canon es = ''sha256:'' @ hex_lower (sha256 (digest_input canon es))"

definition build_checkpoint ::
    "(string \<Rightarrow> string) \<Rightarrow> (runtime_event \<Rightarrow> (string, string) result) \<Rightarrow> string \<Rightarrow>
     runtime_event list \<Rightarrow> string \<Rightarrow> string option \<Rightarrow> int \<Rightarrow> checkpoint option" where
  "build_checkpoint sha256 canon sid covered summary previous now_ts =
     (if covered = [] then None
      else if \<not> list_all (\<lambda>e. ev_session_id e = sid) covered then None
      else if \<not> list_all (\<lambda>e. unwrap_or False (ev_partial e) = False) covered then None
      else
        let trimmed = str_trim summary in
        if trimmed = [] then None
        else
          let final = last covered in
          Some \<lparr>ck_checkpoint_id = ''ckpt-'' @ sid @ ''-'' @ show_nat (length covered),
                ck_session_id = sid, ck_created_at_ts = now_ts, ck_event_count = length covered,
                ck_turn_count = length (remdups (map ev_turn_id covered)),
                ck_through_run_id = ev_run_id final, ck_through_turn_id = ev_turn_id final,
                ck_through_event_id = ev_id final, ck_source_digest = source_digest sha256 canon covered,
                ck_summary = trimmed, ck_previous_checkpoint_id = previous\<rparr>)"

definition verify_checkpoint_prefix ::
    "(string \<Rightarrow> string) \<Rightarrow> (runtime_event \<Rightarrow> (string, string) result) \<Rightarrow> checkpoint \<Rightarrow>
     runtime_event list \<Rightarrow> (unit, string) result" where
  "verify_checkpoint_prefix sha256 canon ck source =
     (if length source < ck_event_count ck then Err ''coverage_miss''
      else
        let pre = take (ck_event_count ck) source in
        if pre = [] then Err ''coverage_miss''
        else if ev_run_id (last pre) \<noteq> ck_through_run_id ck \<or>
                ev_turn_id (last pre) \<noteq> ck_through_turn_id ck \<or>
                ev_id (last pre) \<noteq> ck_through_event_id ck
        then Err ''coverage_miss''
        else if source_digest sha256 canon pre \<noteq> ck_source_digest ck
        then Err ''source_hash_mismatch''
        else Ok ())"

text \<open>Lines without a newline can be read back from their concatenation.\<close>

lemma lines_inj:
  assumes "concat (map (\<lambda>l. l @ [c]) xs) = concat (map (\<lambda>l. l @ [c]) ys)"
    and "\<forall>l \<in> set xs \<union> set ys. c \<notin> set l"
  shows "xs = ys"
  using assms
proof (induction xs arbitrary: ys)
  case Nil
  then show ?case by (cases ys) auto
next
  case (Cons x xs)
  then obtain y zs where ys: "ys = y # zs" by (cases ys) auto
  from Cons.prems ys have "x @ [c] @ concat (map (\<lambda>l. l @ [c]) xs) = y @ [c] @ concat (map (\<lambda>l. l @ [c]) zs)"
    by simp
  then have "x = y \<and> concat (map (\<lambda>l. l @ [c]) xs) = concat (map (\<lambda>l. l @ [c]) zs)"
    by (rule sep_append_inj) (use Cons.prems ys in auto)
  with Cons.IH[of zs] Cons.prems(2) ys show ?case by auto
qed

lemma digest_input_lines:
  "digest_input canon es = concat (map (\<lambda>l. l @ [CHR 0x0A]) (map (\<lambda>e. case canon e of Ok j \<Rightarrow> j | Err _ \<Rightarrow> '''') es))"
  by (simp add: digest_input_def comp_def)

lemma source_digest_inj:
  assumes "source_digest sha256 canon xs = source_digest sha256 canon ys"
    and "sha256 (digest_input canon xs) = sha256 (digest_input canon ys) \<Longrightarrow>
         digest_input canon xs = digest_input canon ys"
    and "\<forall>e \<in> set xs \<union> set ys. \<exists>j. canon e = Ok j \<and> CHR 0x0A \<notin> set j"
    and "\<forall>e \<in> set xs \<union> set ys. \<forall>e' \<in> set xs \<union> set ys. canon e = canon e' \<longrightarrow> e = e'"
  shows "xs = ys"
proof -
  let ?f = "\<lambda>e. case canon e of Ok j \<Rightarrow> j | Err _ \<Rightarrow> ''''"
  from assms(1) have "hex_lower (sha256 (digest_input canon xs)) = hex_lower (sha256 (digest_input canon ys))"
    by (simp add: source_digest_def)
  then have "digest_input canon xs = digest_input canon ys"
    by (rule assms(2)[OF hex_lower_inj])
  moreover have "\<forall>l \<in> set (map ?f xs) \<union> set (map ?f ys). CHR 0x0A \<notin> set l"
  proof
    fix l assume "l \<in> set (map ?f xs) \<union> set (map ?f ys)"
    then obtain e where e: "e \<in> set xs \<union> set ys" "l = ?f e" by auto
    with assms(3) obtain j where "canon e = Ok j" "CHR 0x0A \<notin> set j" by blast
    with e(2) show "CHR 0x0A \<notin> set l" by simp
  qed
  ultimately have "map ?f xs = map ?f ys"
    unfolding digest_input_lines by (rule lines_inj)
  then show ?thesis
  proof (rule list.inj_map_strong[rotated])
    fix x y assume "x \<in> set xs" "y \<in> set ys" "?f x = ?f y"
    with assms(3,4) show "x = y" by (metis UnI1 UnI2 sum.simps(6))
  qed
qed

text \<open>
  A checkpoint verifies against its own events and against every longer
  history that starts with them.
\<close>

lemma checkpoint_roundtrip:
  assumes "build_checkpoint sha256 canon sid covered summary previous now_ts = Some ck"
  shows "verify_checkpoint_prefix sha256 canon ck (covered @ later) = Ok () \<and>
    ck_event_count ck = length covered \<and> ck_summary ck = str_trim summary \<and>
    ck_turn_count ck = card (ev_turn_id ` set covered)"
  using assms
  by (auto simp: build_checkpoint_def verify_checkpoint_prefix_def Let_def length_remdups_card_conv
      split: if_splits)


definition sample_canon :: "runtime_event \<Rightarrow> (string, string) result" where
  "sample_canon e = Ok (ev_id e)"

definition sample_checkpoint :: "checkpoint option" where
  "sample_checkpoint =
     build_checkpoint (\<lambda>x. x) sample_canon ''s'' [sample_call, sample_response] '' done '' None 0"

lemma sample_checkpoint_some:
  obtains ck where "sample_checkpoint = Some ck"
    "verify_checkpoint_prefix (\<lambda>x. x) sample_canon ck [sample_call, sample_response] = Ok ()"
proof -
  have "str_trim '' done '' = ''done''"
    by (simp add: str_trim_def trim_end_def trim_start.simps trim_start_rev.simps ascii_ws_def ws2_def ws3_def)
  then have "\<exists>ck. sample_checkpoint = Some ck \<and>
      verify_checkpoint_prefix (\<lambda>x. x) sample_canon ck [sample_call, sample_response] = Ok ()"
    by (simp add: sample_checkpoint_def build_checkpoint_def verify_checkpoint_prefix_def
        Let_def sample_call_def sample_response_def sample_event_def)
  with that show thesis by blast
qed

lemma checkpoint_roundtrip_witness:
  "\<exists>ck. sample_checkpoint = Some ck \<and>
     verify_checkpoint_prefix (\<lambda>x. x) sample_canon ck [sample_call, sample_response, sample_call] = Ok ()"
proof -
  obtain ck where ck: "sample_checkpoint = Some ck" by (rule sample_checkpoint_some)
  from checkpoint_roundtrip[OF ck[unfolded sample_checkpoint_def], of "[sample_call]"] ck show ?thesis by auto
qed


end
