(* ===== verification/Utf8.thy ===== *)
theory Utf8
  imports Prelude
begin

text \<open>
  Bytes as UTF-8 text, as the standard library checks it (\<^verbatim>\<open>str::from_utf8\<close>, used by
  the line codec) and repairs it (\<^verbatim>\<open>String::from_utf8_lossy\<close>, used by the tools).
\<close>

subsection \<open>UTF-8\<close>

definition cont_in :: "nat \<Rightarrow> nat \<Rightarrow> char \<Rightarrow> bool" where
  "cont_in lo hi c = (lo \<le> (of_char c :: nat) \<and> (of_char c :: nat) \<le> hi)"

text \<open>The range of the second byte of a sequence and the number of bytes after it, by its first byte.\<close>

definition utf8_lead :: "char \<Rightarrow> (nat \<times> nat \<times> nat) option" where
  "utf8_lead c = (let n = (of_char c :: nat) in
     if 0xC2 \<le> n \<and> n \<le> 0xDF then Some (0x80, 0xBF, 0)
     else if n = 0xE0 then Some (0xA0, 0xBF, 1)
     else if n = 0xED then Some (0x80, 0x9F, 1)
     else if 0xE1 \<le> n \<and> n \<le> 0xEF then Some (0x80, 0xBF, 1)
     else if n = 0xF0 then Some (0x90, 0xBF, 2)
     else if 0xF1 \<le> n \<and> n \<le> 0xF3 then Some (0x80, 0xBF, 2)
     else if n = 0xF4 then Some (0x80, 0x8F, 2)
     else None)"

function utf8_valid :: "string \<Rightarrow> bool" where
  "utf8_valid [] = True"
| "utf8_valid (b # bs) =
     (if (of_char b :: nat) < 0x80 then utf8_valid bs
      else (case utf8_lead b of
          None \<Rightarrow> False
        | Some (lo, hi, n) \<Rightarrow>
            (case bs of
               [] \<Rightarrow> False
             | c # cs \<Rightarrow> cont_in lo hi c \<and> n \<le> length cs \<and> list_all is_cont (take n cs) \<and> utf8_valid (drop n cs))))"
  by pat_completeness auto
termination by (relation "measure length") auto

subsection \<open>Repair\<close>

definition replacement_character :: string where "replacement_character = [CHR 0xEF, CHR 0xBF, CHR 0xBD]"

text \<open>\<^verbatim>\<open>String::from_utf8_lossy\<close>: a sequence that breaks off is replaced up to there.\<close>

function utf8_lossy :: "string \<Rightarrow> string" where
  "utf8_lossy [] = []"
| "utf8_lossy (b # bs) =
     (if (of_char b :: nat) < 0x80 then b # utf8_lossy bs
      else (case utf8_lead b of
          None \<Rightarrow> replacement_character @ utf8_lossy bs
        | Some (lo, hi, n) \<Rightarrow>
            (case bs of
               [] \<Rightarrow> replacement_character
             | c # cs \<Rightarrow>
                 (if cont_in lo hi c then
                    (let t = takeWhile is_cont (take n cs) in
                     if length t = n then b # c # t @ utf8_lossy (drop n cs)
                     else replacement_character @ utf8_lossy (drop (length t) cs))
                  else replacement_character @ utf8_lossy bs))))"
  by pat_completeness auto
termination by (relation "measure length") auto

lemma replacement_valid: "utf8_valid (replacement_character @ s) = utf8_valid s"
  by (simp add: replacement_character_def utf8_lead_def cont_in_def is_cont_def Let_def)

lemma utf8_lossy_valid: "utf8_valid (utf8_lossy s)"
proof (induction s rule: length_induct)
  case (1 s)
  then have IH: "length t < length s \<Longrightarrow> utf8_valid (utf8_lossy t)" for t by blast
  show ?case
  proof (cases s)
    case (Cons b bs)
    have all: "utf8_valid (utf8_lossy bs)" using IH[of bs] Cons by simp
    show ?thesis
    proof (cases "(of_char b :: nat) < 0x80 \<or> utf8_lead b = None \<or> bs = []")
      case True
      then show ?thesis using all Cons replacement_valid[of "[]"]
        by (cases "utf8_lead b"; cases bs) (auto simp: replacement_valid split: prod.split)
    next
      case False
      then obtain lo hi n c cs where r: "utf8_lead b = Some (lo, hi, n)" "bs = c # cs" "\<not> (of_char b :: nat) < 0x80"
        by (metis neq_Nil_conv option.exhaust prod_cases3)
      let ?t = "takeWhile is_cont (take n cs)"
      have t: "list_all is_cont ?t" by (auto simp: list_all_iff dest: set_takeWhileD)
      have rest: "utf8_valid (utf8_lossy (drop k cs))" for k using IH[of "drop k cs"] Cons r by simp
      show ?thesis using Cons r t rest all by (simp add: Let_def replacement_valid)
    qed
  qed simp
qed

lemma utf8_lossy_id: "utf8_valid s \<Longrightarrow> utf8_lossy s = s"
proof (induction s rule: length_induct)
  case (1 s)
  then have IH: "length t < length s \<Longrightarrow> utf8_valid t \<Longrightarrow> utf8_lossy t = t" for t by blast
  show ?case
  proof (cases s)
    case (Cons b bs)
    show ?thesis
    proof (cases "(of_char b :: nat) < 0x80")
      case False
      then have "bs \<noteq> []" using 1(2) Cons by (auto split: option.splits)
      then obtain c cs where bs: "bs = c # cs" by (cases bs) auto
      then obtain lo hi n where r: "utf8_lead b = Some (lo, hi, n)" "bs = c # cs" "cont_in lo hi c" "n \<le> length cs"
        "list_all is_cont (take n cs)" "utf8_valid (drop n cs)"
        using False 1(2) Cons by (auto split: option.splits)
      then have t: "takeWhile is_cont (take n cs) = take n cs" by (simp add: list_all_iff takeWhile_eq_all_conv)
      have "utf8_lossy (drop n cs) = drop n cs" using IH[of "drop n cs"] r Cons by simp
      then show ?thesis using False r Cons by (simp add: Let_def min_def t)
    qed (use 1 Cons in simp)
  qed simp
qed

end
