(* ===== verification/Wire_Codec.thy ===== *)
theory Wire_Codec
  imports Handshake Utf8
begin

text \<open>
  The line codec (\<^verbatim>\<open>meepo-host/src/protocol/codec.rs\<close>) on byte strings.  The JSON
  library is a parameter: \<open>to_text v\<close> is \<^verbatim>\<open>serde_json::to_vec\<close> and \<open>of_text s\<close> is
  \<^verbatim>\<open>serde_json::from_str\<close>.  UTF-8 validation is the standard library's and is spelled
  out.  \<open>decode_frame\<close> answers the decoded value, if any, and the bytes left in the buffer; a
  framing fault ends the connection, so no buffer is left after it.
\<close>

subsection \<open>The codec\<close>

abbreviation LF :: char where "LF \<equiv> CHR 0x0A"
abbreviation CR :: char where "CR \<equiv> CHR 0x0D"

text \<open>The bytes before the first LF and those after it.\<close>

fun find_lf :: "string \<Rightarrow> nat option" where
  "find_lf [] = None"
| "find_lf (b # bs) = (if b = LF then Some 0 else map_option Suc (find_lf bs))"

definition decode_frame ::
    "(string \<Rightarrow> json option) \<Rightarrow> string \<Rightarrow> (json option \<times> string, protocol_error) result" where
  "decode_frame of_text buf =
     (case find_lf buf of
        None \<Rightarrow> if MAX_FRAME_BYTES < length buf then Err FrameTooLarge else Ok (None, buf)
      | Some lf \<Rightarrow>
          (if lf = 0 \<or> (lf = 1 \<and> buf ! 0 = CR) then Err InvalidFrame
           else if MAX_FRAME_BYTES < lf + 1 then Err FrameTooLarge
           else
             (let fin = (if buf ! (lf - 1) = CR then lf - 1 else lf); line = take fin buf
              in if \<not> utf8_valid line then Err InvalidUtf8
                 else (case of_text line of
                     None \<Rightarrow> Err InvalidJson
                   | Some v \<Rightarrow> Ok (Some v, drop (lf + 1) buf)))))"

definition encode_frame ::
    "(json \<Rightarrow> string option) \<Rightarrow> json \<Rightarrow> string \<Rightarrow> (string, protocol_error) result" where
  "encode_frame to_text v buf =
     (case to_text v of
        None \<Rightarrow> Err InvalidJson
      | Some s \<Rightarrow> if MAX_FRAME_BYTES < length s + 1 then Err FrameTooLarge else Ok (buf @ s @ [LF]))"

subsection \<open>Reading a stream\<close>

text \<open>
  The reader calls the decoder until it asks for more bytes, appends the next bytes that arrive, and
  goes on; the first fault ends it.  \<open>decode_all\<close> answers the values, the buffer, and the fault.
\<close>

lemma find_lf_lt: "find_lf s = Some n \<Longrightarrow> n < length s \<and> s ! n = LF \<and> LF \<notin> set (take n s)"
proof (induction s arbitrary: n)
  case (Cons b s)
  show ?case
  proof (cases "b = LF")
    case False
    with Cons.prems obtain m where "find_lf s = Some m" "n = Suc m" by auto
    with False Cons.IH show ?thesis by auto
  qed (use Cons.prems in auto)
qed simp

lemma decode_frame_shorter: "decode_frame of_text buf = Ok (Some v, rest) \<Longrightarrow> length rest < length buf"
  by (auto simp: decode_frame_def Let_def split: option.splits if_splits dest: find_lf_lt)

function decode_all :: "(string \<Rightarrow> json option) \<Rightarrow> string \<Rightarrow> json list \<times> string \<times> protocol_error option" where
  "decode_all of_text buf =
     (case decode_frame of_text buf of
        Err e \<Rightarrow> ([], [], Some e)
      | Ok (None, rest) \<Rightarrow> ([], rest, None)
      | Ok (Some v, rest) \<Rightarrow> (let (vs, out) = decode_all of_text rest in (v # vs, out)))"
  by pat_completeness auto
termination
  by (relation "measure (\<lambda>(_, buf). length buf)") (auto dest: decode_frame_shorter)

declare decode_all.simps [simp del]

fun feed :: "(string \<Rightarrow> json option) \<Rightarrow> string list \<Rightarrow> string \<Rightarrow> json list \<times> string \<times> protocol_error option" where
  "feed of_text [] buf = ([], buf, None)"
| "feed of_text (chunk # chunks) buf =
     (case decode_all of_text (buf @ chunk) of
        (vs, rest, Some e) \<Rightarrow> (vs, rest, Some e)
      | (vs, rest, None) \<Rightarrow> (let (ws, out) = feed of_text chunks rest in (vs @ ws, out)))"

fun encode_all :: "(json \<Rightarrow> string option) \<Rightarrow> json list \<Rightarrow> string \<Rightarrow> (string, protocol_error) result" where
  "encode_all to_text [] buf = Ok buf"
| "encode_all to_text (v # vs) buf =
     (case encode_frame to_text v buf of Err e \<Rightarrow> Err e | Ok buf' \<Rightarrow> encode_all to_text vs buf')"

text \<open>
  What the codec relies on: the text of a value is one line of UTF-8 that does not end in CR,
  and reading it back gives the value.
\<close>

definition text_ok :: "(json \<Rightarrow> string option) \<Rightarrow> (string \<Rightarrow> json option) \<Rightarrow> json \<Rightarrow> bool" where
  "text_ok to_text of_text v =
     (case to_text v of
        None \<Rightarrow> False
      | Some s \<Rightarrow> s \<noteq> [] \<and> LF \<notin> set s \<and> last s \<noteq> CR \<and> utf8_valid s \<and> of_text s = Some v)"

lemma find_lf_append_none: "LF \<notin> set s \<Longrightarrow> find_lf (s @ t) = map_option (\<lambda>n. length s + n) (find_lf t)"
  by (induction s; cases "find_lf t") auto

lemma find_lf_None: "find_lf s = None \<longleftrightarrow> LF \<notin> set s"
  by (induction s) auto

lemma decode_one:
  assumes "text_ok to_text of_text v" and "to_text v = Some s" and "length s + 1 \<le> MAX_FRAME_BYTES"
  shows "decode_frame of_text (s @ LF # rest) = Ok (Some v, rest)"
proof -
  from assms have s: "s \<noteq> []" "LF \<notin> set s" "last s \<noteq> CR" "utf8_valid s" "of_text s = Some v"
    by (simp_all add: text_ok_def)
  have lf: "find_lf (s @ LF # rest) = Some (length s)" using s(2) by (simp add: find_lf_append_none)
  have l: "(s @ LF # rest) ! (length s - 1) = last s" using s(1) by (simp add: nth_append last_conv_nth)
  have "\<not> (length s = 1 \<and> (s @ LF # rest) ! 0 = CR)" using s(1,3) by (cases s) auto
  with s lf l assms(3) show ?thesis by (simp add: decode_frame_def)
qed

lemma decode_partial: "LF \<notin> set p \<Longrightarrow> length p \<le> MAX_FRAME_BYTES \<Longrightarrow> decode_all of_text p = ([], p, None)"
  by (simp add: decode_all.simps decode_frame_def find_lf_None[THEN iffD2])

definition line_of :: "(json \<Rightarrow> string option) \<Rightarrow> json \<Rightarrow> string" where
  "line_of to_text v = (case to_text v of None \<Rightarrow> [] | Some s \<Rightarrow> s)"

definition stream_of :: "(json \<Rightarrow> string option) \<Rightarrow> json list \<Rightarrow> string" where
  "stream_of to_text vs = concat (map (\<lambda>v. line_of to_text v @ [LF]) vs)"

definition sendable :: "(json \<Rightarrow> string option) \<Rightarrow> (string \<Rightarrow> json option) \<Rightarrow> json \<Rightarrow> bool" where
  "sendable to_text of_text v = (text_ok to_text of_text v \<and> length (line_of to_text v) + 1 \<le> MAX_FRAME_BYTES)"

lemma sendable_line:
  "sendable to_text of_text v \<Longrightarrow>
     to_text v = Some (line_of to_text v) \<and> LF \<notin> set (line_of to_text v) \<and> length (line_of to_text v) + 1 \<le> MAX_FRAME_BYTES"
  by (auto simp: sendable_def text_ok_def line_of_def split: option.splits)

lemma stream_Cons: "stream_of to_text (v # vs) = line_of to_text v @ LF # stream_of to_text vs"
  by (simp add: stream_of_def)

lemma decode_all_line:
  assumes "sendable to_text of_text v"
  shows "decode_all of_text (line_of to_text v @ LF # rest) =
     (let (vs, out) = decode_all of_text rest in (v # vs, out))"
proof -
  have "decode_frame of_text (line_of to_text v @ LF # rest) = Ok (Some v, rest)"
    using assms sendable_line[OF assms] by (intro decode_one[of to_text of_text v]) (auto simp: sendable_def)
  then show ?thesis by (simp add: decode_all.simps[of of_text "line_of to_text v @ LF # rest"])
qed

lemma decode_all_stream: "list_all (sendable to_text of_text) vs \<Longrightarrow> decode_all of_text (stream_of to_text vs) = (vs, [], None)"
proof (induction vs)
  case Nil
  then show ?case by (simp add: stream_of_def decode_partial)
next
  case (Cons v vs)
  then show ?case by (simp add: stream_Cons decode_all_line)
qed

lemma decode_all_prefix:
  assumes "list_all (sendable to_text of_text) vs" and "p @ q = stream_of to_text vs"
  shows "\<exists>vs1 vs2 r. vs = vs1 @ vs2 \<and> decode_all of_text p = (vs1, r, None) \<and> r @ q = stream_of to_text vs2 \<and>
    (q = [] \<longrightarrow> vs2 = [])"
  using assms
proof (induction vs arbitrary: p)
  case Nil
  then show ?case by (auto simp: stream_of_def decode_partial)
next
  case (Cons v vs)
  define s where "s = line_of to_text v"
  from Cons.prems have v: "sendable to_text of_text v" and vs: "list_all (sendable to_text of_text) vs" by auto
  from Cons.prems(2) have pq: "p @ q = s @ LF # stream_of to_text vs" by (simp add: stream_Cons s_def)
  show ?case
  proof (cases "length p \<le> length s")
    case True
    with pq have "prefix p s"
      by (metis prefixI prefix_length_prefix)
    then have "LF \<notin> set p" "length p \<le> MAX_FRAME_BYTES"
      using sendable_line[OF v] set_mono_prefix[of p s] True by (auto simp: s_def)
    then have "decode_all of_text p = ([], p, None)" by (rule decode_partial)
    moreover have "q \<noteq> []" using pq True by auto
    ultimately show ?thesis using Cons.prems(2) by auto
  next
    case False
    with pq have "\<exists>p'. p = s @ LF # p' \<and> p' @ q = stream_of to_text vs"
      by (auto simp: append_eq_append_conv2 append_eq_Cons_conv Cons_eq_append_conv)
    then obtain p' where p: "p = s @ LF # p'" and q: "p' @ q = stream_of to_text vs" by blast
    from Cons.IH[OF vs q] obtain vs1 vs2 r where "vs = vs1 @ vs2"
      "decode_all of_text p' = (vs1, r, None)" "r @ q = stream_of to_text vs2" "q = [] \<longrightarrow> vs2 = []" by blast
    then show ?thesis
      using decode_all_line[OF v, of p'] by (auto simp: p s_def intro!: exI[of _ "v # vs1"])
  qed
qed

lemma feed_stream:
  assumes "list_all (sendable to_text of_text) vs" and "r @ concat chunks = stream_of to_text vs"
    and "chunks = [] \<longrightarrow> vs = []"
  shows "feed of_text chunks r = (vs, [], None)"
  using assms
proof (induction chunks arbitrary: r vs)
  case Nil
  then show ?case by (simp add: stream_of_def)
next
  case (Cons c cs)
  from Cons.prems(2) have "(r @ c) @ concat cs = stream_of to_text vs" by simp
  from decode_all_prefix[OF Cons.prems(1) this] obtain vs1 vs2 r' where vs: "vs = vs1 @ vs2"
    and d: "decode_all of_text (r @ c) = (vs1, r', None)" and r': "r' @ concat cs = stream_of to_text vs2"
    and e: "concat cs = [] \<longrightarrow> vs2 = []" by blast
  have "feed of_text cs r' = (vs2, [], None)"
    using Cons.IH[OF _ r'] Cons.prems(1) e by (simp add: vs)
  with d show ?case by (simp add: vs)
qed

lemma encode_all_stream:
  assumes "list_all (text_ok to_text of_text) vs"
  shows "encode_all to_text vs buf =
    (if list_all (sendable to_text of_text) vs then Ok (buf @ stream_of to_text vs) else Err FrameTooLarge)"
  using assms
proof (induction vs arbitrary: buf)
  case Nil
  then show ?case by (simp add: stream_of_def)
next
  case (Cons v vs)
  then obtain s where s: "to_text v = Some s" by (auto simp: text_ok_def split: option.splits)
  with Cons show ?case
    by (auto simp: encode_frame_def sendable_def line_of_def stream_Cons)
qed

text \<open>
  C20. What one side writes the other side reads: the frames of any list of
  values, cut into chunks anywhere (within a character, within a delimiter's line), come out in
  order, none lost, no bytes left over, no fault.  Writing fails for no other reason
  than a frame over the cap.
\<close>

theorem codec_stream_roundtrip:
  assumes "list_all (text_ok to_text of_text) vs"
  shows "(encode_all to_text vs [] = Err FrameTooLarge \<or> (\<exists>bytes. encode_all to_text vs [] = Ok bytes)) \<and>
    (\<forall>bytes chunks. encode_all to_text vs [] = Ok bytes \<and> concat chunks = bytes \<longrightarrow>
       feed of_text chunks [] = (vs, [], None)) \<and>
    (encode_all to_text vs [] = Err FrameTooLarge \<longleftrightarrow>
       (\<exists>v \<in> set vs. MAX_FRAME_BYTES < length (line_of to_text v) + 1))"
proof -
  have iff: "list_all (sendable to_text of_text) vs \<longleftrightarrow> \<not> (\<exists>v \<in> set vs. MAX_FRAME_BYTES < length (line_of to_text v) + 1)"
    using assms by (auto simp: list_all_iff sendable_def)
  have "feed of_text chunks [] = (vs, [], None)"
    if "encode_all to_text vs [] = Ok bytes" "concat chunks = bytes" for bytes chunks
  proof (rule feed_stream)
    show v: "list_all (sendable to_text of_text) vs" and c: "[] @ concat chunks = stream_of to_text vs"
      using that by (auto simp: encode_all_stream[OF assms] split: if_splits)
    show "chunks = [] \<longrightarrow> vs = []" using c by (cases vs) (auto simp: stream_Cons)
  qed
  then show ?thesis by (auto simp: encode_all_stream[OF assms] iff)
qed

definition sample_text :: "json \<Rightarrow> string option" where
  "sample_text v = (case v of JBool True \<Rightarrow> Some ''true'' | JStr s \<Rightarrow> Some [CHR 0xC3, CHR 0xA9] | _ \<Rightarrow> None)"
definition sample_read :: "string \<Rightarrow> json option" where
  "sample_read s = (if s = ''true'' then Some (JBool True)
     else if s = [CHR 0xC3, CHR 0xA9] then Some (JStr []) else None)"

theorem codec_stream_roundtrip_witness:
  "feed sample_read [''tr'', [CHR ''u'', CHR ''e'', LF, CHR 0xC3], [CHR 0xA9, LF]] [] = ([JBool True, JStr []], [], None)"
proof -
  have ok: "list_all (text_ok sample_text sample_read) [JBool True, JStr []]"
    by (simp add: text_ok_def sample_text_def sample_read_def utf8_lead_def cont_in_def Let_def)
  have "encode_all sample_text [JBool True, JStr []] [] = Ok (''true'' @ [LF, CHR 0xC3, CHR 0xA9, LF])"
    by (simp add: encode_frame_def sample_text_def MAX_FRAME_BYTES_def)
  then show ?thesis
    using codec_stream_roundtrip[OF ok]
    by (elim conjE allE[of _ "[''tr'', [CHR ''u'', CHR ''e'', LF, CHR 0xC3], [CHR 0xA9, LF]]"] allE impE)
      (simp_all del: feed.simps encode_all.simps)
qed

end
