(* ===== verification/Outbound.thy ===== *)
theory Outbound
  imports Handshake
begin

text \<open>
  The bounded outbound writer of a connection
  (\<^verbatim>\<open>meepo-host/src/transport/outbound.rs\<close>): a queue behind a lock, filled by
  \<^verbatim>\<open>enqueue\<close> and drained by one task that owns the sink.  Each critical section is one
  step, so every interleaving of the task with its callers is a path of \<open>ob_step\<close>.

  \<open>ob_accepted\<close>, \<open>ob_sent\<close> and \<open>ob_flushed\<close> record what callers were told and what the sink took;
  a receiver is a number.  The sum of sizes is a \<^verbatim>\<open>usize\<close>, so it wraps at \<open>2 ^ 64\<close>.
\<close>

definition MAX_QUEUED_FRAMES :: nat where "MAX_QUEUED_FRAMES = 64"
definition MAX_QUEUED_BYTES :: nat where "MAX_QUEUED_BYTES = 2 * 1024 * 1024"

datatype outbound_queue_error = FrameLimit nat nat | ByteLimit nat nat | Ob_Closed

record item =
  it_frame :: json
  it_flushed :: nat
  it_size :: nat

record queue_state =
  qs_items :: "item list"
  qs_queued_bytes :: nat
  qs_closed :: bool

definition frame_bytes :: "(json \<Rightarrow> string option) \<Rightarrow> json \<Rightarrow> nat" where
  "frame_bytes to_text v = (case to_text v of Some s \<Rightarrow> length s + 1 | None \<Rightarrow> 2 ^ 64 - 1)"

definition queue_new :: queue_state where
  "queue_new = \<lparr>qs_items = [], qs_queued_bytes = 0, qs_closed = False\<rparr>"

definition enqueue ::
    "(json \<Rightarrow> string option) \<Rightarrow> json \<Rightarrow> nat \<Rightarrow> queue_state \<Rightarrow> (queue_state, outbound_queue_error) result" where
  "enqueue to_text frame tx s =
     (let size = frame_bytes to_text frame in
      if qs_closed s then Err Ob_Closed
      else if MAX_QUEUED_FRAMES \<le> length (qs_items s) then Err (FrameLimit (length (qs_items s)) MAX_QUEUED_FRAMES)
      else if MAX_QUEUED_BYTES < (qs_queued_bytes s + size) mod 2 ^ 64
        then Err (ByteLimit (qs_queued_bytes s) MAX_QUEUED_BYTES)
      else Ok (s\<lparr>qs_items := qs_items s @ [\<lparr>it_frame = frame, it_flushed = tx, it_size = size\<rparr>],
                 qs_queued_bytes := (qs_queued_bytes s + size) mod 2 ^ 64\<rparr>))"

text \<open>Natural subtraction saturates, as \<^verbatim>\<open>saturating_sub\<close> does.\<close>

definition pop_head :: "queue_state \<Rightarrow> item option \<times> queue_state" where
  "pop_head s = (case qs_items s of
       it # rest \<Rightarrow> (Some it, s\<lparr>qs_items := rest, qs_queued_bytes := qs_queued_bytes s - it_size it\<rparr>)
     | [] \<Rightarrow> (None, s))"

definition close_queue :: "queue_state \<Rightarrow> queue_state" where
  "close_queue s = s\<lparr>qs_closed := True\<rparr>"

subsection \<open>The drain task and its callers\<close>

text \<open>
  Where the task stands: about to pop, holding a popped frame, about to look at \<open>closed\<close> after an
  empty pop, waiting for a notification, about to close after a sink error or
  on its way out, and gone.  \<open>ob_notifies\<close> counts the callers between their
  critical section and their notification; \<open>ob_permit\<close> is the stored notification.
\<close>

datatype drain_task = Popping | Sending item | Checking | Waiting | Failing | Leaving | Gone

record outbound =
  ob_state :: queue_state
  ob_task :: drain_task
  ob_notifies :: nat
  ob_permit :: bool
  ob_failed :: "item option"
  ob_accepted :: "(nat \<times> json) list"
  ob_sent :: "(nat \<times> json) list"
  ob_flushed :: "nat list"

definition outbound_new :: outbound where
  "outbound_new = \<lparr>ob_state = queue_new, ob_task = Popping, ob_notifies = 0, ob_permit = False,
     ob_failed = None, ob_accepted = [], ob_sent = [], ob_flushed = []\<rparr>"

definition item_key :: "item \<Rightarrow> nat \<times> json" where "item_key it = (it_flushed it, it_frame it)"

inductive ob_step :: "(json \<Rightarrow> string option) \<Rightarrow> outbound \<Rightarrow> outbound \<Rightarrow> bool" for to_text where
  accept: "enqueue to_text v tx (ob_state w) = Ok s \<Longrightarrow>
     ob_step to_text w (w\<lparr>ob_state := s, ob_notifies := ob_notifies w + 1, ob_accepted := ob_accepted w @ [(tx, v)]\<rparr>)"
| close: "ob_step to_text w (w\<lparr>ob_state := close_queue (ob_state w), ob_notifies := ob_notifies w + 1\<rparr>)"
| notify: "ob_notifies w = Suc n \<Longrightarrow> ob_step to_text w (w\<lparr>ob_notifies := n, ob_permit := True\<rparr>)"
| pop_some: "ob_task w = Popping \<Longrightarrow> pop_head (ob_state w) = (Some it, s) \<Longrightarrow>
     ob_step to_text w (w\<lparr>ob_state := s, ob_task := Sending it\<rparr>)"
| pop_none: "ob_task w = Popping \<Longrightarrow> pop_head (ob_state w) = (None, s) \<Longrightarrow>
     ob_step to_text w (w\<lparr>ob_state := s, ob_task := Checking\<rparr>)"
| check_closed: "ob_task w = Checking \<Longrightarrow> qs_closed (ob_state w) \<Longrightarrow> ob_step to_text w (w\<lparr>ob_task := Leaving\<rparr>)"
| check_open: "ob_task w = Checking \<Longrightarrow> \<not> qs_closed (ob_state w) \<Longrightarrow> ob_step to_text w (w\<lparr>ob_task := Waiting\<rparr>)"
| wake: "ob_task w = Waiting \<Longrightarrow> ob_permit w \<Longrightarrow> ob_step to_text w (w\<lparr>ob_task := Popping, ob_permit := False\<rparr>)"
| send_ok: "ob_task w = Sending it \<Longrightarrow>
     ob_step to_text w (w\<lparr>ob_task := Popping, ob_sent := ob_sent w @ [item_key it],
       ob_flushed := ob_flushed w @ [it_flushed it]\<rparr>)"
| send_err: "ob_task w = Sending it \<Longrightarrow> ob_step to_text w (w\<lparr>ob_task := Failing, ob_failed := Some it\<rparr>)"
| fail: "ob_task w = Failing \<Longrightarrow>
     ob_step to_text w (w\<lparr>ob_state := close_queue (ob_state w), ob_task := Leaving\<rparr>)"
| leave: "ob_task w = Leaving \<Longrightarrow>
     ob_step to_text w (w\<lparr>ob_state := close_queue (ob_state w), ob_task := Gone\<rparr>)"

inductive_cases ob_stepE: "ob_step to_text w w'"

abbreviation ob_reach :: "(json \<Rightarrow> string option) \<Rightarrow> outbound \<Rightarrow> bool" where
  "ob_reach to_text w \<equiv> (ob_step to_text)\<^sup>*\<^sup>* outbound_new w"

subsection \<open>Invariants\<close>

definition queue_ok :: "queue_state \<Rightarrow> bool" where
  "queue_ok s = (qs_queued_bytes s = sum_list (map it_size (qs_items s)) \<and> qs_queued_bytes s \<le> MAX_QUEUED_BYTES \<and>
     length (qs_items s) \<le> MAX_QUEUED_FRAMES)"

fun in_flight :: "drain_task \<Rightarrow> item list" where
  "in_flight (Sending it) = [it]"
| "in_flight _ = []"

definition taken :: "outbound \<Rightarrow> (nat \<times> json) list" where
  "taken w = ob_sent w @ map item_key ((case ob_failed w of None \<Rightarrow> [] | Some it \<Rightarrow> [it]) @ in_flight (ob_task w))"

definition ob_inv :: "outbound \<Rightarrow> bool" where
  "ob_inv w = (queue_ok (ob_state w) \<and>
     ob_accepted w = taken w @ map item_key (qs_items (ob_state w)) \<and>
     ob_flushed w = map fst (ob_sent w) \<and>
     (ob_failed w \<noteq> None \<longrightarrow> ob_task w \<in> {Failing, Leaving, Gone}) \<and>
     (ob_task w = Failing \<longrightarrow> ob_failed w \<noteq> None) \<and>
     (ob_task w \<in> {Leaving, Gone} \<longrightarrow> qs_closed (ob_state w)) \<and>
     (ob_task w \<in> {Checking, Waiting} \<and> qs_items (ob_state w) \<noteq> [] \<longrightarrow> ob_permit w \<or> 0 < ob_notifies w) \<and>
     (ob_task w = Waiting \<and> qs_closed (ob_state w) \<longrightarrow> ob_permit w \<or> 0 < ob_notifies w))"

definition texts_fit :: "(json \<Rightarrow> string option) \<Rightarrow> bool" where
  "texts_fit to_text = (\<forall>v. \<exists>s. to_text v = Some s \<and> length s < 2 ^ 63)"

lemma frame_bytes_small:
  assumes "texts_fit to_text" and "q \<le> MAX_QUEUED_BYTES"
  shows "(q + frame_bytes to_text v) mod 2 ^ 64 = q + frame_bytes to_text v"
proof -
  obtain s where "to_text v = Some s" "length s < 2 ^ 63" using assms(1) by (auto simp: texts_fit_def)
  then show ?thesis using assms(2) by (simp add: frame_bytes_def MAX_QUEUED_BYTES_def)
qed

lemma enqueue_ok:
  assumes "texts_fit to_text" and "queue_ok s" and "enqueue to_text v tx s = Ok s'"
  shows "queue_ok s' \<and> map item_key (qs_items s') = map item_key (qs_items s) @ [(tx, v)] \<and>
    qs_items s' \<noteq> [] \<and> qs_closed s' = qs_closed s \<and> \<not> qs_closed s"
  using assms frame_bytes_small[of to_text "qs_queued_bytes s" v]
  by (auto simp: enqueue_def queue_ok_def Let_def item_key_def split: if_splits)

lemma pop_some_ok: "queue_ok s \<Longrightarrow> pop_head s = (Some it, s') \<Longrightarrow>
    queue_ok s' \<and> qs_items s = it # qs_items s' \<and> qs_closed s' = qs_closed s"
  by (auto simp: pop_head_def queue_ok_def split: list.splits)

lemma pop_none_ok: "pop_head s = (None, s') \<Longrightarrow> s' = s \<and> qs_items s = []"
  by (auto simp: pop_head_def split: list.splits)

lemma close_queue_simps [simp]: "qs_items (close_queue s) = qs_items s" "qs_closed (close_queue s)"
  "queue_ok (close_queue s) = queue_ok s"
  by (simp_all add: close_queue_def queue_ok_def)

lemma step_inv: "texts_fit to_text \<Longrightarrow> ob_inv w \<Longrightarrow> ob_step to_text w w' \<Longrightarrow> ob_inv w'"
proof (erule ob_stepE, goal_cases)
  case (1 v tx s)
  then show ?case using enqueue_ok[of to_text "ob_state w" v tx s] by (auto simp: ob_inv_def taken_def)
next
  case (4 it s)
  then show ?case using pop_some_ok[of "ob_state w" it s] by (auto simp: ob_inv_def taken_def split: option.splits)
next
  case (5 s)
  then show ?case using pop_none_ok[of "ob_state w" s] by (auto simp: ob_inv_def taken_def)
qed (auto simp: ob_inv_def taken_def item_key_def split: option.splits)

lemma ob_inv_init: "ob_inv outbound_new"
  by (simp add: ob_inv_def outbound_new_def queue_new_def queue_ok_def taken_def)

lemma ob_reach_inv: "texts_fit to_text \<Longrightarrow> ob_reach to_text w \<Longrightarrow> ob_inv w"
  by (erule rtranclp_induct) (auto simp: ob_inv_init step_inv)

subsection \<open>What the writer promises\<close>

text \<open>
  C21. In every interleaving of the drain task with its callers the queue
  stays within 64 frames and 2 MiB and its byte count is exact; the frames accepted so far are, in
  order, those the sink took, the one in the task's hands, and those queued, so
  nothing is reordered, duplicated or lost while the task lives; a receiver resolves exactly for the
  frames the sink took; and the task never sleeps on work without a wake-up under way.
\<close>

theorem outbound_fifo_bounded:
  assumes "texts_fit to_text" and "ob_reach to_text w"
  shows "length (qs_items (ob_state w)) \<le> 64 \<and> qs_queued_bytes (ob_state w) \<le> 2 * 1024 * 1024 \<and>
    qs_queued_bytes (ob_state w) = sum_list (map (\<lambda>it. it_size it) (qs_items (ob_state w))) \<and>
    ob_accepted w = ob_sent w
      @ map item_key (case ob_failed w of None \<Rightarrow> in_flight (ob_task w) | Some it \<Rightarrow> [it])
      @ map item_key (qs_items (ob_state w)) \<and>
    ob_flushed w = map fst (ob_sent w) \<and>
    (ob_task w = Waiting \<and> (qs_items (ob_state w) \<noteq> [] \<or> qs_closed (ob_state w)) \<longrightarrow> ob_permit w \<or> 0 < ob_notifies w)"
proof -
  from assms have "ob_inv w" by (rule ob_reach_inv)
  then show ?thesis
    by (auto simp: ob_inv_def queue_ok_def taken_def MAX_QUEUED_BYTES_def MAX_QUEUED_FRAMES_def split: option.splits)
qed

lemma ob_steps_trans: "ob_step t a b \<Longrightarrow> (ob_step t)\<^sup>*\<^sup>* b c \<Longrightarrow> (ob_step t)\<^sup>*\<^sup>* a c"
  by (rule converse_rtranclp_into_rtranclp)

lemma drain_popping:
  assumes "ob_task w = Popping"
  shows "\<exists>w'. (ob_step to_text)\<^sup>*\<^sup>* w w' \<and> ob_sent w' = ob_sent w @ map item_key (qs_items (ob_state w))"
  using assms
proof (induction "qs_items (ob_state w)" arbitrary: w)
  case Nil
  then show ?case by auto
next
  case (Cons it items)
  define s where "s = snd (pop_head (ob_state w))"
  define w1 where "w1 = w\<lparr>ob_state := s, ob_task := Sending it\<rparr>"
  define w2 where "w2 = w1\<lparr>ob_task := Popping, ob_sent := ob_sent w1 @ [item_key it],
       ob_flushed := ob_flushed w1 @ [it_flushed it]\<rparr>"
  have "pop_head (ob_state w) = (Some it, s)" and items: "qs_items s = items"
    using Cons.hyps(2) by (auto simp: s_def pop_head_def split: list.splits)
  then have s1: "ob_step to_text w w1" unfolding w1_def using Cons.prems by (intro pop_some)
  have s2: "ob_step to_text w1 w2" unfolding w2_def by (rule send_ok) (simp add: w1_def)
  obtain w' where "(ob_step to_text)\<^sup>*\<^sup>* w2 w'" "ob_sent w' = ob_sent w2 @ map item_key (qs_items (ob_state w2))"
    using Cons.hyps(1)[of w2] items by (auto simp: w2_def w1_def)
  then show ?case
    using ob_steps_trans[OF s1 ob_steps_trans[OF s2]] items Cons.hyps(2)[symmetric]
    by (auto simp: w2_def w1_def)
qed

lemma drain_sending:
  assumes "ob_task w = Sending it"
  shows "\<exists>w'. (ob_step to_text)\<^sup>*\<^sup>* w w' \<and> ob_sent w' = ob_sent w @ item_key it # map item_key (qs_items (ob_state w))"
proof -
  define w1 where "w1 = w\<lparr>ob_task := Popping, ob_sent := ob_sent w @ [item_key it],
       ob_flushed := ob_flushed w @ [it_flushed it]\<rparr>"
  have "ob_step to_text w w1" unfolding w1_def using assms by (rule send_ok)
  then show ?thesis using drain_popping[of w1 to_text] ob_steps_trans by (fastforce simp: w1_def)
qed

lemma drain_waiting:
  assumes "ob_task w = Waiting" and "ob_permit w \<or> 0 < ob_notifies w"
  shows "\<exists>w'. (ob_step to_text)\<^sup>*\<^sup>* w w' \<and> ob_sent w' = ob_sent w @ map item_key (qs_items (ob_state w))"
proof -
  have awake: "\<exists>w'. (ob_step to_text)\<^sup>*\<^sup>* v w' \<and> ob_sent w' = ob_sent v @ map item_key (qs_items (ob_state v))"
    if v: "ob_task v = Waiting" "ob_permit v" for v
  proof -
    have "ob_step to_text v (v\<lparr>ob_task := Popping, ob_permit := False\<rparr>)" using v by (rule wake)
    then show ?thesis using drain_popping[of "v\<lparr>ob_task := Popping, ob_permit := False\<rparr>" to_text] ob_steps_trans
      by fastforce
  qed
  show ?thesis
  proof (cases "ob_permit w")
    case True
    with assms(1) show ?thesis by (rule awake)
  next
    case False
    with assms(2) obtain n where n: "ob_notifies w = Suc n" using gr0_conv_Suc by blast
    then have "ob_step to_text w (w\<lparr>ob_notifies := n, ob_permit := True\<rparr>)" by (rule notify)
    then show ?thesis using awake[of "w\<lparr>ob_notifies := n, ob_permit := True\<rparr>"] assms(1) ob_steps_trans by fastforce
  qed
qed

text \<open>
  No accepted frame is stuck: while the sink has not failed and the task has
  not left, there is a way on, by the task and the pending notifications alone, in which
  the sink takes everything accepted so far.  One window is excluded: the task has found the queue
  empty and, before it looks at \<open>closed\<close>, a frame is accepted and the writer is closed.  The window is
  real: a reachable state has the task gone, the sink sound, and the accepted frame neither
  written nor its receiver resolved.
\<close>

lemma outbound_drains:
  assumes "texts_fit to_text"
  shows "(\<forall>w. ob_reach to_text w \<and> ob_failed w = None \<and> ob_task w \<notin> {Leaving, Gone} \<and>
      \<not> (ob_task w = Checking \<and> qs_closed (ob_state w)) \<longrightarrow>
      (\<exists>w'. (ob_step to_text)\<^sup>*\<^sup>* w w' \<and> ob_sent w' = ob_accepted w)) \<and>
    (length (unwrap_or [] (to_text v)) < MAX_QUEUED_BYTES \<longrightarrow>
      (\<exists>w. ob_reach to_text w \<and> ob_task w = Gone \<and> ob_failed w = None \<and> ob_accepted w = [(0, v)] \<and> ob_sent w = [] \<and> ob_flushed w = []))"
proof (intro conjI allI impI)
  fix w
  assume w: "ob_reach to_text w \<and> ob_failed w = None \<and> ob_task w \<notin> {Leaving, Gone} \<and>
      \<not> (ob_task w = Checking \<and> qs_closed (ob_state w))"
  with assms have inv: "ob_inv w" by (blast intro: ob_reach_inv)
  show "\<exists>w'. (ob_step to_text)\<^sup>*\<^sup>* w w' \<and> ob_sent w' = ob_accepted w"
  proof (cases "ob_task w")
    case Popping
    then show ?thesis using drain_popping[of w to_text] inv w by (simp add: ob_inv_def taken_def)
  next
    case (Sending it)
    then show ?thesis using drain_sending[of w it to_text] inv w by (simp add: ob_inv_def taken_def)
  next
    case Checking
    show ?thesis
    proof (cases "qs_items (ob_state w) = []")
      case True
      then show ?thesis using inv w Checking by (auto simp: ob_inv_def taken_def)
    next
      case False
      have "ob_step to_text w (w\<lparr>ob_task := Waiting\<rparr>)" using Checking w by (intro check_open) auto
      moreover have "ob_permit w \<or> 0 < ob_notifies w" using inv Checking False by (simp add: ob_inv_def)
      ultimately show ?thesis
        using drain_waiting[of "w\<lparr>ob_task := Waiting\<rparr>" to_text] inv w Checking ob_steps_trans
        by (fastforce simp: ob_inv_def taken_def)
    qed
  next
    case Waiting
    show ?thesis
    proof (cases "qs_items (ob_state w) = []")
      case True
      then show ?thesis using inv w Waiting by (auto simp: ob_inv_def taken_def)
    next
      case False
      then have "ob_permit w \<or> 0 < ob_notifies w" using inv Waiting by (simp add: ob_inv_def)
      then show ?thesis using drain_waiting[of w to_text] inv w Waiting by (simp add: ob_inv_def taken_def)
    qed
  qed (use inv w in \<open>auto simp: ob_inv_def\<close>)
next
  assume fit: "length (unwrap_or [] (to_text v)) < MAX_QUEUED_BYTES"
  define w1 where "w1 = outbound_new\<lparr>ob_task := Checking\<rparr>"
  obtain txt' where t: "to_text v = Some txt'" using assms by (auto simp: texts_fit_def)
  define s where "s = queue_new\<lparr>qs_items := [\<lparr>it_frame = v, it_flushed = 0, it_size = length txt' + 1\<rparr>],
    qs_queued_bytes := length txt' + 1\<rparr>"
  define w2 where "w2 = w1\<lparr>ob_state := s, ob_notifies := ob_notifies w1 + 1, ob_accepted := ob_accepted w1 @ [(0, v)]\<rparr>"
  define w3 where "w3 = w2\<lparr>ob_state := close_queue (ob_state w2), ob_notifies := ob_notifies w2 + 1\<rparr>"
  define w4 where "w4 = w3\<lparr>ob_task := Leaving\<rparr>"
  define w5 where "w5 = w4\<lparr>ob_state := close_queue (ob_state w4), ob_task := Gone\<rparr>"
  note defs = w1_def w2_def w3_def w4_def w5_def outbound_new_def queue_new_def
  have "ob_step to_text outbound_new (outbound_new\<lparr>ob_state := queue_new, ob_task := Checking\<rparr>)"
    by (rule pop_none) (simp_all add: outbound_new_def queue_new_def pop_head_def)
  then have 1: "ob_step to_text outbound_new w1" by (simp add: w1_def outbound_new_def)
  have "enqueue to_text v 0 (ob_state w1) = Ok s"
    using fit t by (simp add: enqueue_def frame_bytes_def Let_def s_def defs MAX_QUEUED_BYTES_def MAX_QUEUED_FRAMES_def)
  then have 2: "ob_step to_text w1 w2" unfolding w2_def by (rule accept)
  have 3: "ob_step to_text w2 w3" unfolding w3_def by (rule close)
  have 4: "ob_step to_text w3 w4" unfolding w4_def by (rule check_closed) (simp_all add: defs)
  have 5: "ob_step to_text w4 w5" unfolding w5_def by (rule leave) (simp add: w4_def)
  have "ob_reach to_text w5" by (meson 1 2 3 4 5 ob_steps_trans rtranclp.rtrancl_refl)
  then show "\<exists>w. ob_reach to_text w \<and> ob_task w = Gone \<and> ob_failed w = None \<and> ob_accepted w = [(0, v)] \<and>
      ob_sent w = [] \<and> ob_flushed w = []"
    by (rule exI[of _ w5, OF conjI]) (simp add: defs)
qed

definition short_text :: "json \<Rightarrow> string option" where "short_text v = Some ''{}''"

lemma short_fit: "texts_fit short_text" by (simp add: texts_fit_def short_text_def)

definition one_sent :: outbound where
  "one_sent = \<lparr>ob_state = queue_new, ob_task = Popping, ob_notifies = 1, ob_permit = False, ob_failed = None,
     ob_accepted = [(7, JObj [])], ob_sent = [(7, JObj [])], ob_flushed = [7]\<rparr>"

lemma one_sent_reach: "ob_reach short_text one_sent"
proof -
  define it where "it = \<lparr>it_frame = JObj [], it_flushed = 7, it_size = 3\<rparr>"
  define s where "s = queue_new\<lparr>qs_items := [it], qs_queued_bytes := 3\<rparr>"
  define w1 where "w1 = outbound_new\<lparr>ob_state := s, ob_notifies := ob_notifies outbound_new + 1,
     ob_accepted := ob_accepted outbound_new @ [(7, JObj [])]\<rparr>"
  define w2 where "w2 = w1\<lparr>ob_state := queue_new, ob_task := Sending it\<rparr>"
  note defs = w1_def w2_def outbound_new_def queue_new_def s_def it_def
  have "enqueue short_text (JObj []) 7 (ob_state outbound_new) = Ok s"
    by (simp add: enqueue_def frame_bytes_def short_text_def Let_def defs MAX_QUEUED_BYTES_def MAX_QUEUED_FRAMES_def)
  then have 1: "ob_step short_text outbound_new w1" unfolding w1_def by (rule accept)
  have 2: "ob_step short_text w1 w2" unfolding w2_def by (rule pop_some) (simp_all add: defs pop_head_def)
  have "ob_step short_text w2 (w2\<lparr>ob_task := Popping, ob_sent := ob_sent w2 @ [item_key it],
       ob_flushed := ob_flushed w2 @ [it_flushed it]\<rparr>)" by (rule send_ok) (simp add: w2_def)
  then have 3: "ob_step short_text w2 one_sent" by (simp add: defs one_sent_def item_key_def)
  show ?thesis by (meson 1 2 3 ob_steps_trans rtranclp.rtrancl_refl)
qed

theorem outbound_fifo_bounded_witness:
  "ob_accepted one_sent = ob_sent one_sent \<and> ob_flushed one_sent = [7]"
  using outbound_fifo_bounded[OF short_fit one_sent_reach] by (simp add: one_sent_def queue_new_def)

lemma outbound_drains_witness:
  "(\<exists>w'. (ob_step short_text)\<^sup>*\<^sup>* one_sent w' \<and> ob_sent w' = [(7, JObj [])]) \<and>
   (\<exists>w. ob_reach short_text w \<and> ob_task w = Gone \<and> ob_accepted w = [(0, JNull)] \<and> ob_sent w = [])"
  using outbound_drains[OF short_fit, of JNull] one_sent_reach
  by (auto simp: one_sent_def short_text_def MAX_QUEUED_BYTES_def queue_new_def)

end
