(* ===== verification/Envelope.thy ===== *)
theory Envelope
  imports Handshake "HOL-Library.Monad_Syntax"
begin

text \<open>
  Frame envelopes and their routing (\<^verbatim>\<open>meepo-host/src/protocol/envelope.rs\<close>) with the
  wire form their declarations derive.

  A frame is written as an object with the camelCase names of its fields, in alphabetical order as
  \<^verbatim>\<open>serde_json\<close> keeps them; an absent option is left out.  Reading is closed: an
  object with any other member is refused, a defaulted member may be missing, a unit variant is its
  name or an object with its name and \<^verbatim>\<open>null\<close>, and a nested struct may be written as
  the array of its fields.
\<close>

subsection \<open>Derived readers\<close>

definition only_fields :: "string list \<Rightarrow> json \<Rightarrow> bool" where
  "only_fields ks v = (case v of JObj m \<Rightarrow> set (map fst m) \<subseteq> set ks | _ \<Rightarrow> False)"

definition field :: "(json \<Rightarrow> 'a option) \<Rightarrow> json \<Rightarrow> string \<Rightarrow> 'a option" where
  "field rd v k = Option.bind (json_get v k) rd"

definition field_or :: "'a \<Rightarrow> (json \<Rightarrow> 'a option) \<Rightarrow> json \<Rightarrow> string \<Rightarrow> 'a option" where
  "field_or d rd v k = (case json_get v k of None \<Rightarrow> Some d | Some w \<Rightarrow> rd w)"

text \<open>An optional field: missing and \<^verbatim>\<open>null\<close> are both \<^verbatim>\<open>None\<close>.\<close>

definition opt_field :: "(json \<Rightarrow> 'a option) \<Rightarrow> json \<Rightarrow> string \<Rightarrow> 'a option option" where
  "opt_field rd v k =
     (case json_get v k of None \<Rightarrow> Some None | Some JNull \<Rightarrow> Some None | Some w \<Rightarrow> map_option Some (rd w))"

definition u32_json :: "32 word \<Rightarrow> json" where "u32_json w = JInt (uint w)"

fun u32_of_json :: "json \<Rightarrow> 32 word option" where
  "u32_of_json (JInt i) = (if 0 \<le> i \<and> i < 2 ^ 32 then Some (word_of_int i) else None)"
| "u32_of_json _ = None"

definition of_wire :: "('e \<Rightarrow> string) \<Rightarrow> 'e list \<Rightarrow> json \<Rightarrow> 'e option" where
  "of_wire wire es v =
     (case v of JStr s \<Rightarrow> find (\<lambda>e. wire e = s) es
      | JObj [(s, JNull)] \<Rightarrow> find (\<lambda>e. wire e = s) es
      | _ \<Rightarrow> None)"

definition all_surfaces :: "handshake_surface list" where
  "all_surfaces = [Surface_Desktop, Surface_Tui, Surface_Run, Surface_Activation, Surface_Bot, Surface_Inspect]"
definition all_kinds :: "handshake_kind list" where
  "all_kinds = [Kind_Hello, Kind_Accepted, Kind_Incompatible, Kind_Draining]"
definition all_states :: "lifecycle_state list" where
  "all_states = [State_Starting, State_Recovering, State_Ready, State_Draining]"
definition all_replacements :: "replacement_policy list" where
  "all_replacements = [BlockedByResidency, WaitForIdleExit]"

abbreviation "kind_of_json \<equiv> of_wire kind_wire all_kinds"
abbreviation "state_of_json \<equiv> of_wire state_wire all_states"

lemma find_wire:
  assumes "distinct (map wire es)" and "e \<in> set es"
  shows "of_wire wire es (JStr (wire e)) = Some e"
  using assms by (induction es) (auto simp: of_wire_def image_iff)

lemma wires_distinct:
  "distinct (map surface_wire all_surfaces)" "distinct (map kind_wire all_kinds)"
  "distinct (map state_wire all_states)" "distinct (map replacement_wire all_replacements)"
  "distinct (map code_wire all_codes)"
  by code_simp+

lemma wires_total: "s \<in> set all_surfaces" "k \<in> set all_kinds" "l \<in> set all_states"
  "r \<in> set all_replacements" "c \<in> set all_codes"
  subgoal by (cases s) (simp_all add: all_surfaces_def)
  subgoal by (cases k) (simp_all add: all_kinds_def)
  subgoal by (cases l) (simp_all add: all_states_def)
  subgoal by (cases r) (simp_all add: all_replacements_def)
  subgoal by (cases c) (simp_all add: all_codes_def)
  done

lemma of_wire_wire [simp]:
  "of_wire surface_wire all_surfaces (JStr (surface_wire s)) = Some s"
  "of_wire kind_wire all_kinds (JStr (kind_wire k)) = Some k"
  "of_wire state_wire all_states (JStr (state_wire l)) = Some l"
  "of_wire replacement_wire all_replacements (JStr (replacement_wire r)) = Some r"
  "of_wire code_wire all_codes (JStr (code_wire c)) = Some c"
  by (rule find_wire, rule wires_distinct, rule wires_total)+

lemma u32_round [simp]: "u32_of_json (u32_json w) = Some w"
  using uint_lt2p[of w] by (simp add: u32_json_def)

subsection \<open>The wire form of the frames\<close>

definition hello_json :: "hello_frame \<Rightarrow> json" where
  "hello_json f = JObj [(''clientInstanceId'', JStr (hl_client_instance_id f)),
     (''compatibilityEpoch'', u32_json (hl_compatibility_epoch f)), (''kind'', JStr (kind_wire (hl_kind f))),
     (''protocolMax'', u32_json (hl_protocol_max f)), (''protocolMin'', u32_json (hl_protocol_min f)),
     (''surface'', JStr (surface_wire (hl_surface f)))]"

definition hello_of_json :: "json \<Rightarrow> hello_frame option" where
  "hello_of_json v =
     (if \<not> only_fields [''kind'', ''clientInstanceId'', ''surface'', ''protocolMin'', ''protocolMax'',
        ''compatibilityEpoch''] v then None
      else do {
        kind \<leftarrow> field kind_of_json v ''kind'';
        cid \<leftarrow> field as_str v ''clientInstanceId'';
        surface \<leftarrow> field (of_wire surface_wire all_surfaces) v ''surface'';
        pmin \<leftarrow> field u32_of_json v ''protocolMin'';
        pmax \<leftarrow> field u32_of_json v ''protocolMax'';
        epoch \<leftarrow> field_or 0 u32_of_json v ''compatibilityEpoch'';
        Some \<lparr>hl_kind = kind, hl_client_instance_id = cid, hl_surface = surface,
          hl_protocol_min = pmin, hl_protocol_max = pmax, hl_compatibility_epoch = epoch\<rparr>
      })"

definition accepted_json :: "accepted_frame \<Rightarrow> json" where
  "accepted_json f = JObj [(''compatibilityEpoch'', u32_json (ac_compatibility_epoch f)),
     (''connectionId'', JStr (ac_connection_id f)), (''hostEpoch'', JStr (ac_host_epoch f)),
     (''kind'', JStr (kind_wire (ac_kind f))), (''selectedProtocol'', u32_json (ac_selected_protocol f)),
     (''state'', JStr (state_wire (ac_state f)))]"

definition accepted_of_json :: "json \<Rightarrow> accepted_frame option" where
  "accepted_of_json v =
     (if \<not> only_fields [''kind'', ''hostEpoch'', ''connectionId'', ''selectedProtocol'', ''compatibilityEpoch'',
        ''state''] v then None
      else do {
        kind \<leftarrow> field kind_of_json v ''kind'';
        host_epoch \<leftarrow> field as_str v ''hostEpoch'';
        cid \<leftarrow> field as_str v ''connectionId'';
        selected \<leftarrow> field u32_of_json v ''selectedProtocol'';
        epoch \<leftarrow> field_or 0 u32_of_json v ''compatibilityEpoch'';
        state \<leftarrow> field state_of_json v ''state'';
        Some \<lparr>ac_kind = kind, ac_host_epoch = host_epoch, ac_connection_id = cid,
          ac_selected_protocol = selected, ac_compatibility_epoch = epoch, ac_state = state\<rparr>
      })"

definition incompatible_json :: "incompatible_frame \<Rightarrow> json" where
  "incompatible_json f = JObj [(''compatibilityEpoch'', u32_json (ic_compatibility_epoch f)),
     (''hostEpoch'', JStr (ic_host_epoch f)), (''kind'', JStr (kind_wire (ic_kind f))),
     (''protocolMax'', u32_json (ic_protocol_max f)), (''protocolMin'', u32_json (ic_protocol_min f)),
     (''replacement'', JStr (replacement_wire (ic_replacement f))), (''state'', JStr (state_wire (ic_state f)))]"

definition incompatible_of_json :: "json \<Rightarrow> incompatible_frame option" where
  "incompatible_of_json v =
     (if \<not> only_fields [''kind'', ''hostEpoch'', ''protocolMin'', ''protocolMax'', ''compatibilityEpoch'',
        ''state'', ''replacement''] v then None
      else do {
        kind \<leftarrow> field kind_of_json v ''kind'';
        host_epoch \<leftarrow> field as_str v ''hostEpoch'';
        pmin \<leftarrow> field u32_of_json v ''protocolMin'';
        pmax \<leftarrow> field u32_of_json v ''protocolMax'';
        epoch \<leftarrow> field_or 0 u32_of_json v ''compatibilityEpoch'';
        state \<leftarrow> field state_of_json v ''state'';
        replacement \<leftarrow> field (of_wire replacement_wire all_replacements) v ''replacement'';
        Some \<lparr>ic_kind = kind, ic_host_epoch = host_epoch, ic_protocol_min = pmin, ic_protocol_max = pmax,
          ic_compatibility_epoch = epoch, ic_state = state, ic_replacement = replacement\<rparr>
      })"

definition draining_json :: "draining_frame \<Rightarrow> json" where
  "draining_json f = JObj [(''hostEpoch'', JStr (dr_host_epoch f)), (''kind'', JStr (kind_wire (dr_kind f)))]"

definition draining_of_json :: "json \<Rightarrow> draining_frame option" where
  "draining_of_json v =
     (if \<not> only_fields [''kind'', ''hostEpoch''] v then None
      else do {
        kind \<leftarrow> field kind_of_json v ''kind'';
        host_epoch \<leftarrow> field as_str v ''hostEpoch'';
        Some \<lparr>dr_kind = kind, dr_host_epoch = host_epoch\<rparr>
      })"

definition operation_error_json :: "operation_error \<Rightarrow> json" where
  "operation_error_json e = JObj [(''code'', JStr (code_wire (oe_code e))), (''message'', JStr (oe_message e))]"

definition operation_error_of_json :: "json \<Rightarrow> operation_error option" where
  "operation_error_of_json v =
     (case v of
        JArr [c, m] \<Rightarrow> do {
          code \<leftarrow> of_wire code_wire all_codes c;
          message \<leftarrow> as_str m;
          Some \<lparr>oe_code = code, oe_message = message\<rparr>
        }
      | _ \<Rightarrow>
        (if \<not> only_fields [''code'', ''message''] v then None
         else do {
           code \<leftarrow> field (of_wire code_wire all_codes) v ''code'';
           message \<leftarrow> field as_str v ''message'';
           Some \<lparr>oe_code = code, oe_message = message\<rparr>
         }))"

subsection \<open>Requests and responses\<close>

record request_frame =
  rq_request_id :: string
  rq_operation :: string
  rq_input :: json

record response_frame =
  rs_request_id :: string
  rs_operation :: string
  rs_ok :: bool
  rs_result :: "json option"
  rs_error :: "operation_error option"

definition response_ok :: "string \<Rightarrow> string \<Rightarrow> json \<Rightarrow> response_frame" where
  "response_ok request_id operation res = \<lparr>rs_request_id = request_id, rs_operation = operation,
     rs_ok = True, rs_result = Some res, rs_error = None\<rparr>"

definition response_err :: "string \<Rightarrow> string \<Rightarrow> operation_error \<Rightarrow> response_frame" where
  "response_err request_id operation e = \<lparr>rs_request_id = request_id, rs_operation = operation,
     rs_ok = False, rs_result = None, rs_error = Some e\<rparr>"

definition response_validate :: "response_frame \<Rightarrow> (unit, protocol_error) result" where
  "response_validate f =
     (if rs_ok f then (if rs_error f \<noteq> None then Err InvalidFrame else Ok ())
      else if rs_error f = None \<or> rs_result f \<noteq> None then Err InvalidFrame else Ok ())"

definition request_json :: "request_frame \<Rightarrow> json" where
  "request_json f = JObj [(''input'', rq_input f), (''operation'', JStr (rq_operation f)),
     (''requestId'', JStr (rq_request_id f))]"

definition request_of_json :: "json \<Rightarrow> request_frame option" where
  "request_of_json v =
     (if \<not> only_fields [''requestId'', ''operation'', ''input''] v then None
      else do {
        request_id \<leftarrow> field as_str v ''requestId'';
        operation \<leftarrow> field as_str v ''operation'';
        input \<leftarrow> json_get v ''input'';
        Some \<lparr>rq_request_id = request_id, rq_operation = operation, rq_input = input\<rparr>
      })"

definition response_json :: "response_frame \<Rightarrow> json" where
  "response_json f = JObj
     ((case rs_error f of None \<Rightarrow> [] | Some e \<Rightarrow> [(''error'', operation_error_json e)]) @
      [(''ok'', JBool (rs_ok f)), (''operation'', JStr (rs_operation f)), (''requestId'', JStr (rs_request_id f))] @
      (case rs_result f of None \<Rightarrow> [] | Some r \<Rightarrow> [(''result'', r)]))"

definition response_of_json :: "json \<Rightarrow> response_frame option" where
  "response_of_json v =
     (if \<not> only_fields [''requestId'', ''operation'', ''ok'', ''result'', ''error''] v then None
      else do {
        request_id \<leftarrow> field as_str v ''requestId'';
        operation \<leftarrow> field as_str v ''operation'';
        ok \<leftarrow> field as_bool v ''ok'';
        res \<leftarrow> opt_field Some v ''result'';
        e \<leftarrow> opt_field operation_error_of_json v ''error'';
        Some \<lparr>rs_request_id = request_id, rs_operation = operation, rs_ok = ok, rs_result = res, rs_error = e\<rparr>
      })"

subsection \<open>Routing\<close>

datatype client_frame = CF_Hello hello_frame | CF_Request request_frame

datatype host_frame =
  HF_Accepted accepted_frame
| HF_Incompatible incompatible_frame
| HF_Draining draining_frame
| HF_Response response_frame
| HF_Subscription json
| HF_ConfigChanged json
| HF_CatalogChanged json

definition kind_of :: "json \<Rightarrow> string option" where
  "kind_of v = get_str v ''kind''"

definition from_value :: "(json \<Rightarrow> 'a option) \<Rightarrow> json \<Rightarrow> ('a, protocol_error) result" where
  "from_value rd v = (case rd v of None \<Rightarrow> Err InvalidJson | Some x \<Rightarrow> Ok x)"

definition and_then :: "('a, 'e) result \<Rightarrow> ('a \<Rightarrow> ('b, 'e) result) \<Rightarrow> ('b, 'e) result" where
  "and_then r f = (case r of Err e \<Rightarrow> Err e | Ok x \<Rightarrow> f x)"

definition decode_client_frame :: "json \<Rightarrow> (client_frame, protocol_error) result" where
  "decode_client_frame v =
     (if \<not> is_object v then Err InvalidFrame
      else (case kind_of v of
          Some k \<Rightarrow>
            (if k = ''hello'' then
               and_then (from_value hello_of_json v)
                 (\<lambda>f. if hl_kind f \<noteq> Kind_Hello then Err InvalidFrame else Ok (CF_Hello f))
             else Err InvalidFrame)
        | None \<Rightarrow>
            (if json_get v ''requestId'' = None then Err InvalidFrame
             else and_then (from_value request_of_json v) (\<lambda>f. Ok (CF_Request f)))))"

definition decode_host_frame :: "json \<Rightarrow> (host_frame, protocol_error) result" where
  "decode_host_frame v =
     (if \<not> is_object v then Err InvalidFrame
      else (case kind_of v of
          Some k \<Rightarrow>
            (if k = ''accepted'' then and_then (from_value accepted_of_json v) (\<lambda>f. Ok (HF_Accepted f))
             else if k = ''incompatible'' then and_then (from_value incompatible_of_json v) (\<lambda>f. Ok (HF_Incompatible f))
             else if k = ''draining'' then and_then (from_value draining_of_json v) (\<lambda>f. Ok (HF_Draining f))
             else if starts_with k ''subscription.'' then Ok (HF_Subscription v)
             else if k = ''configuration.changed'' then Ok (HF_ConfigChanged v)
             else if k = ''session.catalog.changed'' then Ok (HF_CatalogChanged v)
             else Err InvalidFrame)
        | None \<Rightarrow>
            (if json_get v ''requestId'' = None then Err InvalidFrame
             else and_then (from_value response_of_json v)
               (\<lambda>f. and_then (response_validate f) (\<lambda>_. Ok (HF_Response f))))))"

subsection \<open>What the wire carries\<close>

fun client_frame_json :: "client_frame \<Rightarrow> json" where
  "client_frame_json (CF_Hello f) = hello_json f"
| "client_frame_json (CF_Request f) = request_json f"

fun host_frame_json :: "host_frame \<Rightarrow> json" where
  "host_frame_json (HF_Accepted f) = accepted_json f"
| "host_frame_json (HF_Incompatible f) = incompatible_json f"
| "host_frame_json (HF_Draining f) = draining_json f"
| "host_frame_json (HF_Response f) = response_json f"
| "host_frame_json (HF_Subscription v) = v"
| "host_frame_json (HF_ConfigChanged v) = v"
| "host_frame_json (HF_CatalogChanged v) = v"

fun client_frame_ok :: "client_frame \<Rightarrow> bool" where
  "client_frame_ok (CF_Hello f) = (hl_kind f = Kind_Hello)"
| "client_frame_ok (CF_Request f) = True"

definition has_kind :: "(string \<Rightarrow> bool) \<Rightarrow> json \<Rightarrow> bool" where
  "has_kind P v = (is_object v \<and> (case kind_of v of None \<Rightarrow> False | Some k \<Rightarrow> P k))"

fun host_frame_ok :: "host_frame \<Rightarrow> bool" where
  "host_frame_ok (HF_Accepted f) = (ac_kind f = Kind_Accepted)"
| "host_frame_ok (HF_Incompatible f) = (ic_kind f = Kind_Incompatible)"
| "host_frame_ok (HF_Draining f) = (dr_kind f = Kind_Draining)"
| "host_frame_ok (HF_Response f) = (response_validate f = Ok () \<and> rs_result f \<noteq> Some JNull)"
| "host_frame_ok (HF_Subscription v) = has_kind (\<lambda>k. starts_with k ''subscription.'') v"
| "host_frame_ok (HF_ConfigChanged v) = has_kind (\<lambda>k. k = ''configuration.changed'') v"
| "host_frame_ok (HF_CatalogChanged v) = has_kind (\<lambda>k. k = ''session.catalog.changed'') v"

lemmas reader_simps = only_fields_def field_def field_or_def opt_field_def kind_of_def get_str_def str_of_def

lemma hello_round: "hello_of_json (hello_json f) = Some f"
  by (simp add: hello_of_json_def hello_json_def reader_simps)

lemma request_round: "request_of_json (request_json f) = Some f"
  by (simp add: request_of_json_def request_json_def reader_simps)

lemma accepted_round: "accepted_of_json (accepted_json f) = Some f"
  by (simp add: accepted_of_json_def accepted_json_def reader_simps)

lemma incompatible_round: "incompatible_of_json (incompatible_json f) = Some f"
  by (simp add: incompatible_of_json_def incompatible_json_def reader_simps)

lemma draining_round: "draining_of_json (draining_json f) = Some f"
  by (simp add: draining_of_json_def draining_json_def reader_simps)

lemma operation_error_round: "operation_error_of_json (operation_error_json e) = Some e"
  by (simp add: operation_error_of_json_def operation_error_json_def reader_simps)

lemma operation_error_json_not_null: "operation_error_json e \<noteq> JNull"
  by (simp add: operation_error_json_def)

lemma opt_field_some: "json_get v k = Some w \<Longrightarrow> w \<noteq> JNull \<Longrightarrow> opt_field rd v k = map_option Some (rd w)"
  by (cases w) (simp_all add: opt_field_def)

lemma opt_field_none: "json_get v k = None \<Longrightarrow> opt_field rd v k = Some None"
  by (simp add: opt_field_def)

lemma response_round:
  assumes "rs_result f \<noteq> Some JNull"
  shows "response_of_json (response_json f) = Some f"
proof -
  obtain i o' ok r e where f: "f = \<lparr>rs_request_id = i, rs_operation = o', rs_ok = ok, rs_result = r, rs_error = e\<rparr>"
    by (cases f)
  have r: "opt_field Some (response_json f) ''result'' = Some r"
    using assms by (cases r; cases e) (simp_all add: f response_json_def opt_field_some opt_field_none)
  have e: "opt_field operation_error_of_json (response_json f) ''error'' = Some e"
    by (cases e; cases r) (simp_all add: f response_json_def opt_field_some opt_field_none
        operation_error_round operation_error_json_not_null)
  have o: "only_fields [''requestId'', ''operation'', ''ok'', ''result'', ''error''] (response_json f)"
    by (cases e; cases r) (simp_all add: f response_json_def only_fields_def)
  have "field as_str (response_json f) ''requestId'' = Some i" "field as_str (response_json f) ''operation'' = Some o'"
    "field as_bool (response_json f) ''ok'' = Some ok"
    by (cases e; cases r; simp add: f response_json_def field_def)+
  with r e o show ?thesis by (simp add: response_of_json_def f)
qed

lemma kind_of_SomeD: "kind_of v = Some s \<Longrightarrow> json_get v ''kind'' = Some (JStr s)"
  by (auto simp: kind_of_def get_str_def str_of_def bind_eq_Some_conv elim: as_str.elims)

lemma kind_field: "kind_of v = Some (kind_wire k) \<Longrightarrow> field kind_of_json v ''kind'' = Some k"
  by (drule kind_of_SomeD) (simp add: field_def)

lemma and_then_Ok: "and_then r f = Ok y \<longleftrightarrow> (\<exists>x. r = Ok x \<and> f x = Ok y)"
  by (cases r) (simp_all add: and_then_def)

lemma from_value_Ok: "from_value rd v = Ok x \<longleftrightarrow> rd v = Some x"
  by (simp add: from_value_def split: option.splits)

lemma accepted_kind: "kind_of v = Some ''accepted'' \<Longrightarrow> accepted_of_json v = Some f \<Longrightarrow> ac_kind f = Kind_Accepted"
  using kind_field[of v Kind_Accepted] by (auto simp: accepted_of_json_def bind_eq_Some_conv split: if_splits)

lemma incompatible_kind:
  "kind_of v = Some ''incompatible'' \<Longrightarrow> incompatible_of_json v = Some f \<Longrightarrow> ic_kind f = Kind_Incompatible"
  using kind_field[of v Kind_Incompatible] by (auto simp: incompatible_of_json_def bind_eq_Some_conv split: if_splits)

lemma draining_kind: "kind_of v = Some ''draining'' \<Longrightarrow> draining_of_json v = Some f \<Longrightarrow> dr_kind f = Kind_Draining"
  using kind_field[of v Kind_Draining] by (auto simp: draining_of_json_def bind_eq_Some_conv split: if_splits)

lemma opt_field_not_null: "opt_field Some v k = Some r \<Longrightarrow> r \<noteq> Some JNull"
  by (auto simp: opt_field_def split: option.splits json.splits)

lemma response_not_null: "response_of_json v = Some f \<Longrightarrow> rs_result f \<noteq> Some JNull"
  using opt_field_not_null[of v "''result''"]
  by (auto simp: response_of_json_def bind_eq_Some_conv split: if_splits)

lemma decoded_client_ok: "decode_client_frame v = Ok f \<Longrightarrow> client_frame_ok f"
  by (auto simp: decode_client_frame_def and_then_Ok from_value_Ok split: if_splits option.splits)

lemma decoded_host_ok:
  assumes "decode_host_frame v = Ok f"
  shows "host_frame_ok f"
proof (cases "kind_of v")
  case None
  with assms show ?thesis
    by (auto simp: decode_host_frame_def and_then_Ok from_value_Ok dest: response_not_null split: if_splits)
next
  case (Some k)
  with assms show ?thesis
    by (auto simp: decode_host_frame_def and_then_Ok from_value_Ok has_kind_def
        dest: accepted_kind incompatible_kind draining_kind split: if_splits)
qed

lemma client_round: "client_frame_ok f \<Longrightarrow> decode_client_frame (client_frame_json f) = Ok f"
proof (cases f)
  case (CF_Hello h)
  moreover assume "client_frame_ok f"
  ultimately show ?thesis
    using hello_round[of h] by (simp add: decode_client_frame_def hello_json_def kind_of_def get_str_def str_of_def
        and_then_def from_value_def)
next
  case (CF_Request r)
  then show ?thesis
    using request_round[of r] by (simp add: decode_client_frame_def request_json_def kind_of_def get_str_def str_of_def
        and_then_def from_value_def)
qed

lemma response_kind: "kind_of (response_json f) = None"
  and response_id: "json_get (response_json f) ''requestId'' = Some (JStr (rs_request_id f))"
  and response_object: "is_object (response_json f)"
  by (simp_all add: response_json_def kind_of_def get_str_def str_of_def split: option.splits)

lemma host_round: "host_frame_ok f \<Longrightarrow> decode_host_frame (host_frame_json f) = Ok f"
proof (cases f)
  case (HF_Response r)
  moreover assume "host_frame_ok f"
  ultimately show ?thesis
    by (simp add: decode_host_frame_def response_kind response_id response_object response_round
        and_then_def from_value_def)
next
  case (HF_Accepted a)
  moreover assume "host_frame_ok f"
  ultimately show ?thesis
    using accepted_round[of a] by (simp add: decode_host_frame_def accepted_json_def kind_of_def get_str_def str_of_def
        and_then_def from_value_def)
next
  case (HF_Incompatible a)
  moreover assume "host_frame_ok f"
  ultimately show ?thesis
    using incompatible_round[of a] by (simp add: decode_host_frame_def incompatible_json_def kind_of_def get_str_def str_of_def
        and_then_def from_value_def)
next
  case (HF_Draining a)
  moreover assume "host_frame_ok f"
  ultimately show ?thesis
    using draining_round[of a] by (simp add: decode_host_frame_def draining_json_def kind_of_def get_str_def str_of_def
        and_then_def from_value_def)
next
  case (HF_Subscription v)
  moreover assume "host_frame_ok f"
  ultimately obtain k where "is_object v" "kind_of v = Some k" and k: "starts_with k ''subscription.''"
    by (auto simp: has_kind_def split: option.splits)
  moreover have "k \<noteq> ''accepted'' \<and> k \<noteq> ''incompatible'' \<and> k \<noteq> ''draining''" using k by auto
  ultimately show ?thesis by (simp add: decode_host_frame_def HF_Subscription)
next
  case (HF_ConfigChanged v)
  moreover assume "host_frame_ok f"
  ultimately show ?thesis by (simp add: decode_host_frame_def has_kind_def split: option.splits)
next
  case (HF_CatalogChanged v)
  moreover assume "host_frame_ok f"
  ultimately show ?thesis by (simp add: decode_host_frame_def has_kind_def split: option.splits)
qed

lemma client_not_host: "decode_client_frame v = Ok c \<Longrightarrow> \<exists>e. decode_host_frame v = Err e"
proof (cases c)
  case (CF_Hello h)
  moreover assume "decode_client_frame v = Ok c"
  ultimately have "is_object v" "kind_of v = Some ''hello''"
    by (auto simp: decode_client_frame_def and_then_Ok split: if_splits option.splits)
  then show ?thesis by (simp add: decode_host_frame_def)
next
  case (CF_Request r)
  moreover assume "decode_client_frame v = Ok c"
  ultimately have v: "is_object v" "kind_of v = None" "json_get v ''requestId'' \<noteq> None" and r: "request_of_json v = Some r"
    by (auto simp: decode_client_frame_def and_then_Ok from_value_Ok split: if_splits option.splits)
  from v(1) obtain m where m: "v = JObj m" by (cases v) auto
  from r m have "set (map fst m) \<subseteq> {''requestId'', ''operation'', ''input''}"
    by (simp add: request_of_json_def only_fields_def split: if_splits)
  then have "''ok'' \<notin> fst ` set m" by auto
  then have "json_get v ''ok'' = None" by (simp add: m map_of_eq_None_iff)
  then have "field as_bool v ''ok'' = None" by (simp add: field_def)
  then have "response_of_json v = None"
    by (simp add: response_of_json_def bind_eq_None_conv)
  with v show ?thesis by (simp add: decode_host_frame_def and_then_def from_value_def)
qed

text \<open>
  C23. The frames that cross the wire are exactly the well formed ones: what
  either decoder accepts is well formed (a response obeys its \<open>ok\<close> invariant, an acceptance carries
  its own kind), and every well formed frame is decoded from its wire form to itself.  The two
  vocabularies are disjoint: no frame of a host is read as a handshake by a host, and a request is
  no response.
\<close>

theorem wire_frames_roundtrip:
  "(client_frame_ok c \<longleftrightarrow> (\<exists>v. decode_client_frame v = Ok c)) \<and>
   (client_frame_ok c \<longrightarrow> decode_client_frame (client_frame_json c) = Ok c) \<and>
   (host_frame_ok h \<longleftrightarrow> (\<exists>v. decode_host_frame v = Ok h)) \<and>
   (host_frame_ok h \<longrightarrow> decode_host_frame (host_frame_json h) = Ok h) \<and>
   (decode_client_frame v = Ok c \<longrightarrow> (\<exists>e. decode_host_frame v = Err e))"
  using decoded_client_ok decoded_host_ok client_round host_round client_not_host by blast

theorem wire_frames_roundtrip_witness:
  "decode_host_frame (host_frame_json (HF_Response (response_err ''r1'' ''turn.start''
      (operation_error_new NotFound ''no session'')))) =
     Ok (HF_Response (response_err ''r1'' ''turn.start'' (operation_error_new NotFound ''no session''))) \<and>
   decode_client_frame (client_frame_json (CF_Hello (hello_new ''c1'' Surface_Tui 0 0 10))) =
     Ok (CF_Hello (hello_new ''c1'' Surface_Tui 0 0 10)) \<and>
   (\<exists>e. decode_host_frame (client_frame_json (CF_Hello (hello_new ''c1'' Surface_Tui 0 0 10))) = Err e)"
proof -
  have h: "host_frame_ok (HF_Response (response_err ''r1'' ''turn.start'' (operation_error_new NotFound ''no session'')))"
    by (simp add: response_err_def response_validate_def)
  have c: "client_frame_ok (CF_Hello (hello_new ''c1'' Surface_Tui 0 0 10))" by (simp add: hello_new_def)
  show ?thesis
    using wire_frames_roundtrip[of "CF_Hello (hello_new ''c1'' Surface_Tui 0 0 10)"
        "HF_Response (response_err ''r1'' ''turn.start'' (operation_error_new NotFound ''no session''))"
        "client_frame_json (CF_Hello (hello_new ''c1'' Surface_Tui 0 0 10))"] h c by blast
qed

text \<open>
  The invariant of a response is one-sided: a success without a result passes, and a handler's
  result \<^verbatim>\<open>null\<close> is one after the wire.
\<close>

lemma null_result_is_lost:
  "decode_host_frame (response_json (response_ok i p JNull)) = Ok (HF_Response ((response_ok i p JNull)\<lparr>rs_result := None\<rparr>))"
proof -
  have "response_of_json (response_json (response_ok i p JNull)) = Some ((response_ok i p JNull)\<lparr>rs_result := None\<rparr>)"
    by (simp add: response_of_json_def response_json_def response_ok_def reader_simps)
  moreover have "response_validate ((response_ok i p JNull)\<lparr>rs_result := None\<rparr>) = Ok ()"
    by (simp add: response_validate_def response_ok_def)
  ultimately show ?thesis
    by (simp add: decode_host_frame_def response_kind response_id response_object and_then_def from_value_def)
qed

lemma array_error_accepted:
  "operation_error_of_json (JArr [JStr ''not_found'', JStr m]) = Some \<lparr>oe_code = NotFound, oe_message = m\<rparr>"
  using of_wire_wire(5)[of NotFound] by (simp add: operation_error_of_json_def)

end
