(* ===== verification/Dispatch.thy ===== *)
theory Dispatch
  imports Envelope
begin

text \<open>
  The operation table (\<^verbatim>\<open>meepo-host/src/protocol/ops.rs\<close>) and the dispatcher
  (\<^verbatim>\<open>server/dispatcher.rs\<close>) with the bootstrap handlers
  (\<^verbatim>\<open>handlers/host.rs\<close>).  A handler is a function of its input, its context and the
  state its services keep; the registry is a map from operation names.
\<close>

subsection \<open>Operations and their declared errors\<close>

type_synonym op_name = string

record operation_spec =
  os_name :: op_name
  os_allowed_error_codes :: "op_error_code list"

abbreviation op_spec :: "op_name \<Rightarrow> op_error_code list \<Rightarrow> operation_spec" where
  "op_spec n codes \<equiv> \<lparr>os_name = n, os_allowed_error_codes = codes\<rparr>"

definition HOST_STATUS :: op_name where "HOST_STATUS = ''host.status''"
definition HOST_DIAGNOSTICS_QUERY :: op_name where "HOST_DIAGNOSTICS_QUERY = ''host.diagnostics.query''"
definition TURN_START :: op_name where "TURN_START = ''turn.start''"
definition TURN_QUERY :: op_name where "TURN_QUERY = ''turn.query''"
definition TURN_STOP :: op_name where "TURN_STOP = ''turn.stop''"
definition TURN_REGENERATE :: op_name where "TURN_REGENERATE = ''turn.regenerate''"
definition TURN_RESUME_QUERY :: op_name where "TURN_RESUME_QUERY = ''turn.resume.query''"
definition TURN_RESUME_START :: op_name where "TURN_RESUME_START = ''turn.resume.start''"
definition SUBSCRIPTION_OPEN :: op_name where "SUBSCRIPTION_OPEN = ''subscription.open''"
definition SUBSCRIPTION_CLOSE :: op_name where "SUBSCRIPTION_CLOSE = ''subscription.close''"
definition TURN_MESSAGE_SUBMIT :: op_name where "TURN_MESSAGE_SUBMIT = ''turn.message.submit''"
definition QUEUE_RETRACT :: op_name where "QUEUE_RETRACT = ''queue.retract''"
definition TURN_INTERRUPT :: op_name where "TURN_INTERRUPT = ''turn.interrupt''"
definition SESSION_CREATE :: op_name where "SESSION_CREATE = ''session.create''"
definition SESSION_CATALOG_QUERY :: op_name where "SESSION_CATALOG_QUERY = ''session.catalog.query''"
definition SESSION_METADATA_UPDATE :: op_name where "SESSION_METADATA_UPDATE = ''session.metadata.update''"
definition SESSION_CONFIGURATION_UPDATE :: op_name where "SESSION_CONFIGURATION_UPDATE = ''session.configuration.update''"
definition SESSION_CWD_RELOCATE :: op_name where "SESSION_CWD_RELOCATE = ''session.cwd.relocate''"
definition SESSION_READ_MARKER_SET :: op_name where "SESSION_READ_MARKER_SET = ''session.read_marker.set''"
definition SESSION_LIFECYCLE_SET :: op_name where "SESSION_LIFECYCLE_SET = ''session.lifecycle.set''"
definition SESSION_REMOVE :: op_name where "SESSION_REMOVE = ''session.remove''"
definition INTERACTION_QUERY :: op_name where "INTERACTION_QUERY = ''interaction.query''"
definition INTERACTION_ANSWER :: op_name where "INTERACTION_ANSWER = ''interaction.answer''"

definition SPINE_SPECS :: "operation_spec list" where
  "SPINE_SPECS = [
     op_spec HOST_STATUS [InternalFailure],
     op_spec HOST_DIAGNOSTICS_QUERY [InternalFailure],
     op_spec TURN_START [HostNotReady, NotFound, SessionArchived, SessionBusy, OperationConflict, InvalidRequest, PersistenceFailed, InternalFailure],
     op_spec TURN_QUERY [NotFound, InternalFailure],
     op_spec TURN_STOP [NotFound, SessionBusy, OperationConflict, InternalFailure],
     op_spec TURN_REGENERATE [NotFound, SessionBusy, OperationConflict, InternalFailure],
     op_spec TURN_RESUME_QUERY [NotFound, InternalFailure],
     op_spec TURN_RESUME_START [NotFound, SessionBusy, OperationConflict, InvalidRequest, InternalFailure],
     op_spec SUBSCRIPTION_OPEN [NotFound, InternalFailure],
     op_spec SUBSCRIPTION_CLOSE [NotFound, InternalFailure],
     op_spec TURN_MESSAGE_SUBMIT [HostNotReady, NotFound, SessionBusy, OperationConflict, InvalidRequest, InternalFailure],
     op_spec QUEUE_RETRACT [NotFound, OperationConflict, InternalFailure],
     op_spec TURN_INTERRUPT [NotFound, SessionBusy, OperationConflict, InternalFailure],
     op_spec SESSION_CREATE [InvalidRequest, PersistenceFailed, InternalFailure],
     op_spec SESSION_CATALOG_QUERY [InvalidRequest, InternalFailure],
     op_spec SESSION_METADATA_UPDATE [NotFound, RevisionConflict, InternalFailure],
     op_spec SESSION_CONFIGURATION_UPDATE [NotFound, RevisionConflict, InternalFailure],
     op_spec SESSION_CWD_RELOCATE [NotFound, RevisionConflict, InternalFailure],
     op_spec SESSION_READ_MARKER_SET [NotFound, InternalFailure],
     op_spec SESSION_LIFECYCLE_SET [NotFound, OperationConflict, InternalFailure],
     op_spec SESSION_REMOVE [NotFound, OperationConflict, InternalFailure],
     op_spec INTERACTION_QUERY [NotFound, InternalFailure],
     op_spec INTERACTION_ANSWER [NotFound, AlreadyResolved, InternalFailure]]"

definition is_spine_op :: "string \<Rightarrow> bool" where
  "is_spine_op name = list_ex (\<lambda>s. os_name s = name) SPINE_SPECS"

definition spec_for :: "string \<Rightarrow> operation_spec option" where
  "spec_for name = find (\<lambda>s. os_name s = name) SPINE_SPECS"

definition declares :: "string \<Rightarrow> op_error_code \<Rightarrow> bool" where
  "declares name code = (case spec_for name of None \<Rightarrow> False | Some s \<Rightarrow> code \<in> set (os_allowed_error_codes s))"

text \<open>The table is a map, every operation may fail internally, and none may report itself unavailable.\<close>

lemma spine_table:
  "distinct (map os_name SPINE_SPECS) \<and> length SPINE_SPECS = 23 \<and>
   list_all (\<lambda>s. InternalFailure \<in> set (os_allowed_error_codes s)) SPINE_SPECS \<and>
   list_all (\<lambda>s. OperationUnavailable \<notin> set (os_allowed_error_codes s)) SPINE_SPECS"
  by code_simp

lemma is_spine_op_spec: "is_spine_op name = (spec_for name \<noteq> None)"
  by (auto simp: is_spine_op_def spec_for_def find_None_iff list_ex_iff)

subsection \<open>The dispatcher\<close>

record op_context =
  oc_host_epoch :: string
  oc_lifecycle :: lifecycle_state

datatype outcome = Outcome_Ok json | Outcome_Err op_error_code string

type_synonym 's handler = "json \<Rightarrow> op_context \<Rightarrow> 's \<Rightarrow> outcome \<times> 's"
type_synonym 's dispatcher = "string \<Rightarrow> 's handler option"

definition quoted :: "string \<Rightarrow> string" where
  "quoted s = CHR 0x27 # s @ [CHR 0x27]"

definition dispatcher_new :: "'s dispatcher" where "dispatcher_new = (\<lambda>_. None)"

definition register_op :: "string \<Rightarrow> 's handler \<Rightarrow> 's dispatcher \<Rightarrow> 's dispatcher" where
  "register_op op_key h d = d(op_key \<mapsto> h)"

definition dispatch :: "'s dispatcher \<Rightarrow> string \<Rightarrow> json \<Rightarrow> op_context \<Rightarrow> 's \<Rightarrow> outcome \<times> 's" where
  "dispatch d op_key input ctx s =
     (case d op_key of
        Some h \<Rightarrow> h input ctx s
      | None \<Rightarrow> (Outcome_Err OperationUnavailable (''unknown operation '' @ quoted op_key), s))"

subsection \<open>Bootstrap operations\<close>

definition status_outcome :: "string \<Rightarrow> lifecycle_state \<Rightarrow> outcome" where
  "status_outcome host_epoch state = Outcome_Ok (JObj [(''hostEpoch'', JStr host_epoch), (''state'', JStr (state_wire state))])"

definition host_status :: "'s handler" where
  "host_status input ctx s = (status_outcome (oc_host_epoch ctx) (oc_lifecycle ctx), s)"

definition register_host :: "'s dispatcher \<Rightarrow> 's dispatcher" where
  "register_host d = register_op ''host.diagnostics.query'' host_status (register_op ''host.status'' host_status d)"

subsection \<open>Reading an operation's input\<close>

definition str_field :: "json \<Rightarrow> string \<Rightarrow> string" where
  "str_field input k = unwrap_or [] (get_str input k)"

definition pointer_str :: "json \<Rightarrow> string list \<Rightarrow> string option" where
  "pointer_str input path = Option.bind (json_pointer input path) as_str"

lemma dispatch_registered: "dispatch (register_op k h d) op_key input ctx s =
    (if op_key = k then h input ctx s else dispatch d op_key input ctx s)"
  by (simp add: dispatch_def register_op_def)

lemma dispatch_unknown: "dispatch dispatcher_new op_key input ctx s =
    (Outcome_Err OperationUnavailable (''unknown operation '' @ quoted op_key), s)"
  by (simp add: dispatch_def dispatcher_new_def)

lemma unavailable_is_undeclared: "\<not> declares name OperationUnavailable"
proof -
  have "list_all (\<lambda>s. OperationUnavailable \<notin> set (os_allowed_error_codes s)) SPINE_SPECS" using spine_table by blast
  then show ?thesis by (auto simp: declares_def spec_for_def list_all_iff find_Some_iff split: option.splits)
qed

end
