(* ===== verification/Continuity.thy ===== *)
theory Continuity
  imports Events Envelope
begin

text \<open>
  Session continuity (\<^verbatim>\<open>meepo-host/src/continuity/\<close>): the canonical snapshot of a session
  and the frames fanned out to its subscribers.

  A bounded channel is a \<open>channel\<close> with the frames waiting in it, the frames its receiver has
  taken, and whether the receiver still exists.  The coordinator's operations run under one lock;
  only receivers run beside them, and the one place where that can matter is between a
  failed send and the close notice after it: \<open>takes\<close> says how many frames each receiver takes
  there.  The session map is an association list in the hash map's (arbitrary) order;
  \<open>co_opened\<close> remembers the snapshot each subscription was opened with.
\<close>

definition SUB_QUEUE :: nat where "SUB_QUEUE = 32"
definition SNAPSHOT_SCHEMA_VERSION :: "32 word" where "SNAPSHOT_SCHEMA_VERSION = 3"
definition MAX_SNAPSHOT_BYTES :: nat where "MAX_SNAPSHOT_BYTES = 56 * 1024"

subsection \<open>The snapshot\<close>

record message_queue_projection =
  mq_queue_revision :: nat
  mq_steering :: "json list"
  mq_followup :: "json list"

record continuity_snapshot =
  sn_schema_version :: "32 word"
  sn_session_id :: string
  sn_projection_revision :: nat
  sn_status :: string
  sn_root_turn :: "json option"
  sn_queue :: message_queue_projection
  sn_interactions_pending :: "json list"

definition snapshot_fresh :: "string \<Rightarrow> continuity_snapshot" where
  "snapshot_fresh session_id = \<lparr>sn_schema_version = SNAPSHOT_SCHEMA_VERSION, sn_session_id = session_id,
     sn_projection_revision = 0, sn_status = ''ready'', sn_root_turn = None,
     sn_queue = \<lparr>mq_queue_revision = 0, mq_steering = [], mq_followup = []\<rparr>, sn_interactions_pending = []\<rparr>"

definition queue_json :: "message_queue_projection \<Rightarrow> json" where
  "queue_json q = JObj [(''followup'', JArr (mq_followup q)), (''queueRevision'', JInt (int (mq_queue_revision q))),
     (''steering'', JArr (mq_steering q))]"

definition snapshot_json :: "continuity_snapshot \<Rightarrow> json" where
  "snapshot_json s = JObj [(''interactionsPending'', JArr (sn_interactions_pending s)),
     (''projectionRevision'', JInt (int (sn_projection_revision s))), (''queue'', queue_json (sn_queue s)),
     (''rootTurn'', unwrap_or JNull (sn_root_turn s)), (''schemaVersion'', u32_json (sn_schema_version s)),
     (''sessionId'', JStr (sn_session_id s)), (''status'', JStr (sn_status s))]"

definition encoded_bytes :: "(json \<Rightarrow> string option) \<Rightarrow> continuity_snapshot \<Rightarrow> nat" where
  "encoded_bytes to_text s = (case to_text (snapshot_json s) of Some b \<Rightarrow> length b | None \<Rightarrow> 2 ^ 64 - 1)"

definition over_cap :: "(json \<Rightarrow> string option) \<Rightarrow> continuity_snapshot \<Rightarrow> bool" where
  "over_cap to_text s = (MAX_SNAPSHOT_BYTES < encoded_bytes to_text s)"

subsection \<open>Frames\<close>

datatype delta_kind = Delta_Text | Delta_Thinking
datatype closed_reason = SlowConsumer | SessionRemoved

datatype subscription_frame =
  SF_SessionProjection string string nat json
| SF_SessionDelta string string nat string string string delta_kind nat string
| SF_SessionEvent string string nat json
| SF_SessionDomainChanged string string nat
| SF_Closed string string closed_reason

fun frame_kind :: "subscription_frame \<Rightarrow> string" where
  "frame_kind (SF_SessionProjection _ _ _ _) = ''subscription.session_projection''"
| "frame_kind (SF_SessionDelta _ _ _ _ _ _ _ _ _) = ''subscription.session_delta''"
| "frame_kind (SF_SessionEvent _ _ _ _) = ''subscription.session_event''"
| "frame_kind (SF_SessionDomainChanged _ _ _) = ''subscription.session_domain_changed''"
| "frame_kind (SF_Closed _ _ _) = ''subscription.closed''"

definition frame_closed :: "string \<Rightarrow> string \<Rightarrow> closed_reason \<Rightarrow> subscription_frame" where
  "frame_closed host_epoch sub reason = SF_Closed host_epoch sub reason"

fun delta_wire :: "delta_kind \<Rightarrow> string" where
  "delta_wire Delta_Text = ''text''" | "delta_wire Delta_Thinking = ''thinking''"

fun reason_wire :: "closed_reason \<Rightarrow> string" where
  "reason_wire SlowConsumer = ''slow_consumer''" | "reason_wire SessionRemoved = ''session_removed''"

fun frame_json :: "subscription_frame \<Rightarrow> json" where
  "frame_json (SF_SessionProjection ep sub n v) = JObj [(''hostEpoch'', JStr ep),
     (''kind'', JStr ''subscription.session_projection''), (''sequence'', JInt (int n)), (''snapshot'', v),
     (''subscriptionId'', JStr sub)]"
| "frame_json (SF_SessionDelta ep sub n turn run msg dk off body) = JObj [(''deltaKind'', JStr (delta_wire dk)),
     (''hostEpoch'', JStr ep), (''kind'', JStr ''subscription.session_delta''), (''messageId'', JStr msg),
     (''runId'', JStr run), (''sequence'', JInt (int n)), (''startOffset'', JInt (int off)),
     (''subscriptionId'', JStr sub), (''text'', JStr body), (''turnId'', JStr turn)]"
| "frame_json (SF_SessionEvent ep sub n v) = JObj [(''hostEpoch'', JStr ep),
     (''kind'', JStr ''subscription.session_event''), (''payload'', v), (''sequence'', JInt (int n)),
     (''subscriptionId'', JStr sub)]"
| "frame_json (SF_SessionDomainChanged ep sub n) = JObj [(''hostEpoch'', JStr ep),
     (''kind'', JStr ''subscription.session_domain_changed''), (''sequence'', JInt (int n)),
     (''subscriptionId'', JStr sub)]"
| "frame_json (SF_Closed ep sub r) = JObj [(''hostEpoch'', JStr ep), (''kind'', JStr ''subscription.closed''),
     (''reason'', JStr (reason_wire r)), (''subscriptionId'', JStr sub)]"

text \<open>Every pushed frame is routed as a subscription frame by its receiver.\<close>

lemma frame_is_subscription: "decode_host_frame (frame_json f) = Ok (HF_Subscription (frame_json f))"
  by (cases f) (simp_all add: decode_host_frame_def kind_of_def get_str_def str_of_def)

subsection \<open>Channels and state\<close>

record channel =
  ch_queue :: "subscription_frame list"
  ch_rx_open :: bool
  ch_received :: "subscription_frame list"

definition channel_new :: channel where
  "channel_new = \<lparr>ch_queue = [], ch_rx_open = True, ch_received = []\<rparr>"

definition try_send :: "subscription_frame \<Rightarrow> channel \<Rightarrow> channel option" where
  "try_send f c = (if ch_rx_open c \<and> length (ch_queue c) < SUB_QUEUE
                   then Some (c\<lparr>ch_queue := ch_queue c @ [f]\<rparr>) else None)"

definition receive :: "nat \<Rightarrow> channel \<Rightarrow> channel" where
  "receive n c = c\<lparr>ch_received := ch_received c @ take n (ch_queue c), ch_queue := drop n (ch_queue c)\<rparr>"

record subscriber =
  sb_id :: string
  sb_next_sequence :: nat

record session_state =
  ss_snapshot :: continuity_snapshot
  ss_subscribers :: "subscriber list"

type_synonym channels = "string \<Rightarrow> channel option"

record continuity =
  co_sessions :: "(string \<times> session_state) list"
  co_channels :: channels
  co_opened :: "string \<Rightarrow> json option"

definition continuity_new :: continuity where
  "continuity_new = \<lparr>co_sessions = [], co_channels = (\<lambda>_. None), co_opened = (\<lambda>_. None)\<rparr>"

text \<open>\<^verbatim>\<open>try_send\<close> on the sender a subscriber holds; \<open>None\<close> when it fails.\<close>

definition send_to :: "string \<Rightarrow> subscription_frame \<Rightarrow> channels \<Rightarrow> channels option" where
  "send_to sub f chs = (case chs sub of None \<Rightarrow> None
     | Some c \<Rightarrow> map_option (\<lambda>c'. chs(sub \<mapsto> c')) (try_send f c))"

definition receive_from :: "string \<Rightarrow> nat \<Rightarrow> channels \<Rightarrow> channels" where
  "receive_from sub n chs = (case chs sub of None \<Rightarrow> chs | Some c \<Rightarrow> chs(sub \<mapsto> receive n c))"

fun position_of :: "('a \<Rightarrow> bool) \<Rightarrow> 'a list \<Rightarrow> nat option" where
  "position_of P [] = None"
| "position_of P (x # xs) = (if P x then Some 0 else map_option Suc (position_of P xs))"

definition swap_remove :: "nat \<Rightarrow> 'a list \<Rightarrow> 'a list" where
  "swap_remove i xs = butlast (xs[i := last xs])"

subsection \<open>Fan-out\<close>

fun fan_send ::
    "(string \<Rightarrow> nat \<Rightarrow> subscription_frame) \<Rightarrow> subscriber list \<Rightarrow> channels \<Rightarrow> subscriber list \<times> channels \<times> string list" where
  "fan_send build [] chs = ([], chs, [])"
| "fan_send build (s # subs) chs =
     (let s' = s\<lparr>sb_next_sequence := sb_next_sequence s + 1\<rparr>
      in case send_to (sb_id s) (build (sb_id s) (sb_next_sequence s)) chs of
           Some chs' \<Rightarrow> (let (subs', out, lost) = fan_send build subs chs' in (s' # subs', out, lost))
         | None \<Rightarrow> (let (subs', out, lost) = fan_send build subs chs in (s' # subs', out, sb_id s # lost)))"

definition drop_subscriber :: "string \<Rightarrow> subscription_frame \<Rightarrow> subscriber list \<Rightarrow> channels \<Rightarrow> subscriber list \<times> channels" where
  "drop_subscriber sub notice subs chs =
     (case position_of (\<lambda>s. sb_id s = sub) subs of
        None \<Rightarrow> (subs, chs)
      | Some i \<Rightarrow> (swap_remove i subs, unwrap_or chs (send_to sub notice chs)))"

fun fan_drop ::
    "(string \<Rightarrow> nat) \<Rightarrow> string \<Rightarrow> string list \<Rightarrow> subscriber list \<Rightarrow> channels \<Rightarrow> subscriber list \<times> channels" where
  "fan_drop takes host_epoch [] subs chs = (subs, chs)"
| "fan_drop takes host_epoch (sub # lost) subs chs =
     (let (subs', chs') = drop_subscriber sub (frame_closed host_epoch sub SlowConsumer) subs
                            (receive_from sub (takes sub) chs)
      in fan_drop takes host_epoch lost subs' chs')"

definition fan_out ::
    "(string \<Rightarrow> nat) \<Rightarrow> string \<Rightarrow> (string \<Rightarrow> nat \<Rightarrow> subscription_frame) \<Rightarrow> session_state \<Rightarrow> channels \<Rightarrow>
     session_state \<times> channels" where
  "fan_out takes host_epoch build st chs =
     (let (subs, chs1, lost) = fan_send build (ss_subscribers st) chs;
          (subs', chs2) = fan_drop takes host_epoch lost subs chs1
      in (st\<lparr>ss_subscribers := subs'\<rparr>, chs2))"

subsection \<open>Operations\<close>

definition open_subscription :: "string \<Rightarrow> string \<Rightarrow> continuity \<Rightarrow> continuity \<times> continuity_snapshot" where
  "open_subscription sub session_id c =
     (let st = unwrap_or \<lparr>ss_snapshot = snapshot_fresh session_id, ss_subscribers = []\<rparr>
                 (map_of (co_sessions c) session_id);
          st' = st\<lparr>ss_subscribers := ss_subscribers st @ [\<lparr>sb_id = sub, sb_next_sequence = 1\<rparr>]\<rparr>
      in (c\<lparr>co_sessions := assoc_set session_id st' (co_sessions c),
            co_channels := (co_channels c)(sub \<mapsto> channel_new),
            co_opened := (co_opened c)(sub \<mapsto> snapshot_json (ss_snapshot st))\<rparr>, ss_snapshot st))"

fun close_in_sessions ::
    "string \<Rightarrow> string \<Rightarrow> (string \<times> session_state) list \<Rightarrow> channels \<Rightarrow> (string \<times> session_state) list \<times> channels" where
  "close_in_sessions sub host_epoch [] chs = ([], chs)"
| "close_in_sessions sub host_epoch ((sid, st) # ss) chs =
     (let (subs, chs1) = drop_subscriber sub (frame_closed host_epoch sub SessionRemoved) (ss_subscribers st) chs;
          (ss', chs2) = close_in_sessions sub host_epoch ss chs1
      in ((sid, st\<lparr>ss_subscribers := subs\<rparr>) # ss', chs2))"

definition close_subscription :: "string \<Rightarrow> string \<Rightarrow> continuity \<Rightarrow> continuity" where
  "close_subscription sub host_epoch c =
     (let (ss, chs) = close_in_sessions sub host_epoch (co_sessions c) (co_channels c)
      in c\<lparr>co_sessions := ss, co_channels := chs\<rparr>)"

text \<open>Publish a changed snapshot to every subscriber, as both writers of the snapshot do.\<close>

definition publish :: "(string \<Rightarrow> nat) \<Rightarrow> string \<Rightarrow> string \<Rightarrow> session_state \<Rightarrow> continuity \<Rightarrow> continuity" where
  "publish takes session_id host_epoch st c =
     (let v = snapshot_json (ss_snapshot st);
          (st', chs) = fan_out takes host_epoch (\<lambda>sub n. SF_SessionProjection host_epoch sub n v) st (co_channels c)
      in c\<lparr>co_sessions := assoc_set session_id st' (co_sessions c), co_channels := chs\<rparr>)"

definition set_pending_interactions ::
    "(string \<Rightarrow> nat) \<Rightarrow> string \<Rightarrow> string \<Rightarrow> json list \<Rightarrow> continuity \<Rightarrow> continuity" where
  "set_pending_interactions takes session_id host_epoch pending c =
     (case map_of (co_sessions c) session_id of
        None \<Rightarrow> c
      | Some st \<Rightarrow>
          publish takes session_id host_epoch
            (st\<lparr>ss_snapshot := (ss_snapshot st)\<lparr>sn_projection_revision := sn_projection_revision (ss_snapshot st) + 1,
                 sn_interactions_pending := pending\<rparr>\<rparr>) c)"

definition is_assistant_text :: "runtime_event \<Rightarrow> bool" where
  "is_assistant_text e = (ev_role e = Role_Model \<and> ev_status e = None \<and>
     (case ev_content e of Some (Content_Text _ _ _) \<Rightarrow> True | _ \<Rightarrow> False))"

definition text_of :: "runtime_event \<Rightarrow> string" where
  "text_of e = (case ev_content e of Some (Content_Text body _ _) \<Rightarrow> body | _ \<Rightarrow> [])"

fun status_wire :: "status \<Rightarrow> string" where
  "status_wire Status_Streaming = ''streaming''"
| "status_wire Status_Completed = ''completed''"
| "status_wire Status_Failed = ''failed''"
| "status_wire Status_Aborted = ''aborted''"
| "status_wire Status_Cancelled = ''cancelled''"

definition accept_runtime_event ::
    "(string \<Rightarrow> nat) \<Rightarrow> string \<Rightarrow> string \<Rightarrow> string \<Rightarrow> runtime_event \<Rightarrow> continuity \<Rightarrow> continuity" where
  "accept_runtime_event takes session_id run_id host_epoch e c =
     (case map_of (co_sessions c) session_id of
        None \<Rightarrow> c
      | Some st \<Rightarrow>
          (case ev_status e of
             Some status \<Rightarrow>
               publish takes session_id host_epoch
                 (st\<lparr>ss_snapshot := (ss_snapshot st)\<lparr>sn_projection_revision := sn_projection_revision (ss_snapshot st) + 1,
                    sn_root_turn := Some (JObj [(''runId'', JStr run_id), (''status'', JStr (status_wire status)),
                      (''turnId'', JStr (ev_turn_id e))])\<rparr>\<rparr>) c
           | None \<Rightarrow>
               if is_assistant_text e then
                 (let (st', chs) = fan_out takes host_epoch
                        (\<lambda>sub n. SF_SessionDelta host_epoch sub n (ev_turn_id e) run_id (ev_id e) Delta_Text 0 (text_of e))
                        st (co_channels c)
                  in c\<lparr>co_sessions := assoc_set session_id st' (co_sessions c), co_channels := chs\<rparr>)
               else c))"

subsection \<open>Fan-out, subscriber by subscriber\<close>

lemma swap_remove_mset:
  assumes "i < length xs"
  shows "mset (swap_remove i xs) = mset xs - {#xs ! i#}"
proof -
  from assms obtain ys l where xs: "xs = ys @ [l]" by (metis append_butlast_last_id list.size(3) not_less_zero)
  show ?thesis
  proof (cases "i < length ys")
    case True
    then have "mset (ys[i := l]) = mset ys - {#ys ! i#} + {#l#}" by (simp add: mset_update)
    with True show ?thesis
      by (simp add: xs swap_remove_def list_update_append nth_append butlast_append)
  next
    case False
    with assms have "i = length ys" by (simp add: xs)
    then show ?thesis by (simp add: xs swap_remove_def list_update_append)
  qed
qed

lemma position_of_Some: "position_of P xs = Some i \<Longrightarrow> i < length xs \<and> P (xs ! i)"
  by (induction xs arbitrary: i) (auto split: if_splits)

lemma position_of_None: "position_of P xs = None \<longleftrightarrow> (\<forall>x \<in> set xs. \<not> P x)"
  by (induction xs) auto

definition sub_ids :: "subscriber list \<Rightarrow> string list" where "sub_ids subs = map sb_id subs"

lemma sub_ids_simps [simp]: "sub_ids [] = []" "sub_ids (s # subs) = sb_id s # sub_ids subs"
  "sub_ids (a @ b) = sub_ids a @ sub_ids b"
  by (simp_all add: sub_ids_def)

lemma in_sub_ids: "i \<in> set (sub_ids subs) \<longleftrightarrow> (\<exists>s \<in> set subs. sb_id s = i)"
  by (auto simp: sub_ids_def)

text \<open>What one send, and one drop, does to a channel.\<close>

definition sent :: "subscription_frame \<Rightarrow> channel option \<Rightarrow> bool" where
  "sent f c = (case c of None \<Rightarrow> False | Some c \<Rightarrow> try_send f c \<noteq> None)"

definition after_send :: "subscription_frame \<Rightarrow> channel option \<Rightarrow> channel option" where
  "after_send f c = (case c of None \<Rightarrow> None | Some c \<Rightarrow> (case try_send f c of None \<Rightarrow> Some c | Some c' \<Rightarrow> Some c'))"

lemma send_to_sent: "(send_to sub f chs = None) = (\<not> sent f (chs sub))"
  by (simp add: send_to_def sent_def split: option.splits)

lemma send_to_after: "unwrap_or chs (send_to sub f chs) = chs(sub := after_send f (chs sub))"
  by (auto simp: send_to_def after_send_def map_upd_Some_unfold fun_upd_idem split: option.splits)

lemma send_to_Some: "send_to sub f chs = Some chs' \<Longrightarrow> chs' = chs(sub := after_send f (chs sub)) \<and> sent f (chs sub)"
  using send_to_after[of chs sub f] send_to_sent[of sub f chs] by simp

abbreviation bump :: "subscriber \<Rightarrow> subscriber" where "bump s \<equiv> s\<lparr>sb_next_sequence := sb_next_sequence s + 1\<rparr>"

abbreviation frame_for :: "(string \<Rightarrow> nat \<Rightarrow> subscription_frame) \<Rightarrow> subscriber \<Rightarrow> subscription_frame" where
  "frame_for build s \<equiv> build (sb_id s) (sb_next_sequence s)"

lemma fan_send_char:
  assumes "distinct (sub_ids subs)" and "fan_send build subs chs = (subs', chs', lost)"
  shows "subs' = map bump subs \<and>
    lost = sub_ids (filter (\<lambda>s. \<not> sent (frame_for build s) (chs (sb_id s))) subs) \<and>
    (\<forall>i. i \<notin> set (sub_ids subs) \<longrightarrow> chs' i = chs i) \<and>
    (\<forall>s \<in> set subs. chs' (sb_id s) = after_send (frame_for build s) (chs (sb_id s)))"
  using assms
proof (induction subs arbitrary: chs subs' chs' lost)
  case Nil
  then show ?case by simp
next
  case (Cons s subs)
  define chs1 where "chs1 = chs(sb_id s := after_send (frame_for build s) (chs (sb_id s)))"
  obtain subs1 out lost1 where r: "fan_send build subs chs1 = (subs1, out, lost1)" by (metis prod_cases3)
  from Cons.prems have d: "distinct (sub_ids subs)" and n: "sb_id s \<notin> set (sub_ids subs)" by auto
  have same: "chs1 (sb_id t) = chs (sb_id t)" if "t \<in> set subs" for t
    using n that by (auto simp: chs1_def in_sub_ids)
  have flt: "filter (\<lambda>t. \<not> sent (frame_for build t) (chs1 (sb_id t))) subs =
      filter (\<lambda>t. \<not> sent (frame_for build t) (chs (sb_id t))) subs"
    by (rule filter_cong) (simp_all add: same)
  note IH = Cons.IH[OF d r]
  have step: "fan_send build (s # subs) chs =
      (bump s # subs1, out, (if sent (frame_for build s) (chs (sb_id s)) then lost1 else sb_id s # lost1))"
  proof (cases "send_to (sb_id s) (frame_for build s) chs")
    case None
    then have ns: "\<not> sent (frame_for build s) (chs (sb_id s))" by (simp add: send_to_sent)
    then have "chs1 = chs" by (auto simp: chs1_def after_send_def sent_def split: option.splits)
    with None ns r show ?thesis by (simp add: Let_def)
  next
    case (Some c)
    with send_to_Some[OF Some] r show ?thesis by (simp add: Let_def chs1_def)
  qed
  from Cons.prems(2) step have res: "subs' = bump s # subs1" "chs' = out"
    "lost = (if sent (frame_for build s) (chs (sb_id s)) then lost1 else sb_id s # lost1)" by simp_all
  have other: "out i = chs i" if "i \<notin> set (sub_ids (s # subs))" for i
    using IH that by (simp add: chs1_def)
  have "out (sb_id s) = chs1 (sb_id s)" using IH n by blast
  then have head: "out (sb_id s) = after_send (frame_for build s) (chs (sb_id s))" by (simp add: chs1_def)
  have tail: "out (sb_id t) = after_send (frame_for build t) (chs (sb_id t))" if "t \<in> set subs" for t
    using IH that same[OF that] by simp
  have lost1: "lost1 = sub_ids (filter (\<lambda>t. \<not> sent (frame_for build t) (chs (sb_id t))) subs)"
    and subs1: "subs1 = map bump subs" using IH flt by simp_all
  show ?case unfolding res lost1 subs1 using other head tail by simp
qed

lemma drop_subscriber_char:
  assumes "distinct (sub_ids subs)" and "sub \<in> set (sub_ids subs)"
    and "drop_subscriber sub notice subs chs = (subs', chs')"
  shows "distinct (sub_ids subs') \<and> set subs' = {s \<in> set subs. sb_id s \<noteq> sub} \<and>
    chs' = chs(sub := after_send notice (chs sub))"
proof -
  from assms(2) obtain i where i: "position_of (\<lambda>s. sb_id s = sub) subs = Some i"
    using position_of_None[of "\<lambda>s. sb_id s = sub" subs]
    by (cases "position_of (\<lambda>s. sb_id s = sub) subs") (auto simp: in_sub_ids)
  from position_of_Some[OF i] have l: "i < length subs" and si: "sb_id (subs ! i) = sub" by simp_all
  have subs': "subs' = swap_remove i subs" and chs': "chs' = chs(sub := after_send notice (chs sub))"
    using assms(3) i by (simp_all add: drop_subscriber_def send_to_after)
  have m: "mset subs' = mset subs - {#subs ! i#}" unfolding subs' by (rule swap_remove_mset[OF l])
  have ms: "mset subs = add_mset (subs ! i) (mset subs')"
    unfolding m using l by simp
  then have mi: "mset (sub_ids subs) = add_mset sub (mset (sub_ids subs'))"
    by (metis image_mset_add_mset mset_map si sub_ids_def)
  then have d: "distinct (sub # sub_ids subs')"
    using assms(1) mset_eq_imp_distinct_iff[of "sub_ids subs" "sub # sub_ids subs'"] by simp
  have "set subs = insert (subs ! i) (set subs')" using arg_cong[OF ms, of set_mset] by simp
  then have "set subs' = {s \<in> set subs. sb_id s \<noteq> sub}"
    using d si by (auto simp: in_sub_ids)
  with d chs' show ?thesis by simp
qed

definition after_drop :: "(string \<Rightarrow> nat) \<Rightarrow> string \<Rightarrow> string \<Rightarrow> channel option \<Rightarrow> channel option" where
  "after_drop takes ep sub c = after_send (frame_closed ep sub SlowConsumer) (map_option (receive (takes sub)) c)"

lemma receive_from_upd: "receive_from sub n chs = chs(sub := map_option (receive n) (chs sub))"
  by (auto simp: receive_from_def split: option.splits)

lemma fan_drop_char:
  assumes "distinct (sub_ids subs)" and "distinct lost" and "set lost \<subseteq> set (sub_ids subs)"
    and "fan_drop takes ep lost subs chs = (subs', chs')"
  shows "distinct (sub_ids subs') \<and> set subs' = {s \<in> set subs. sb_id s \<notin> set lost} \<and>
    chs' = (\<lambda>i. if i \<in> set lost then after_drop takes ep i (chs i) else chs i)"
  using assms
proof (induction lost arbitrary: subs chs)
  case Nil
  then show ?case by simp
next
  case (Cons sub lost)
  obtain subs1 chs1 where r: "drop_subscriber sub (frame_closed ep sub SlowConsumer) subs
      (receive_from sub (takes sub) chs) = (subs1, chs1)" by fastforce
  from Cons.prems have "sub \<in> set (sub_ids subs)" by simp
  from drop_subscriber_char[OF Cons.prems(1) this r]
  have d1: "distinct (sub_ids subs1)" and s1: "set subs1 = {s \<in> set subs. sb_id s \<noteq> sub}"
    and c1: "chs1 = chs(sub := after_drop takes ep sub (chs sub))"
    by (simp_all add: receive_from_upd after_drop_def)
  have "set lost \<subseteq> set (sub_ids subs1)" using Cons.prems(2,3) s1 by (fastforce simp: in_sub_ids)
  moreover have "fan_drop takes ep lost subs1 chs1 = (subs', chs')" using Cons.prems(4) r by simp
  moreover have "distinct lost" and nl: "sub \<notin> set lost" using Cons.prems(2) by simp_all
  ultimately have d: "distinct (sub_ids subs')" and s': "set subs' = {s \<in> set subs1. sb_id s \<notin> set lost}"
    and c': "chs' = (\<lambda>i. if i \<in> set lost then after_drop takes ep i (chs1 i) else chs1 i)"
    using Cons.IH[OF d1] by blast+
  have "set subs' = {s \<in> set subs. sb_id s \<notin> set (sub # lost)}" unfolding s' s1 by auto
  moreover have "chs' = (\<lambda>i. if i \<in> set (sub # lost) then after_drop takes ep i (chs i) else chs i)"
    unfolding c' c1 using nl by (intro ext) auto
  ultimately show ?case using d by blast
qed

lemma fan_out_char:
  assumes "distinct (sub_ids (ss_subscribers st))" and "fan_out takes ep build st chs = (st', chs')"
  shows "ss_snapshot st' = ss_snapshot st \<and> distinct (sub_ids (ss_subscribers st')) \<and>
    set (ss_subscribers st') = bump ` {s \<in> set (ss_subscribers st). sent (frame_for build s) (chs (sb_id s))} \<and>
    (\<forall>i. i \<notin> set (sub_ids (ss_subscribers st)) \<longrightarrow> chs' i = chs i) \<and>
    (\<forall>s \<in> set (ss_subscribers st). chs' (sb_id s) =
       (if sent (frame_for build s) (chs (sb_id s)) then after_send (frame_for build s) (chs (sb_id s))
        else after_drop takes ep (sb_id s) (chs (sb_id s))))"
proof -
  let ?subs = "ss_subscribers st"
  let ?sent = "\<lambda>s. sent (frame_for build s) (chs (sb_id s))"
  obtain subs1 chs1 lost where f: "fan_send build ?subs chs = (subs1, chs1, lost)" by (metis prod_cases3)
  obtain subs2 where g: "fan_drop takes ep lost subs1 chs1 = (subs2, chs')" and st': "st' = st\<lparr>ss_subscribers := subs2\<rparr>"
    using assms(2) f by (auto simp: fan_out_def Let_def split: prod.splits)
  from fan_send_char[OF assms(1) f]
  have subs1: "subs1 = map bump ?subs" and lost: "lost = sub_ids (filter (\<lambda>s. \<not> ?sent s) ?subs)"
    and other: "\<And>i. i \<notin> set (sub_ids ?subs) \<Longrightarrow> chs1 i = chs i"
    and chs1: "\<And>s. s \<in> set ?subs \<Longrightarrow> chs1 (sb_id s) = after_send (frame_for build s) (chs (sb_id s))" by auto
  have ids1: "sub_ids subs1 = sub_ids ?subs" by (simp add: subs1 sub_ids_def)
  have inlost: "sb_id s \<in> set lost \<longleftrightarrow> \<not> ?sent s" if "s \<in> set ?subs" for s
  proof -
    have "t = s" if "t \<in> set ?subs" "sb_id t = sb_id s" for t
      using that \<open>s \<in> set ?subs\<close> assms(1) by (simp add: sub_ids_def distinct_map inj_on_def)
    then show ?thesis using that by (auto simp: lost in_sub_ids)
  qed
  have "distinct lost" using assms(1) by (simp add: lost sub_ids_def distinct_map_filter)
  moreover have sub: "set lost \<subseteq> set (sub_ids subs1)" by (auto simp: lost ids1 in_sub_ids)
  ultimately have d2: "distinct (sub_ids subs2)" and s2: "set subs2 = {s \<in> set subs1. sb_id s \<notin> set lost}"
    and c2: "chs' = (\<lambda>i. if i \<in> set lost then after_drop takes ep i (chs1 i) else chs1 i)"
    using fan_drop_char[OF _ _ _ g] assms(1) ids1 by simp_all
  have "set subs2 = bump ` {s \<in> set ?subs. ?sent s}"
    unfolding s2 subs1 using inlost by (auto simp: image_iff)
  moreover have "chs' i = chs i" if "i \<notin> set (sub_ids ?subs)" for i
    using that other sub ids1 by (auto simp: c2)
  moreover have "chs' (sb_id s) = (if ?sent s then after_send (frame_for build s) (chs (sb_id s))
        else after_drop takes ep (sb_id s) (chs (sb_id s)))" if "s \<in> set ?subs" for s
    using inlost[OF that] chs1[OF that]
    by (auto simp: c2 after_send_def sent_def split: option.splits)
  ultimately show ?thesis using d2 st' by simp
qed

subsection \<open>Histories of a subscription\<close>

datatype continuity_op =
  Op_Open string string
| Op_Close string string
| Op_Pending "string \<Rightarrow> nat" string string "json list"
| Op_Accept "string \<Rightarrow> nat" string string string runtime_event
| Op_Receive string nat
| Op_Drop_Receiver string

definition drop_receiver :: "channel \<Rightarrow> channel" where "drop_receiver ch = ch\<lparr>ch_rx_open := False\<rparr>"

fun apply_op :: "continuity_op \<Rightarrow> continuity \<Rightarrow> continuity" where
  "apply_op (Op_Open sub sid) c = fst (open_subscription sub sid c)"
| "apply_op (Op_Close sub ep) c = close_subscription sub ep c"
| "apply_op (Op_Pending takes sid ep pending) c = set_pending_interactions takes sid ep pending c"
| "apply_op (Op_Accept takes sid run ep e) c = accept_runtime_event takes sid run ep e c"
| "apply_op (Op_Receive sub n) c = c\<lparr>co_channels := receive_from sub n (co_channels c)\<rparr>"
| "apply_op (Op_Drop_Receiver sub) c =
     c\<lparr>co_channels := (co_channels c)(sub := map_option drop_receiver (co_channels c sub))\<rparr>"

text \<open>A new subscription has an id that was never used.\<close>

fun op_ok :: "continuity_op \<Rightarrow> continuity \<Rightarrow> bool" where
  "op_ok (Op_Open sub sid) c = (co_channels c sub = None)"
| "op_ok _ c = True"

inductive co_reach :: "continuity \<Rightarrow> bool" where
  co_start: "co_reach continuity_new"
| co_next: "co_reach c \<Longrightarrow> op_ok p c \<Longrightarrow> co_reach (apply_op p c)"

definition history :: "channel \<Rightarrow> subscription_frame list" where
  "history ch = ch_received ch @ ch_queue ch"

fun frame_sequence :: "subscription_frame \<Rightarrow> nat option" where
  "frame_sequence (SF_SessionProjection _ _ n _) = Some n"
| "frame_sequence (SF_SessionDelta _ _ n _ _ _ _ _ _) = Some n"
| "frame_sequence (SF_SessionEvent _ _ n _) = Some n"
| "frame_sequence (SF_SessionDomainChanged _ _ n) = Some n"
| "frame_sequence (SF_Closed _ _ _) = None"

definition numbered :: "nat \<Rightarrow> subscription_frame list \<Rightarrow> bool" where
  "numbered n fs = (map frame_sequence fs = map Some [1..<n])"

definition gapless :: "subscription_frame list \<Rightarrow> bool" where
  "gapless h = (\<exists>n fs. numbered n fs \<and> (h = fs \<or> (\<exists>f. h = fs @ [f] \<and> frame_sequence f = None)))"

text \<open>The snapshot a client has: the one it opened with, replaced by each projection.\<close>

definition view :: "json \<Rightarrow> subscription_frame list \<Rightarrow> json" where
  "view v h = foldl (\<lambda>w f. case f of SF_SessionProjection _ _ _ s \<Rightarrow> s | _ \<Rightarrow> w) v h"

definition live_ok :: "channels \<Rightarrow> (string \<Rightarrow> json option) \<Rightarrow> continuity_snapshot \<Rightarrow> subscriber \<Rightarrow> bool" where
  "live_ok chs opened snap s = (\<exists>ch v. chs (sb_id s) = Some ch \<and> opened (sb_id s) = Some v \<and> 1 \<le> sb_next_sequence s \<and>
     numbered (sb_next_sequence s) (history ch) \<and> view v (history ch) = snapshot_json snap)"

definition stream_ok :: "channel \<Rightarrow> bool" where
  "stream_ok ch = (length (ch_queue ch) \<le> SUB_QUEUE \<and> gapless (history ch))"

definition co_inv :: "continuity \<Rightarrow> bool" where
  "co_inv c = (distinct (map fst (co_sessions c)) \<and>
     (\<forall>i ch. co_channels c i = Some ch \<longrightarrow> stream_ok ch) \<and>
     (\<forall>a st. map_of (co_sessions c) a = Some st \<longrightarrow>
        distinct (sub_ids (ss_subscribers st)) \<and>
        (\<forall>s \<in> set (ss_subscribers st). live_ok (co_channels c) (co_opened c) (ss_snapshot st) s) \<and>
        (\<forall>b st'. map_of (co_sessions c) b = Some st' \<and> a \<noteq> b \<longrightarrow>
           set (sub_ids (ss_subscribers st)) \<inter> set (sub_ids (ss_subscribers st')) = {})))"

lemma numbered_gapless: "numbered n h \<Longrightarrow> gapless h"
  by (auto simp: gapless_def)

lemma numbered_closed: "numbered n h \<Longrightarrow> frame_sequence f = None \<Longrightarrow> gapless (h @ [f])"
  by (auto simp: gapless_def)

lemma numbered_snoc: "numbered n h \<Longrightarrow> 1 \<le> n \<Longrightarrow> frame_sequence f = Some n \<Longrightarrow> numbered (n + 1) (h @ [f])"
  by (simp add: numbered_def)

lemma history_receive [simp]: "history (receive n ch) = history ch"
  by (simp add: history_def receive_def)

lemma try_send_Some: "try_send f ch = Some ch' \<Longrightarrow> history ch' = history ch @ [f] \<and> length (ch_queue ch') \<le> SUB_QUEUE"
  by (auto simp: try_send_def history_def split: if_splits)

lemma receive_queue: "length (ch_queue (receive n ch)) \<le> length (ch_queue ch)"
  by (simp add: receive_def)

lemma after_send_closed:
  assumes "numbered n (history ch)" and "frame_sequence f = None" and "length (ch_queue ch) \<le> SUB_QUEUE"
  shows "\<exists>ch'. after_send f (Some ch) = Some ch' \<and> stream_ok ch'"
  using assms numbered_gapless numbered_closed try_send_Some[of f ch]
  by (cases "try_send f ch") (auto simp: after_send_def stream_ok_def)

lemma after_drop_ok:
  assumes "numbered n (history ch)" and "length (ch_queue ch) \<le> SUB_QUEUE"
  shows "\<exists>ch'. after_drop takes ep sub (Some ch) = Some ch' \<and> stream_ok ch'"
  unfolding after_drop_def option.map
  by (rule after_send_closed[of n]) (use assms receive_queue[of "takes sub" ch] in \<open>auto simp: frame_closed_def\<close>)

lemma view_snoc: "view v (h @ [f]) = (case f of SF_SessionProjection _ _ _ s \<Rightarrow> s | _ \<Rightarrow> view v h)"
  by (cases f) (simp_all add: view_def)

lemma sent_ok:
  assumes "live_ok chs opened snap s" and "sent f (chs (sb_id s))" and "frame_sequence f = Some (sb_next_sequence s)"
    and "\<And>v h. view v h = snapshot_json snap \<Longrightarrow> view v (h @ [f]) = snapshot_json snap'"
  shows "\<exists>ch'. after_send f (chs (sb_id s)) = Some ch' \<and> stream_ok ch' \<and>
    (chs' (sb_id s) = Some ch' \<longrightarrow> live_ok chs' opened snap' (bump s))"
proof -
  obtain ch v where ch: "chs (sb_id s) = Some ch" "opened (sb_id s) = Some v" "1 \<le> sb_next_sequence s"
    "numbered (sb_next_sequence s) (history ch)" "view v (history ch) = snapshot_json snap"
    using assms(1) by (auto simp: live_ok_def)
  obtain ch' where t: "try_send f ch = Some ch'" using assms(2) ch(1) by (auto simp: sent_def)
  from try_send_Some[OF t] have h: "history ch' = history ch @ [f]" and q: "length (ch_queue ch') \<le> SUB_QUEUE" by simp_all
  have n: "numbered (sb_next_sequence s + 1) (history ch')" unfolding h by (rule numbered_snoc[OF ch(4,3) assms(3)])
  have "view v (history ch') = snapshot_json snap'" unfolding h by (rule assms(4)[OF ch(5)])
  then show ?thesis
    using t q n ch by (auto simp: after_send_def stream_ok_def live_ok_def numbered_gapless)
qed

lemma live_cong: "chs' (sb_id s) = chs (sb_id s) \<Longrightarrow> live_ok chs' opened snap s = live_ok chs opened snap s"
  by (simp add: live_ok_def)

lemma assoc_set_fst: "fst ` set (assoc_set k w m) = insert k (fst ` set m)"
  by (induction k w m rule: assoc_set.induct) auto

lemma assoc_set_keys: "distinct (map fst m) \<Longrightarrow> distinct (map fst (assoc_set k w m))"
  by (induction k w m rule: assoc_set.induct) (auto simp: assoc_set_fst)

lemma co_inv_disjoint:
  "co_inv c \<Longrightarrow> map_of (co_sessions c) a = Some st \<Longrightarrow> map_of (co_sessions c) b = Some st' \<Longrightarrow> a \<noteq> b \<Longrightarrow>
     set (sub_ids (ss_subscribers st)) \<inter> set (sub_ids (ss_subscribers st')) = {}"
  unfolding co_inv_def by blast

lemma co_inv_live:
  "co_inv c \<Longrightarrow> map_of (co_sessions c) a = Some st \<Longrightarrow> s \<in> set (ss_subscribers st) \<Longrightarrow>
     live_ok (co_channels c) (co_opened c) (ss_snapshot st) s"
  unfolding co_inv_def by blast

lemma co_inv_distinct: "co_inv c \<Longrightarrow> map_of (co_sessions c) a = Some st \<Longrightarrow> distinct (sub_ids (ss_subscribers st))"
  unfolding co_inv_def by blast

lemma co_inv_stream: "co_inv c \<Longrightarrow> co_channels c i = Some ch \<Longrightarrow> stream_ok ch"
  unfolding co_inv_def by blast

lemma co_invI:
  assumes "distinct (map fst (co_sessions c))"
    and "\<And>i ch. co_channels c i = Some ch \<Longrightarrow> stream_ok ch"
    and "\<And>a st. map_of (co_sessions c) a = Some st \<Longrightarrow> distinct (sub_ids (ss_subscribers st))"
    and "\<And>a st s. map_of (co_sessions c) a = Some st \<Longrightarrow> s \<in> set (ss_subscribers st) \<Longrightarrow>
      live_ok (co_channels c) (co_opened c) (ss_snapshot st) s"
    and "\<And>a b st st'. map_of (co_sessions c) a = Some st \<Longrightarrow> map_of (co_sessions c) b = Some st' \<Longrightarrow> a \<noteq> b \<Longrightarrow>
      set (sub_ids (ss_subscribers st)) \<inter> set (sub_ids (ss_subscribers st')) = {}"
  shows "co_inv c"
  unfolding co_inv_def using assms by blast

text \<open>One fan-out keeps the invariant when its frames carry the change of the snapshot.\<close>

lemma fan_out_inv:
  assumes inv: "co_inv c" and st: "map_of (co_sessions c) sid = Some st"
    and subs: "ss_subscribers st1 = ss_subscribers st"
    and seq: "\<And>i n. frame_sequence (build i n) = Some n"
    and vw: "\<And>v h i n. view v h = snapshot_json (ss_snapshot st) \<Longrightarrow> view v (h @ [build i n]) = snapshot_json (ss_snapshot st1)"
    and f: "fan_out takes ep build st1 (co_channels c) = (st2, chs2)"
  shows "co_inv (c\<lparr>co_sessions := assoc_set sid st2 (co_sessions c), co_channels := chs2\<rparr>)"
proof -
  let ?chs = "co_channels c"
  let ?sent = "\<lambda>s. sent (frame_for build s) (?chs (sb_id s))"
  from inv st have d: "distinct (sub_ids (ss_subscribers st))"
    and live: "\<And>s. s \<in> set (ss_subscribers st) \<Longrightarrow> live_ok ?chs (co_opened c) (ss_snapshot st) s"
    and streams: "\<And>i ch. ?chs i = Some ch \<Longrightarrow> stream_ok ch"
    and keys: "distinct (map fst (co_sessions c))"
    by (auto simp: co_inv_def)
  from fan_out_char[OF _ f] d subs
  have snap: "ss_snapshot st2 = ss_snapshot st1" and d2: "distinct (sub_ids (ss_subscribers st2))"
    and s2: "set (ss_subscribers st2) = bump ` {s \<in> set (ss_subscribers st). ?sent s}"
    and other: "\<And>i. i \<notin> set (sub_ids (ss_subscribers st)) \<Longrightarrow> chs2 i = ?chs i"
    and own: "\<And>s. s \<in> set (ss_subscribers st) \<Longrightarrow> chs2 (sb_id s) =
       (if ?sent s then after_send (frame_for build s) (?chs (sb_id s)) else after_drop takes ep (sb_id s) (?chs (sb_id s)))"
    by auto
  have ids2: "set (sub_ids (ss_subscribers st2)) \<subseteq> set (sub_ids (ss_subscribers st))"
    using s2 by (auto simp: in_sub_ids)
  have ok: "\<exists>ch'. chs2 (sb_id s) = Some ch' \<and> stream_ok ch' \<and>
      (?sent s \<longrightarrow> live_ok chs2 (co_opened c) (ss_snapshot st1) (bump s))" if s: "s \<in> set (ss_subscribers st)" for s
  proof (cases "?sent s")
    case True
    with sent_ok[OF live[OF s] True seq, of "ss_snapshot st1" chs2] vw own[OF s] show ?thesis by auto
  next
    case False
    obtain ch v where ch: "?chs (sb_id s) = Some ch" "numbered (sb_next_sequence s) (history ch)"
      using live[OF s] by (auto simp: live_ok_def)
    then have "length (ch_queue ch) \<le> SUB_QUEUE" using streams by (auto simp: stream_ok_def)
    from after_drop_ok[OF ch(2) this, of takes ep "sb_id s"] own[OF s] False ch(1) show ?thesis by auto
  qed
  have all_streams: "stream_ok ch" if "chs2 i = Some ch" for i ch
  proof (cases "i \<in> set (sub_ids (ss_subscribers st))")
    case True
    then obtain s where "s \<in> set (ss_subscribers st)" "sb_id s = i" by (auto simp: in_sub_ids)
    with ok that show ?thesis by fastforce
  qed (use other streams that in auto)
  have mine: "live_ok chs2 (co_opened c) (ss_snapshot st2) s" if "s \<in> set (ss_subscribers st2)" for s
    using that s2 ok snap by auto
  have theirs: "live_ok chs2 (co_opened c) (ss_snapshot st') s \<and>
      set (sub_ids (ss_subscribers st2)) \<inter> set (sub_ids (ss_subscribers st')) = {}"
    if "map_of (co_sessions c) b = Some st'" "b \<noteq> sid" "s \<in> set (ss_subscribers st')" for b st' s
  proof -
    have disj: "set (sub_ids (ss_subscribers st)) \<inter> set (sub_ids (ss_subscribers st')) = {}"
      using co_inv_disjoint[OF inv st that(1)] that(2) by simp
    moreover have "sb_id s \<in> set (sub_ids (ss_subscribers st'))" using that(3) by (simp add: sub_ids_def)
    ultimately have "sb_id s \<notin> set (sub_ids (ss_subscribers st))" by blast
    then have "chs2 (sb_id s) = ?chs (sb_id s)" by (rule other)
    moreover have "live_ok ?chs (co_opened c) (ss_snapshot st') s" by (rule co_inv_live[OF inv that(1,3)])
    ultimately have "live_ok chs2 (co_opened c) (ss_snapshot st') s" by (rule live_cong[THEN iffD2])
    moreover have "set (sub_ids (ss_subscribers st2)) \<inter> set (sub_ids (ss_subscribers st')) = {}" using disj ids2 by blast
    ultimately show ?thesis by blast
  qed
  have disj2: "set (sub_ids (ss_subscribers st2)) \<inter> set (sub_ids (ss_subscribers st')) = {}"
    if "map_of (co_sessions c) b = Some st'" "b \<noteq> sid" for b st'
    using theirs[OF that] by (cases "ss_subscribers st'") auto
  have keys2: "distinct (map fst (assoc_set sid st2 (co_sessions c)))"
    using keys by (rule assoc_set_keys)
  show ?thesis
  proof (rule co_invI, goal_cases)
    case 1
    show ?case using keys2 by simp
  next
    case (2 i ch)
    then show ?case using all_streams by simp
  next
    case (3 a sta)
    then show ?case using d2 co_inv_distinct[OF inv, of a sta] by (simp split: if_splits)
  next
    case (4 a sta s)
    then show ?case using mine[of s] theirs[of a sta s] by (simp split: if_splits)
  next
    case (5 a b sta stb)
    then show ?case using disj2[of a sta] disj2[of b stb] co_inv_disjoint[OF inv, of a sta b stb]
      by (simp add: Int_commute split: if_splits)
  qed
qed

lemma publish_inv:
  assumes "co_inv c" and "map_of (co_sessions c) sid = Some st" and "ss_subscribers st1 = ss_subscribers st"
  shows "co_inv (publish takes sid ep st1 c)"
proof -
  obtain st2 chs2 where f: "fan_out takes ep (\<lambda>sub n. SF_SessionProjection ep sub n (snapshot_json (ss_snapshot st1))) st1
      (co_channels c) = (st2, chs2)" by fastforce
  have "co_inv (c\<lparr>co_sessions := assoc_set sid st2 (co_sessions c), co_channels := chs2\<rparr>)"
    by (rule fan_out_inv[OF assms _ _ f]) (simp_all add: view_snoc)
  then show ?thesis using f by (simp add: publish_def Let_def)
qed

lemma pending_inv: "co_inv c \<Longrightarrow> co_inv (set_pending_interactions takes sid ep pending c)"
  by (auto simp: set_pending_interactions_def intro: publish_inv split: option.splits)

lemma accept_inv: "co_inv c \<Longrightarrow> co_inv (accept_runtime_event takes sid run ep e c)"
proof (cases "map_of (co_sessions c) sid")
  case (Some st)
  assume inv: "co_inv c"
  show ?thesis
  proof (cases "ev_status e")
    case None
    let ?build = "\<lambda>sub n. SF_SessionDelta ep sub n (ev_turn_id e) run (ev_id e) Delta_Text 0 (text_of e)"
    obtain st2 chs2 where f: "fan_out takes ep ?build st (co_channels c) = (st2, chs2)" by fastforce
    have "co_inv (c\<lparr>co_sessions := assoc_set sid st2 (co_sessions c), co_channels := chs2\<rparr>)"
      by (rule fan_out_inv[OF inv Some refl _ _ f]) (simp_all add: view_snoc)
    with None Some inv f show ?thesis by (simp add: accept_runtime_event_def Let_def)
  next
    case (Some s)
    show ?thesis unfolding accept_runtime_event_def \<open>map_of (co_sessions c) sid = _\<close> Some option.case
      by (rule publish_inv[OF inv \<open>map_of (co_sessions c) sid = _\<close>]) simp
  qed
qed (simp add: accept_runtime_event_def)

lemma open_inv:
  assumes inv: "co_inv c" and new: "co_channels c sub = None"
  shows "co_inv (fst (open_subscription sub sid c))"
proof -
  define st where "st = unwrap_or \<lparr>ss_snapshot = snapshot_fresh sid, ss_subscribers = []\<rparr> (map_of (co_sessions c) sid)"
  define st' where "st' = st\<lparr>ss_subscribers := ss_subscribers st @ [\<lparr>sb_id = sub, sb_next_sequence = 1\<rparr>]\<rparr>"
  define chs where "chs = (co_channels c)(sub \<mapsto> channel_new)"
  define opened where "opened = (co_opened c)(sub \<mapsto> snapshot_json (ss_snapshot st))"
  have fst: "fst (open_subscription sub sid c) =
      c\<lparr>co_sessions := assoc_set sid st' (co_sessions c), co_channels := chs, co_opened := opened\<rparr>"
    by (simp add: open_subscription_def Let_def st_def st'_def chs_def opened_def)
  have unused: "sub \<notin> set (sub_ids (ss_subscribers t))" if "map_of (co_sessions c) a = Some t" for a t
    using inv new that unfolding co_inv_def by (fastforce simp: in_sub_ids live_ok_def)
  have old: "live_ok chs opened snap s" if "live_ok (co_channels c) (co_opened c) snap s" for snap s
    using that new by (auto simp: live_ok_def chs_def opened_def)
  have st: "distinct (sub_ids (ss_subscribers st)) \<and> sub \<notin> set (sub_ids (ss_subscribers st)) \<and>
      (\<forall>s \<in> set (ss_subscribers st). live_ok (co_channels c) (co_opened c) (ss_snapshot st) s)"
    using inv unused[of sid] by (cases "map_of (co_sessions c) sid") (auto simp: st_def co_inv_def)
  have fresh: "live_ok chs opened (ss_snapshot st) \<lparr>sb_id = sub, sb_next_sequence = 1\<rparr>"
    by (simp add: live_ok_def chs_def opened_def channel_new_def history_def numbered_def view_def)
  have disj: "set (sub_ids (ss_subscribers st')) \<inter> set (sub_ids (ss_subscribers t)) = {}"
    if t: "map_of (co_sessions c) b = Some t" "b \<noteq> sid" for b t
  proof -
    have "set (sub_ids (ss_subscribers st)) \<inter> set (sub_ids (ss_subscribers t)) = {}"
      using co_inv_disjoint[OF inv _ t(1), of sid st] t(2) by (cases "map_of (co_sessions c) sid") (auto simp: st_def)
    then show ?thesis using unused[OF t(1)] by (simp add: st'_def)
  qed
  show ?thesis
  proof (rule co_invI, goal_cases)
    case 1
    show ?case using inv by (auto simp: fst co_inv_def intro: assoc_set_keys)
  next
    case (2 i ch)
    have "stream_ok channel_new"
      by (auto simp: stream_ok_def channel_new_def history_def gapless_def numbered_def intro: exI[of _ 1])
    with 2 show ?case using co_inv_stream[OF inv, of i ch] by (auto simp: fst chs_def split: if_splits)
  next
    case (3 a sta)
    then show ?case using st co_inv_distinct[OF inv, of a sta] by (auto simp: fst st'_def split: if_splits)
  next
    case (4 a sta s)
    then show ?case using st fresh old co_inv_live[OF inv, of a sta s] by (auto simp: fst st'_def split: if_splits)
  next
    case (5 a b sta stb)
    then show ?case using disj[of a sta] disj[of b stb] co_inv_disjoint[OF inv, of a sta b stb]
      by (simp add: fst Int_commute split: if_splits)
  qed
qed

text \<open>A change of the channels that keeps every history.\<close>

lemma channels_inv:
  assumes "co_inv c" and "\<And>i. rel_option (\<lambda>a b. history b = history a \<and> length (ch_queue b) \<le> length (ch_queue a))
      (co_channels c i) (chs i)"
  shows "co_inv (c\<lparr>co_channels := chs\<rparr>)"
proof (rule co_invI, goal_cases)
  case (2 i ch)
  then show ?case using assms(2)[of i] co_inv_stream[OF assms(1), of i]
    by (auto simp: stream_ok_def option_rel_Some2 dest: le_trans)
next
  case (4 a st s)
  then have "live_ok (co_channels c) (co_opened c) (ss_snapshot st) s" using co_inv_live[OF assms(1)] by simp
  then show ?case using assms(2)[of "sb_id s"] by (auto simp: live_ok_def option_rel_Some1)
next
  case (5 a b st st')
  then show ?case using co_inv_disjoint[OF assms(1)] by simp
qed (use assms(1) in \<open>auto simp: co_inv_def\<close>)

lemma receive_inv: "co_inv c \<Longrightarrow> co_inv (c\<lparr>co_channels := receive_from sub n (co_channels c)\<rparr>)"
  by (rule channels_inv) (auto simp: receive_from_upd receive_queue option.rel_map option.rel_refl intro!: option.rel_refl)

lemma drop_receiver_inv: "co_inv c \<Longrightarrow> co_inv (c\<lparr>co_channels := (co_channels c)(sub := map_option drop_receiver (co_channels c sub))\<rparr>)"
  by (rule channels_inv) (auto simp: drop_receiver_def history_def option.rel_map intro!: option.rel_refl)

lemma close_none:
  "\<forall>(a, st) \<in> set ss. sub \<notin> set (sub_ids (ss_subscribers st)) \<Longrightarrow> close_in_sessions sub ep ss chs = (ss, chs)"
proof (induction ss)
  case (Cons p ss)
  obtain a st where p: "p = (a, st)" by fastforce
  with Cons.prems have "position_of (\<lambda>s. sb_id s = sub) (ss_subscribers st) = None"
    by (auto simp: position_of_None in_sub_ids)
  with Cons p show ?case by (simp add: drop_subscriber_def)
qed simp

lemma close_one:
  assumes "distinct (map fst ss)" and "map_of ss a = Some st" and "sub \<in> set (sub_ids (ss_subscribers st))"
    and "distinct (sub_ids (ss_subscribers st))"
    and "\<forall>b st'. map_of ss b = Some st' \<and> b \<noteq> a \<longrightarrow> sub \<notin> set (sub_ids (ss_subscribers st'))"
  shows "\<exists>subs. close_in_sessions sub ep ss chs =
      (assoc_set a (st\<lparr>ss_subscribers := subs\<rparr>) ss, chs(sub := after_send (frame_closed ep sub SessionRemoved) (chs sub))) \<and>
    distinct (sub_ids subs) \<and> set subs = {s \<in> set (ss_subscribers st). sb_id s \<noteq> sub}"
  using assms
proof (induction ss)
  case (Cons p ss)
  obtain b st' where p: "p = (b, st')" by fastforce
  from Cons.prems(1) p have d: "distinct (map fst ss)" and nb: "b \<notin> fst ` set ss" by auto
  show ?case
  proof (cases "b = a")
    case True
    with p Cons.prems(2) have st': "st' = st" by simp
    have "\<forall>(k, t) \<in> set ss. sub \<notin> set (sub_ids (ss_subscribers t))"
    proof (clarify)
      fix k t assume kt: "(k, t) \<in> set ss" "sub \<in> set (sub_ids (ss_subscribers t))"
      then have "k \<noteq> b" using nb by force
      moreover have "map_of (p # ss) k = Some t" using kt(1) d nb p \<open>k \<noteq> b\<close> by simp
      ultimately show False using Cons.prems(5) True kt(2) by blast
    qed
    then have rest: "close_in_sessions sub ep ss chs' = (ss, chs')" for chs' by (rule close_none)
    obtain subs chs1 where r: "drop_subscriber sub (frame_closed ep sub SessionRemoved) (ss_subscribers st) chs = (subs, chs1)"
      by fastforce
    from drop_subscriber_char[OF Cons.prems(4,3) r] r rest True st' p show ?thesis by (auto simp: fun_upd_def intro!: exI[of _ subs])
  next
    case False
    then have "sub \<notin> set (sub_ids (ss_subscribers st'))" using Cons.prems(5)[rule_format, of b st'] p by simp
    then have "drop_subscriber sub (frame_closed ep sub SessionRemoved) (ss_subscribers st') chs = (ss_subscribers st', chs)"
      by (simp add: drop_subscriber_def position_of_None[THEN iffD2] in_sub_ids)
    moreover have "map_of ss a = Some st" using False p Cons.prems(2) by simp
    moreover have "sub \<notin> set (sub_ids (ss_subscribers t))" if "map_of ss k = Some t" "k \<noteq> a" for k t
    proof -
      have "k \<noteq> b" using nb that(1) by (metis domI dom_map_of_conv_image_fst)
      then have "map_of (p # ss) k = Some t" using that p by simp
      then show ?thesis using Cons.prems(5) that(2) by blast
    qed
    ultimately obtain subs where "close_in_sessions sub ep ss chs =
        (assoc_set a (st\<lparr>ss_subscribers := subs\<rparr>) ss, chs(sub := after_send (frame_closed ep sub SessionRemoved) (chs sub)))"
        "distinct (sub_ids subs)" "set subs = {s \<in> set (ss_subscribers st). sb_id s \<noteq> sub}"
      using Cons.IH[OF d _ Cons.prems(3,4)] by blast
    with False p \<open>drop_subscriber _ _ _ _ = _\<close> show ?thesis by (intro exI[of _ subs]) (simp add: fun_upd_def)
  qed
qed simp

lemma close_inv:
  assumes inv: "co_inv c"
  shows "co_inv (close_subscription sub ep c)"
proof (cases "\<exists>a st. map_of (co_sessions c) a = Some st \<and> sub \<in> set (sub_ids (ss_subscribers st))")
  case False
  have "\<forall>(a, st) \<in> set (co_sessions c). sub \<notin> set (sub_ids (ss_subscribers st))"
    using False inv by (auto simp: co_inv_def)
  then have "close_in_sessions sub ep (co_sessions c) (co_channels c) = (co_sessions c, co_channels c)" by (rule close_none)
  then show ?thesis using inv by (simp add: close_subscription_def)
next
  case True
  then obtain a st where st: "map_of (co_sessions c) a = Some st" and sub: "sub \<in> set (sub_ids (ss_subscribers st))" by blast
  define f where "f = frame_closed ep sub SessionRemoved"
  have gone': "\<forall>b t. map_of (co_sessions c) b = Some t \<and> b \<noteq> a \<longrightarrow> sub \<notin> set (sub_ids (ss_subscribers t))"
    using co_inv_disjoint[OF inv st] sub by blast
  then have gone: "\<And>b t. map_of (co_sessions c) b = Some t \<Longrightarrow> b \<noteq> a \<Longrightarrow> sub \<notin> set (sub_ids (ss_subscribers t))" by blast
  have "distinct (map fst (co_sessions c))" using inv by (simp add: co_inv_def)
  from close_one[where ep = ep and chs = "co_channels c", OF this st sub co_inv_distinct[OF inv st] gone']
  obtain subs where r: "close_in_sessions sub ep (co_sessions c) (co_channels c) =
      (assoc_set a (st\<lparr>ss_subscribers := subs\<rparr>) (co_sessions c), (co_channels c)(sub := after_send f (co_channels c sub)))"
    and d: "distinct (sub_ids subs)" and subs: "set subs = {s \<in> set (ss_subscribers st). sb_id s \<noteq> sub}"
    unfolding f_def by blast
  let ?c = "c\<lparr>co_sessions := assoc_set a (st\<lparr>ss_subscribers := subs\<rparr>) (co_sessions c),
      co_channels := (co_channels c)(sub := after_send f (co_channels c sub))\<rparr>"
  have sub': "set (sub_ids subs) \<subseteq> set (sub_ids (ss_subscribers st))" using subs by (auto simp: in_sub_ids)
  from sub obtain s where s: "s \<in> set (ss_subscribers st)" "sb_id s = sub" by (auto simp: in_sub_ids)
  obtain ch where ch: "co_channels c sub = Some ch" "numbered (sb_next_sequence s) (history ch)"
    using co_inv_live[OF inv st s(1)] s(2) by (auto simp: live_ok_def)
  have "\<exists>ch'. after_send f (co_channels c sub) = Some ch' \<and> stream_ok ch'"
    unfolding ch(1) by (rule after_send_closed[OF ch(2)]) (use co_inv_stream[OF inv ch(1)] in \<open>auto simp: stream_ok_def f_def frame_closed_def\<close>)
  then have closed: "stream_ok ch'" if "after_send f (co_channels c sub) = Some ch'" for ch' using that by auto
  have "co_inv ?c"
  proof (rule co_invI, goal_cases)
    case 1
    show ?case using inv by (auto simp: co_inv_def intro: assoc_set_keys)
  next
    case (2 i ch)
    then show ?case using closed co_inv_stream[OF inv, of i ch] by (auto split: if_splits)
  next
    case (3 b t)
    then show ?case using d co_inv_distinct[OF inv, of b t] by (auto split: if_splits)
  next
    case (4 b t x)
    have "sb_id x \<noteq> sub \<and> live_ok (co_channels c) (co_opened c) (ss_snapshot t) x"
    proof (cases "b = a")
      case True
      with 4(1) have t: "t = st\<lparr>ss_subscribers := subs\<rparr>" by simp
      with 4(2) have "x \<in> set subs" by simp
      then have x: "x \<in> set (ss_subscribers st)" "sb_id x \<noteq> sub" unfolding subs by simp_all
      from co_inv_live[OF inv st x(1)] x(2) show ?thesis by (simp add: t)
    next
      case False
      with 4 have t: "map_of (co_sessions c) b = Some t" "x \<in> set (ss_subscribers t)" by simp_all
      then have "sb_id x \<in> set (sub_ids (ss_subscribers t))" by (simp add: sub_ids_def)
      then show ?thesis using gone[OF t(1) False] co_inv_live[OF inv t] by blast
    qed
    then show ?case by (simp add: live_ok_def)
  next
    case (5 b b' t t')
    have mine: "set (sub_ids subs) \<inter> set (sub_ids (ss_subscribers t)) = {}" if "map_of (co_sessions c) k = Some t" "k \<noteq> a" for k t
      using co_inv_disjoint[OF inv st that(1)] that(2) sub' by blast
    show ?case
    proof (cases "b = a")
      case True
      then show ?thesis using 5 mine[of b' t'] by auto
    next
      case False
      show ?thesis
      proof (cases "b' = a")
        case True
        then show ?thesis using 5 False mine[of b t] by auto
      next
        case b': False
        then have "map_of (co_sessions c) b = Some t" "map_of (co_sessions c) b' = Some t'" using 5 False by simp_all
        then show ?thesis using co_inv_disjoint[OF inv] 5(3) by blast
      qed
    qed
  qed
  then show ?thesis by (simp add: close_subscription_def r)
qed

lemma co_reach_inv: "co_reach c \<Longrightarrow> co_inv c"
proof (induction rule: co_reach.induct)
  case co_start
  then show ?case by (simp add: co_inv_def continuity_new_def)
next
  case (co_next c p)
  then show ?case
    by (cases p) (simp_all add: open_inv close_inv pending_inv accept_inv receive_inv drop_receiver_inv)
qed

text \<open>
  C16. In every history of opens, closes, published changes and receivers that
  read, lag behind or vanish: no channel holds more than 32 frames; what a subscription is sent is
  numbered 1, 2, 3, ... without a gap, and at most a close notice follows; and for every subscriber
  still registered, the snapshot it opened with, updated by the projections sent to it, is
  the session's canonical snapshot.
\<close>

theorem subscriber_view_is_current:
  assumes "co_reach c"
  shows "(\<forall>i ch. co_channels c i = Some ch \<longrightarrow> length (ch_queue ch) \<le> 32 \<and> gapless (history ch)) \<and>
    (\<forall>sid st s. map_of (co_sessions c) sid = Some st \<and> s \<in> set (ss_subscribers st) \<longrightarrow>
       (\<exists>ch v. co_channels c (sb_id s) = Some ch \<and> co_opened c (sb_id s) = Some v \<and>
          map frame_sequence (history ch) = map Some [1..<sb_next_sequence s] \<and>
          view v (history ch) = snapshot_json (ss_snapshot st)))"
proof -
  from assms have inv: "co_inv c" by (rule co_reach_inv)
  show ?thesis
  proof (intro conjI allI impI)
    fix i ch assume "co_channels c i = Some ch"
    then have "stream_ok ch" by (rule co_inv_stream[OF inv])
    then show "length (ch_queue ch) \<le> 32" "gapless (history ch)" by (simp_all add: stream_ok_def SUB_QUEUE_def)
  next
    fix sid st s assume "map_of (co_sessions c) sid = Some st \<and> s \<in> set (ss_subscribers st)"
    then have "live_ok (co_channels c) (co_opened c) (ss_snapshot st) s" using co_inv_live[OF inv] by blast
    then show "\<exists>ch v. co_channels c (sb_id s) = Some ch \<and> co_opened c (sb_id s) = Some v \<and>
          map frame_sequence (history ch) = map Some [1..<sb_next_sequence s] \<and>
          view v (history ch) = snapshot_json (ss_snapshot st)"
      by (auto simp: live_ok_def numbered_def)
  qed
qed

definition sample_continuity :: continuity where
  "sample_continuity = apply_op (Op_Receive ''sub'' 1) (apply_op (Op_Pending (\<lambda>_. 0) ''s1'' ''e'' [JNull])
     (apply_op (Op_Open ''sub'' ''s1'') continuity_new))"

theorem subscriber_view_is_current_witness:
  "\<exists>ch v. co_channels sample_continuity ''sub'' = Some ch \<and> map frame_sequence (history ch) = [Some 1] \<and>
     view v (history ch) = snapshot_json ((snapshot_fresh ''s1'')\<lparr>sn_projection_revision := 1, sn_interactions_pending := [JNull]\<rparr>)"
proof -
  have r: "co_reach sample_continuity" unfolding sample_continuity_def
    by (intro co_next co_start) (simp_all add: continuity_new_def)
  note eval = sample_continuity_def continuity_new_def open_subscription_def set_pending_interactions_def publish_def
    fan_out_def send_to_def try_send_def channel_new_def SUB_QUEUE_def receive_from_def receive_def Let_def snapshot_fresh_def
  have "map_of (co_sessions sample_continuity) ''s1'' = Some
      \<lparr>ss_snapshot = (snapshot_fresh ''s1'')\<lparr>sn_projection_revision := 1, sn_interactions_pending := [JNull]\<rparr>,
       ss_subscribers = [\<lparr>sb_id = ''sub'', sb_next_sequence = 2\<rparr>]\<rparr>"
    by (simp add: eval)
  then show ?thesis
    using conjunct2[OF subscriber_view_is_current[OF r], rule_format, of "''s1''" _ "\<lparr>sb_id = ''sub'', sb_next_sequence = 2\<rparr>"]
    by (fastforce simp: upt_rec)
qed

text \<open>
  A change before the first subscription leaves no trace: the session has no state yet, so the
  first subscriber is given a fresh snapshot, whatever turn ran or prompt is pending.
\<close>

lemma changes_before_first_subscription_are_lost:
  assumes "map_of (co_sessions c) sid = None"
  shows "snd (open_subscription sub sid (accept_runtime_event takes sid run ep e c)) = snapshot_fresh sid \<and>
    snd (open_subscription sub sid (set_pending_interactions takes sid ep pending c)) = snapshot_fresh sid"
  using assms by (simp add: accept_runtime_event_def set_pending_interactions_def open_subscription_def Let_def)

end
