(* ===== verification/Connection.thy ===== *)
theory Connection
  imports Dispatch Continuity
begin

text \<open>
  One connection of the host (\<^verbatim>\<open>meepo-host/src/server/connection.rs\<close>): the handshake, then
  requests answered one after the other.  The reader's results are a list: \<open>None\<close> is a framing
  fault, the end of the list the client's leaving.  Whether the bounded writer takes a frame
  is asked of \<open>takes_frame\<close>, a function of how many frames were offered before; \<open>uuid\<close> gives
  subscription ids.  The services behind the dispatcher keep a state of any type.
\<close>

record 's conn =
  cn_service :: 's
  cn_continuity :: continuity
  cn_offered :: nat
  cn_written :: "response_frame list"
  cn_subscriptions :: nat

definition enqueue_response :: "(nat \<Rightarrow> bool) \<Rightarrow> response_frame \<Rightarrow> 's conn \<Rightarrow> bool \<times> 's conn" where
  "enqueue_response takes_frame resp c =
     (let ok = takes_frame (cn_offered c) in
      (ok, c\<lparr>cn_offered := cn_offered c + 1, cn_written := (if ok then cn_written c @ [resp] else cn_written c)\<rparr>))"

definition outcome_response :: "request_frame \<Rightarrow> outcome \<Rightarrow> response_frame" where
  "outcome_response req res =
     (case res of
        Outcome_Ok v \<Rightarrow> response_ok (rq_request_id req) (rq_operation req) v
      | Outcome_Err code msg \<Rightarrow> response_err (rq_request_id req) (rq_operation req) (operation_error_new code msg))"

text \<open>A request's response, and whether a refused response ends the connection.\<close>

definition answer_request ::
    "op_context \<Rightarrow> 's dispatcher \<Rightarrow> (nat \<Rightarrow> string) \<Rightarrow> request_frame \<Rightarrow> 's conn \<Rightarrow> response_frame \<times> bool \<times> 's conn" where
  "answer_request ctx d uuid req c =
     (if rq_operation req = ''subscription.open'' then
        (let sid = str_field (rq_input req) ''sessionId'' in
         if sid = [] then
           (response_err (rq_request_id req) (rq_operation req) (operation_error_new InvalidRequest ''sessionId is required''), False, c)
         else
           (let sub = uuid (cn_subscriptions c);
                (cont, snapshot) = open_subscription sub sid (cn_continuity c);
                res = JObj [(''hostEpoch'', JStr (oc_host_epoch ctx)), (''nextSequence'', JInt 1),
                        (''snapshot'', snapshot_json snapshot), (''subscriptionId'', JStr sub)]
            in (response_ok (rq_request_id req) (rq_operation req) res, False,
                c\<lparr>cn_continuity := cont, cn_subscriptions := cn_subscriptions c + 1\<rparr>)))
      else if rq_operation req = ''subscription.close'' then
        (let sub = str_field (rq_input req) ''subscriptionId'' in
         (response_ok (rq_request_id req) (rq_operation req) (JObj []), False,
          if sub = [] then c else c\<lparr>cn_continuity := close_subscription sub (oc_host_epoch ctx) (cn_continuity c)\<rparr>))
      else
        (let (res, s) = dispatch d (rq_operation req) (rq_input req) ctx (cn_service c)
         in (outcome_response req res, True, c\<lparr>cn_service := s\<rparr>)))"

fun serve_requests ::
    "op_context \<Rightarrow> 's dispatcher \<Rightarrow> (nat \<Rightarrow> string) \<Rightarrow> (nat \<Rightarrow> bool) \<Rightarrow> json option list \<Rightarrow> 's conn \<Rightarrow> 's conn" where
  "serve_requests ctx d uuid takes_frame [] c = c"
| "serve_requests ctx d uuid takes_frame (None # rest) c = c"
| "serve_requests ctx d uuid takes_frame (Some v # rest) c =
     (case decode_client_frame v of
        Ok (CF_Request req) \<Rightarrow>
          (let (resp, must, c1) = answer_request ctx d uuid req c;
               (ok, c2) = enqueue_response takes_frame resp c1
           in if must \<and> \<not> ok then c2 else serve_requests ctx d uuid takes_frame rest c2)
      | _ \<Rightarrow> serve_requests ctx d uuid takes_frame rest c)"

definition handshake_reply :: "op_context \<Rightarrow> string \<Rightarrow> json \<Rightarrow> host_frame option" where
  "handshake_reply ctx connection_id v =
     (case decode_client_frame v of
        Ok (CF_Hello hello) \<Rightarrow>
          Some (case negotiate_protocol (hl_protocol_min hello) (hl_protocol_max hello) PROTOCOL_MIN PROTOCOL_MAX of
             Err _ \<Rightarrow> HF_Incompatible \<lparr>ic_kind = Kind_Incompatible, ic_host_epoch = oc_host_epoch ctx,
                ic_protocol_min = PROTOCOL_MIN, ic_protocol_max = PROTOCOL_MAX,
                ic_compatibility_epoch = COMPATIBILITY_EPOCH, ic_state = oc_lifecycle ctx,
                ic_replacement = BlockedByResidency\<rparr>
           | Ok selected \<Rightarrow>
               if oc_lifecycle ctx = State_Draining then HF_Draining (draining_new (oc_host_epoch ctx))
               else HF_Accepted (accepted_new (oc_host_epoch ctx) connection_id selected COMPATIBILITY_EPOCH (oc_lifecycle ctx)))
      | _ \<Rightarrow> None)"

definition serve_connection ::
    "op_context \<Rightarrow> 's dispatcher \<Rightarrow> string \<Rightarrow> (nat \<Rightarrow> string) \<Rightarrow> (nat \<Rightarrow> bool) \<Rightarrow> bool \<Rightarrow> json option list \<Rightarrow> 's conn \<Rightarrow>
     host_frame option \<times> 's conn" where
  "serve_connection ctx d connection_id uuid takes_frame accepted_sent frames c =
     (case frames of
        Some v # rest \<Rightarrow>
          (case handshake_reply ctx connection_id v of
             Some (HF_Accepted a) \<Rightarrow>
               (Some (HF_Accepted a), if accepted_sent then serve_requests ctx d uuid takes_frame rest c else c)
           | reply \<Rightarrow> (reply, c))
      | _ \<Rightarrow> (None, c))"

subsection \<open>Every request is answered, in order\<close>

text \<open>The requests a connection reads: up to the first fault, strays left out.\<close>

fun requests_of :: "json option list \<Rightarrow> request_frame list" where
  "requests_of [] = []"
| "requests_of (None # rest) = []"
| "requests_of (Some v # rest) =
     (case decode_client_frame v of Ok (CF_Request req) \<Rightarrow> req # requests_of rest | _ \<Rightarrow> requests_of rest)"

definition answers :: "response_frame \<Rightarrow> request_frame \<Rightarrow> bool" where
  "answers resp req = (rs_request_id resp = rq_request_id req \<and> rs_operation resp = rq_operation req \<and>
     response_validate resp = Ok ())"

lemma answer_request_answers:
  assumes "answer_request ctx d uuid req c = (resp, must, c')"
  shows "answers resp req \<and> cn_written c' = cn_written c \<and> cn_offered c' = cn_offered c"
proof -
  have v: "response_validate (response_ok i p v) = Ok ()" "response_validate (response_err i p e) = Ok ()" for i p v e
    by (simp_all add: response_validate_def response_ok_def response_err_def)
  have f: "rs_request_id (response_ok i p v) = i" "rs_operation (response_ok i p v) = p"
    "rs_request_id (response_err i p e) = i" "rs_operation (response_err i p e) = p" for i p v e
    by (simp_all add: response_ok_def response_err_def)
  show ?thesis
    using assms
    by (auto simp: answer_request_def outcome_response_def answers_def v f Let_def split: if_splits prod.splits outcome.splits)
qed

lemma serve_requests_written:
  "\<exists>resps. cn_written (serve_requests ctx d uuid takes_frame frames c) = cn_written c @ resps \<and>
     (\<exists>reqs. subseq reqs (requests_of frames) \<and> list_all2 answers resps reqs) \<and>
     ((\<forall>n. takes_frame n) \<longrightarrow> list_all2 answers resps (requests_of frames))"
proof (induction frames arbitrary: c)
  case Nil
  then show ?case by (intro exI[of _ "[]"]) simp
next
  case (Cons f rest)
  consider "f = None" | v where "f = Some v" "\<nexists>req. decode_client_frame v = Ok (CF_Request req)"
    | v where "f = Some v" "\<exists>req. decode_client_frame v = Ok (CF_Request req)" by (cases f) auto
  then show ?case
  proof cases
    case 1
    then show ?thesis by (intro exI[of _ "[]"]) simp
  next
    case (2 v)
    then have "serve_requests ctx d uuid takes_frame (f # rest) c = serve_requests ctx d uuid takes_frame rest c"
      and "requests_of (f # rest) = requests_of rest"
      by (auto split: sum.splits client_frame.splits)
    with Cons.IH[of c] show ?thesis by simp
  next
    case (3 v)
    then obtain req where req: "decode_client_frame v = Ok (CF_Request req)" by blast
    obtain resp must c1 where a: "answer_request ctx d uuid req c = (resp, must, c1)" by (metis prod_cases3)
    note w = answer_request_answers[OF a]
    let ?ok = "takes_frame (cn_offered c1)"
    define c2 where "c2 = snd (enqueue_response takes_frame resp c1)"
    have e: "enqueue_response takes_frame resp c1 = (?ok, c2)" by (simp add: enqueue_response_def c2_def Let_def)
    have c2: "cn_written c2 = cn_written c @ (if ?ok then [resp] else [])"
      using w by (simp add: enqueue_response_def c2_def Let_def)
    show ?thesis
    proof (cases "must \<and> \<not> ?ok")
      case True
      then have "serve_requests ctx d uuid takes_frame (f # rest) c = c2" using req a e 3(1) by simp
      then show ?thesis using c2 True by (intro exI[of _ "[]"]) auto
    next
      case False
      then have s: "serve_requests ctx d uuid takes_frame (f # rest) c = serve_requests ctx d uuid takes_frame rest c2"
        using req a e 3(1) by auto
      obtain resps reqs where r: "cn_written (serve_requests ctx d uuid takes_frame rest c2) = cn_written c2 @ resps"
        "subseq reqs (requests_of rest)" "list_all2 answers resps reqs"
        "(\<forall>n. takes_frame n) \<longrightarrow> list_all2 answers resps (requests_of rest)"
        using Cons.IH[of c2] by blast
      let ?out = "(if ?ok then [resp] else []) @ resps"
      have "cn_written (serve_requests ctx d uuid takes_frame (f # rest) c) = cn_written c @ ?out"
        using r(1) c2 by (simp add: s)
      moreover have "\<exists>qs. subseq qs (requests_of (f # rest)) \<and> list_all2 answers ?out qs"
        using r(2,3) w req 3(1) by (intro exI[of _ "(if ?ok then [req] else []) @ reqs"]) auto
      moreover have "(\<forall>n. takes_frame n) \<longrightarrow> list_all2 answers ?out (requests_of (f # rest))"
        using r(4) w req 3(1) by auto
      ultimately show ?thesis by blast
    qed
  qed
qed

lemma handshake_accepts:
  "(\<exists>a. handshake_reply ctx cid v = Some (HF_Accepted a)) \<longleftrightarrow>
     (\<exists>hello. decode_client_frame v = Ok (CF_Hello hello) \<and> hl_protocol_min hello = 0 \<and> oc_lifecycle ctx \<noteq> State_Draining)"
proof -
  have n: "(\<exists>p. negotiate_protocol a b PROTOCOL_MIN PROTOCOL_MAX = Ok p) \<longleftrightarrow> a = 0" for a b
    by (simp add: negotiate_protocol_def validate_protocol_range_def PROTOCOL_MIN_def PROTOCOL_MAX_def Let_def
        word_gt_0 not_less)
  have h: "(\<exists>a. handshake_reply ctx cid v = Some (HF_Accepted a)) \<longleftrightarrow>
     (\<exists>hello p. decode_client_frame v = Ok (CF_Hello hello) \<and>
        negotiate_protocol (hl_protocol_min hello) (hl_protocol_max hello) PROTOCOL_MIN PROTOCOL_MAX = Ok p \<and>
        oc_lifecycle ctx \<noteq> State_Draining)"
    by (auto simp: handshake_reply_def split: sum.splits client_frame.splits if_splits)
  show ?thesis unfolding h using n by blast
qed

text \<open>
  C22. A connection that is not accepted has no effect: no
  request reaches a handler or opens a subscription, and acceptance takes a hello whose range
  begins at protocol 0 on a host that is not draining.  On an accepted connection every response
  is a valid one, carries the id and operation of a request, and comes in the requests' order; while
  the writer takes frames, every request read before a framing fault gets exactly one.
\<close>

theorem connection_answers_in_order:
  assumes "serve_connection ctx d cid uuid takes_frame accepted_sent frames c = (reply, c')" and "cn_written c = []"
  shows "(\<not> (\<exists>a. reply = Some (HF_Accepted a)) \<longrightarrow> c' = c) \<and>
    ((\<exists>a. reply = Some (HF_Accepted a)) \<longleftrightarrow>
       (\<exists>v rest hello. frames = Some v # rest \<and> decode_client_frame v = Ok (CF_Hello hello) \<and>
          hl_protocol_min hello = 0 \<and> oc_lifecycle ctx \<noteq> State_Draining)) \<and>
    (\<exists>reqs. subseq reqs (requests_of (drop 1 frames)) \<and> list_all2 answers (cn_written c') reqs) \<and>
    ((\<exists>a. reply = Some (HF_Accepted a)) \<and> accepted_sent \<and> (\<forall>n. takes_frame n) \<longrightarrow>
       list_all2 answers (cn_written c') (requests_of (drop 1 frames)))"
proof -
  define accepted where "accepted = (\<exists>a. reply = Some (HF_Accepted a))"
  have reply: "reply = (case frames of Some v # rest \<Rightarrow> handshake_reply ctx cid v | _ \<Rightarrow> None)"
    using assms(1) by (auto simp: serve_connection_def split: list.splits option.splits host_frame.splits)
  then have acc: "accepted \<longleftrightarrow> (\<exists>v rest hello. frames = Some v # rest \<and> decode_client_frame v = Ok (CF_Hello hello) \<and>
          hl_protocol_min hello = 0 \<and> oc_lifecycle ctx \<noteq> State_Draining)"
    unfolding accepted_def by (auto simp: handshake_accepts split: list.splits option.splits)
  have c': "c' = (if accepted \<and> accepted_sent then serve_requests ctx d uuid takes_frame (drop 1 frames) c else c)"
  proof (cases "\<exists>v rest a. frames = Some v # rest \<and> handshake_reply ctx cid v = Some (HF_Accepted a)")
    case True
    then obtain v rest a where f: "frames = Some v # rest" "handshake_reply ctx cid v = Some (HF_Accepted a)" by blast
    then have "accepted" using reply by (simp add: accepted_def)
    with f assms(1) show ?thesis by (simp add: serve_connection_def split: if_splits)
  next
    case False
    then have "\<not> accepted" using reply by (auto simp: accepted_def split: list.splits option.splits)
    moreover have "c' = c" using assms(1) False
      by (auto simp: serve_connection_def split: list.splits option.splits host_frame.splits)
    ultimately show ?thesis by simp
  qed
  obtain resps where r: "cn_written (serve_requests ctx d uuid takes_frame (drop 1 frames) c) = resps"
    "\<exists>reqs. subseq reqs (requests_of (drop 1 frames)) \<and> list_all2 answers resps reqs"
    "(\<forall>n. takes_frame n) \<longrightarrow> list_all2 answers resps (requests_of (drop 1 frames))"
    using serve_requests_written[of ctx d uuid takes_frame "drop 1 frames" c] assms(2) by auto
  have "\<exists>reqs. subseq reqs (requests_of (drop 1 frames)) \<and> list_all2 answers (cn_written c') reqs"
    using r(1,2) assms(2) by (cases "accepted \<and> accepted_sent") (auto simp: c')
  moreover have "accepted \<and> accepted_sent \<and> (\<forall>n. takes_frame n) \<longrightarrow>
      list_all2 answers (cn_written c') (requests_of (drop 1 frames))" using r(1,3) by (simp add: c')
  moreover have "\<not> accepted \<longrightarrow> c' = c" by (simp add: c')
  ultimately show ?thesis using acc unfolding accepted_def by blast
qed

definition sample_conn :: "unit conn" where
  "sample_conn = \<lparr>cn_service = (), cn_continuity = continuity_new, cn_offered = 0, cn_written = [], cn_subscriptions = 0\<rparr>"

definition sample_frames :: "json option list" where
  "sample_frames = [Some (client_frame_json (CF_Hello (hello_new ''c'' Surface_Tui 0 0 10))),
     Some (client_frame_json (CF_Request \<lparr>rq_request_id = ''r1'', rq_operation = ''host.status'', rq_input = JNull\<rparr>)),
     Some JNull,
     Some (client_frame_json (CF_Request \<lparr>rq_request_id = ''r2'', rq_operation = ''nope'', rq_input = JNull\<rparr>)), None]"

theorem connection_answers_in_order_witness:
  "\<exists>reply c'. serve_connection \<lparr>oc_host_epoch = ''h'', oc_lifecycle = State_Ready\<rparr> (register_host dispatcher_new) ''c'' show_nat
      (\<lambda>_. True) True sample_frames sample_conn = (reply, c') \<and> map rs_request_id (cn_written c') = [''r1'', ''r2'']"
proof -
  let ?ctx = "\<lparr>oc_host_epoch = ''h'', oc_lifecycle = State_Ready\<rparr>"
  let ?hello = "hello_new ''c'' Surface_Tui 0 0 10"
  let ?out = "serve_connection ?ctx (register_host dispatcher_new) ''c'' show_nat (\<lambda>_. True) True sample_frames sample_conn"
  have "decode_client_frame (client_frame_json (CF_Hello ?hello)) = Ok (CF_Hello ?hello)"
    by (rule client_round) (simp add: hello_new_def)
  moreover have req: "decode_client_frame (client_frame_json (CF_Request r)) = Ok (CF_Request r)" for r
    by (rule client_round) simp
  moreover have "decode_client_frame JNull = Err InvalidFrame" by (simp add: decode_client_frame_def)
  ultimately have reqs: "map rq_request_id (requests_of (drop 1 sample_frames)) = [''r1'', ''r2'']"
    and acc: "\<exists>v rest hello. sample_frames = Some v # rest \<and> decode_client_frame v = Ok (CF_Hello hello) \<and>
          hl_protocol_min hello = 0 \<and> oc_lifecycle ?ctx \<noteq> State_Draining"
    by (auto simp: sample_frames_def hello_new_def simp del: client_frame_json.simps)
  have w: "cn_written sample_conn = []" by (simp add: sample_conn_def)
  have eq: "map rs_request_id resps = map rq_request_id rs" if "list_all2 answers resps rs" for resps rs
    using that by (induction rule: list_all2_induct) (auto simp: answers_def)
  obtain reply c' where o: "?out = (reply, c')" by fastforce
  note served = connection_answers_in_order[OF o w]
  have "\<exists>a. reply = Some (HF_Accepted a)" using conjunct1[OF conjunct2[OF served]] acc by blast
  then have "list_all2 answers (cn_written c') (requests_of (drop 1 sample_frames))" using served by blast
  from eq[OF this] reqs have "map rs_request_id (cn_written c') = [''r1'', ''r2'']" by simp
  show ?thesis
    by (rule exI[of _ reply], rule exI[of _ c'], rule conjI) (fact o, fact)
qed

end
