(* ===== verification/Interactions.thy ===== *)
theory Interactions
  imports Gate Sqlite_Tables Continuity Dispatch
begin

text \<open>
  Permission prompts over the wire: the interaction hub
  (\<^verbatim>\<open>meepo-host/src/server/interaction.rs\<close>) and its operations
  (\<^verbatim>\<open>handlers/interaction.rs\<close>).

  The hub's critical sections are functions; an asking turn and an answering client
  compose them, and \<open>hub_step\<close> lets them interleave.  \<open>hb_taken\<close> and \<open>hb_stored\<close> hold the
  answers between their sections, \<open>hb_delivered\<close> what the turns received.  The text form of a
  request and of an answer are parameters.
\<close>

fun category_wire :: "tool_category \<Rightarrow> string" where
  "category_wire Cat_Read = ''read''"
| "category_wire Cat_WebRead = ''web_read''"
| "category_wire Cat_FileWrite = ''file_write''"
| "category_wire Cat_FsDestructive = ''fs_destructive''"
| "category_wire Cat_ShellUnsafe = ''shell_unsafe''"
| "category_wire Cat_GitDestructive = ''git_destructive''"
| "category_wire Cat_Privileged = ''privileged''"
| "category_wire Cat_CustomTool = ''custom_tool''"

record interaction_context =
  ix_session_id :: string
  ix_run_id :: string
  ix_turn_id :: string

record pending_interaction =
  pi_ctx :: interaction_context
  pi_request_json :: string
  pi_created_at :: int
  pi_view :: json

record hub =
  hb_pending :: "(string \<times> pending_interaction) list"
  hb_taken :: "(string \<times> pending_interaction \<times> permission_answer) list"
  hb_stored :: "(string \<times> permission_answer) list"
  hb_delivered :: "(string \<times> permission_answer) list"
  hb_tables :: interaction_tables

definition hub_new :: "interaction_tables \<Rightarrow> hub" where
  "hub_new tables = \<lparr>hb_pending = [], hb_taken = [], hb_stored = [], hb_delivered = [], hb_tables = tables\<rparr>"

subsection \<open>The critical sections\<close>

definition interaction_view :: "string \<Rightarrow> interaction_context \<Rightarrow> permission_request \<Rightarrow> json" where
  "interaction_view request_id ctx request = JObj [(''category'', JStr (category_wire (pr_category request))),
     (''interactionId'', JStr request_id), (''sessionId'', JStr (ix_session_id ctx)),
     (''summary'', JStr (pr_summary request)), (''toolName'', JStr (pr_tool_name request))]"

definition hub_insert ::
    "(permission_request \<Rightarrow> string) \<Rightarrow> string \<Rightarrow> int \<Rightarrow> interaction_context \<Rightarrow> permission_request \<Rightarrow> hub \<Rightarrow> hub" where
  "hub_insert request_text request_id now ctx request h =
     h\<lparr>hb_pending := assoc_set request_id
        \<lparr>pi_ctx = ctx, pi_request_json = request_text request, pi_created_at = now,
         pi_view = interaction_view request_id ctx request\<rparr> (hb_pending h)\<rparr>"

definition hub_take :: "string \<Rightarrow> permission_answer \<Rightarrow> hub \<Rightarrow> hub option" where
  "hub_take interaction_id answer h =
     (case map_of (hb_pending h) interaction_id of
        None \<Rightarrow> None
      | Some entry \<Rightarrow>
          Some (h\<lparr>hb_pending := filter (\<lambda>p. fst p \<noteq> interaction_id) (hb_pending h),
                  hb_taken := (interaction_id, entry, answer) # hb_taken h\<rparr>))"

definition hub_store :: "(permission_answer \<Rightarrow> string) \<Rightarrow> string \<times> pending_interaction \<times> permission_answer \<Rightarrow> hub \<Rightarrow> hub" where
  "hub_store answer_text t h =
     (case t of (interaction_id, entry, answer) \<Rightarrow>
        h\<lparr>hb_taken := remove1 t (hb_taken h), hb_stored := (interaction_id, answer) # hb_stored h,
          hb_tables := record_permission (ix_session_id (pi_ctx entry)) (ix_run_id (pi_ctx entry))
            (ix_turn_id (pi_ctx entry)) interaction_id (pi_created_at entry) (pi_request_json entry)
            (answer_text answer) (hb_tables h)\<rparr>)"

definition hub_deliver :: "string \<times> permission_answer \<Rightarrow> hub \<Rightarrow> hub" where
  "hub_deliver p h = h\<lparr>hb_stored := remove1 p (hb_stored h), hb_delivered := p # hb_delivered h\<rparr>"

definition pending_for_session :: "string \<Rightarrow> hub \<Rightarrow> json list" where
  "pending_for_session session_id h =
     map (\<lambda>p. pi_view (snd p)) (filter (\<lambda>p. ix_session_id (pi_ctx (snd p)) = session_id) (hb_pending h))"

subsection \<open>Asking and answering\<close>

record interaction_state =
  is_hub :: hub
  is_continuity :: continuity

definition publish_pending :: "(string \<Rightarrow> nat) \<Rightarrow> string \<Rightarrow> string \<Rightarrow> interaction_state \<Rightarrow> interaction_state" where
  "publish_pending takes session_id host_epoch s =
     (let views = pending_for_session session_id (is_hub s)
      in s\<lparr>is_continuity := set_pending_interactions takes session_id host_epoch views (is_continuity s)\<rparr>)"

text \<open>\<^verbatim>\<open>ask\<close> up to the wait; a wait whose answerer is gone denies.\<close>

definition hub_ask ::
    "(permission_request \<Rightarrow> string) \<Rightarrow> (string \<Rightarrow> nat) \<Rightarrow> string \<Rightarrow> int \<Rightarrow> interaction_context \<Rightarrow> string \<Rightarrow>
     permission_request \<Rightarrow> interaction_state \<Rightarrow> interaction_state" where
  "hub_ask request_text takes request_id now ctx host_epoch request s =
     publish_pending takes (ix_session_id ctx) host_epoch
       (s\<lparr>is_hub := hub_insert request_text request_id now ctx request (is_hub s)\<rparr>)"

definition awaited_answer :: "permission_answer option \<Rightarrow> permission_answer" where
  "awaited_answer rx = unwrap_or \<lparr>pa_decision = Decision_Deny, pa_remember_for_turn = False\<rparr> rx"

definition hub_answer ::
    "(permission_answer \<Rightarrow> string) \<Rightarrow> (string \<Rightarrow> nat) \<Rightarrow> string \<Rightarrow> string \<Rightarrow> permission_answer \<Rightarrow> interaction_state \<Rightarrow>
     (interaction_state, string) result" where
  "hub_answer answer_text takes interaction_id host_epoch answer s =
     (case hub_take interaction_id answer (is_hub s) of
        None \<Rightarrow> Err interaction_id
      | Some h1 \<Rightarrow>
          (let t = hd (hb_taken h1);
               h2 = hub_store answer_text t h1;
               h3 = hub_deliver (interaction_id, answer) h2
           in Ok (publish_pending takes (ix_session_id (pi_ctx (fst (snd t)))) host_epoch (s\<lparr>is_hub := h3\<rparr>))))"

definition interaction_query :: "interaction_state handler" where
  "interaction_query input ctx s =
     (let session_id = str_field input ''sessionId'' in
      if session_id = [] then (Outcome_Err InvalidRequest ''sessionId is required'', s)
      else (Outcome_Ok (JObj [(''pending'', JArr (pending_for_session session_id (is_hub s))),
              (''sessionId'', JStr session_id)]), s))"

definition interaction_answer ::
    "(permission_answer \<Rightarrow> string) \<Rightarrow> (string \<Rightarrow> nat) \<Rightarrow> interaction_state handler" where
  "interaction_answer answer_text takes input ctx s =
     (let interaction_id = str_field input ''interactionId'' in
      if interaction_id = [] then (Outcome_Err InvalidRequest ''interactionId is required'', s)
      else
        (let decision = (case pointer_str input [''answer'', ''decision''] of
               Some d \<Rightarrow> (if d = ''allow'' then Some Decision_Allow else if d = ''deny'' then Some Decision_Deny else None)
             | None \<Rightarrow> None) in
         case decision of
           None \<Rightarrow> (Outcome_Err InvalidRequest (''answer.decision must be '' @ quoted ''allow'' @ '' or '' @ quoted ''deny''), s)
         | Some d \<Rightarrow>
             (let remember = unwrap_or False (Option.bind (json_pointer input [''answer'', ''rememberForTurn'']) as_bool);
                  answer = \<lparr>pa_decision = d, pa_remember_for_turn = remember\<rparr>
              in case hub_answer answer_text takes interaction_id (oc_host_epoch ctx) answer s of
                   Ok s' \<Rightarrow> (Outcome_Ok (JObj [(''resolved'', JBool True)]), s')
                 | Err m \<Rightarrow> (Outcome_Err AlreadyResolved m, s))))"

definition register_interaction ::
    "(permission_answer \<Rightarrow> string) \<Rightarrow> (string \<Rightarrow> nat) \<Rightarrow> interaction_state dispatcher \<Rightarrow> interaction_state dispatcher" where
  "register_interaction answer_text takes d =
     register_op ''interaction.answer'' (interaction_answer answer_text takes)
       (register_op ''interaction.query'' interaction_query d)"

subsection \<open>Interleavings\<close>

definition outcome_ids :: "hub \<Rightarrow> string set" where
  "outcome_ids h = fst ` set (it_outcomes (hb_tables h))"

definition used_ids :: "hub \<Rightarrow> string list" where
  "used_ids h = map fst (hb_pending h) @ map fst (hb_taken h) @ map fst (hb_stored h) @ map fst (hb_delivered h)"

text \<open>A new interaction's id is one that was never used.\<close>

inductive hub_step :: "(permission_request \<Rightarrow> string) \<Rightarrow> (permission_answer \<Rightarrow> string) \<Rightarrow> hub \<Rightarrow> hub \<Rightarrow> bool"
    for request_text answer_text where
  step_insert: "i \<notin> set (used_ids h) \<Longrightarrow> i \<notin> outcome_ids h \<Longrightarrow>
     hub_step request_text answer_text h (hub_insert request_text i now ctx request h)"
| step_take: "hub_take i answer h = Some h' \<Longrightarrow> hub_step request_text answer_text h h'"
| step_store: "t \<in> set (hb_taken h) \<Longrightarrow> hub_step request_text answer_text h (hub_store answer_text t h)"
| step_deliver: "p \<in> set (hb_stored h) \<Longrightarrow> hub_step request_text answer_text h (hub_deliver p h)"

definition hub_inv :: "(permission_answer \<Rightarrow> string) \<Rightarrow> hub \<Rightarrow> bool" where
  "hub_inv answer_text h = (distinct (used_ids h) \<and>
     (\<forall>(i, a) \<in> set (hb_stored h) \<union> set (hb_delivered h). map_of (it_outcomes (hb_tables h)) i = Some (answer_text a)) \<and>
     (\<forall>i \<in> set (map fst (hb_pending h) @ map fst (hb_taken h)). map_of (it_outcomes (hb_tables h)) i = None))"

lemma map_of_outcomes:
  "map_of (it_outcomes (record_permission sid rid tid i z rj oj t)) k =
     (if k = i \<and> map_of (it_outcomes t) i = None then Some oj else map_of (it_outcomes t) k)"
proof (cases "map_of (it_outcomes t) i")
  case None
  then have "\<not> list_ex (\<lambda>b. i = fst b) (it_outcomes t)" by (auto simp: list_ex_iff map_of_eq_None_iff image_iff)
  with None show ?thesis by (simp add: record_permission_def insert_ignore_def map_add_def split: option.split)
next
  case (Some v)
  then have "list_ex (\<lambda>b. i = fst b) (it_outcomes t)" by (force simp: list_ex_iff dest: map_of_SomeD)
  with Some show ?thesis by (simp add: record_permission_def insert_ignore_def)
qed

lemma hub_take_Some:
  assumes "hub_take i answer h = Some h'"
  shows "\<exists>entry. map_of (hb_pending h) i = Some entry \<and>
    h' = h\<lparr>hb_pending := filter (\<lambda>p. fst p \<noteq> i) (hb_pending h), hb_taken := (i, entry, answer) # hb_taken h\<rparr>"
  using assms by (auto simp: hub_take_def split: option.splits)

lemma remove_key_mset:
  "distinct (map fst m) \<Longrightarrow> map_of m i = Some e \<Longrightarrow>
     mset (map fst m) = add_mset i (mset (map fst (filter (\<lambda>p. fst p \<noteq> i) m)))"
proof (induction m)
  case (Cons p m)
  show ?case
  proof (cases "fst p = i")
    case True
    with Cons.prems(1) have "filter (\<lambda>q. fst q \<noteq> i) m = m" by (auto simp: filter_id_conv image_iff)
    with True show ?thesis by simp
  next
    case False
    with Cons show ?thesis by (cases p) (auto simp: add_mset_commute)
  qed
qed simp

lemma remove1_fst_mset: "p \<in> set xs \<Longrightarrow> mset (map fst xs) = add_mset (fst p) (mset (map fst (remove1 p xs)))"
  by (induction xs) (auto simp: add_mset_commute)

lemma assoc_set_new: "k \<notin> fst ` set m \<Longrightarrow> assoc_set k v m = m @ [(k, v)]"
  by (induction m) auto

text \<open>The ids in use: an insertion adds a new one, the other steps move one on.\<close>

lemma used_step:
  assumes "hub_step rt at h h'" and "distinct (used_ids h)"
  shows "mset (used_ids h') = mset (used_ids h) \<or> (\<exists>i. i \<notin> set (used_ids h) \<and> mset (used_ids h') = add_mset i (mset (used_ids h)))"
  using assms(1)
proof cases
  case (step_insert i now ctx request)
  then have "i \<notin> fst ` set (hb_pending h)" by (simp add: used_ids_def)
  then have "assoc_set i v (hb_pending h) = hb_pending h @ [(i, v)]" for v by (rule assoc_set_new)
  then show ?thesis using step_insert by (auto simp: hub_insert_def used_ids_def)
next
  case (step_take i answer)
  from hub_take_Some[OF this] obtain entry where m: "map_of (hb_pending h) i = Some entry"
    and h': "h' = h\<lparr>hb_pending := filter (\<lambda>p. fst p \<noteq> i) (hb_pending h), hb_taken := (i, entry, answer) # hb_taken h\<rparr>" by blast
  have "distinct (map fst (hb_pending h))" using assms(2) by (simp add: used_ids_def)
  from remove_key_mset[OF this m] show ?thesis by (simp add: h' used_ids_def)
next
  case (step_store t)
  from remove1_fst_mset[OF step_store(2)] step_store(1) show ?thesis
    by (cases t) (simp add: hub_store_def used_ids_def)
next
  case (step_deliver p)
  from remove1_fst_mset[OF step_deliver(2)] step_deliver(1) show ?thesis
    by (cases p) (simp add: hub_deliver_def used_ids_def)
qed

lemma used_distinct_step: "hub_step rt at h h' \<Longrightarrow> distinct (used_ids h) \<Longrightarrow> distinct (used_ids h')"
  using used_step[of rt at h h']
  by (metis distinct.simps(2) mset.simps(2) mset_eq_imp_distinct_iff)

lemma hub_inv_step:
  assumes "hub_step rt at h h'" and inv: "hub_inv at h"
  shows "hub_inv at h'"
proof -
  have d: "distinct (used_ids h)" and d': "distinct (used_ids h')"
    using inv used_distinct_step[OF assms(1)] by (simp_all add: hub_inv_def)
  have told: "map_of (it_outcomes (hb_tables h)) i = Some (at a)" if "(i, a) \<in> set (hb_stored h) \<union> set (hb_delivered h)" for i a
    using inv that by (auto simp: hub_inv_def)
  have open': "map_of (it_outcomes (hb_tables h)) i = None" if "i \<in> fst ` set (hb_pending h) \<or> i \<in> fst ` set (hb_taken h)" for i
    using inv that unfolding hub_inv_def by auto
  from assms(1) show ?thesis
  proof cases
    case (step_insert i now ctx request)
    then have "map_of (it_outcomes (hb_tables h)) i = None" by (simp add: outcome_ids_def map_of_eq_None_iff)
    then show ?thesis using d' told open' step_insert(1)
      by (auto simp: hub_inv_def hub_insert_def assoc_set_fst)
  next
    case (step_take i answer)
    from hub_take_Some[OF this] obtain entry where m: "map_of (hb_pending h) i = Some entry"
      and h': "h' = h\<lparr>hb_pending := filter (\<lambda>p. fst p \<noteq> i) (hb_pending h), hb_taken := (i, entry, answer) # hb_taken h\<rparr>" by blast
    from m have "i \<in> fst ` set (hb_pending h)" by (force dest: map_of_SomeD)
    then have i: "map_of (it_outcomes (hb_tables h)) i = None" by (intro open' disjI1)
    have "map_of (it_outcomes (hb_tables h')) k = None" if "k \<in> set (map fst (hb_pending h') @ map fst (hb_taken h'))" for k
    proof -
      from that have "k \<in> fst ` set (hb_pending h) \<or> k \<in> fst ` set (hb_taken h) \<or> k = i" by (auto simp: h')
      then show ?thesis using open' i by (auto simp: h')
    qed
    moreover have "\<forall>(k, b) \<in> set (hb_stored h') \<union> set (hb_delivered h'). map_of (it_outcomes (hb_tables h')) k = Some (at b)"
      using inv by (simp add: h' hub_inv_def)
    ultimately show ?thesis using d' unfolding hub_inv_def by blast
  next
    case (step_store t)
    obtain i entry a where t: "t = (i, entry, a)" by (cases t) auto
    have i: "map_of (it_outcomes (hb_tables h)) i = None" using open' step_store(2) t by force
    have others: "k \<noteq> i" if "k \<in> fst ` set (hb_pending h) \<or> k \<in> fst ` set (remove1 t (hb_taken h)) \<or>
        k \<in> fst ` set (hb_stored h) \<or> k \<in> fst ` set (hb_delivered h)" for k
      using d' that by (auto simp: step_store(1) t used_ids_def hub_store_def)
    have taken: "k \<in> fst ` set (hb_taken h)" if "k \<in> fst ` set (remove1 t (hb_taken h))" for k
      using that set_remove1_subset[of t "hb_taken h"] by auto
    have "map_of (it_outcomes (hb_tables h')) k = (if k = i then Some (at a) else map_of (it_outcomes (hb_tables h)) k)" for k
      using i by (simp add: step_store(1) t hub_store_def map_of_outcomes)
    note out = this
    have "map_of (it_outcomes (hb_tables h')) k = Some (at b)" if "(k, b) \<in> set (hb_stored h') \<union> set (hb_delivered h')" for k b
    proof (cases "(k, b) = (i, a)")
      case False
      with that have kb: "(k, b) \<in> set (hb_stored h) \<union> set (hb_delivered h)" by (auto simp: step_store(1) t hub_store_def)
      then have "k \<noteq> i" using others[of k] by force
      with told[OF kb] out show ?thesis by simp
    qed (use out in simp)
    moreover have "map_of (it_outcomes (hb_tables h')) k = None" if "k \<in> set (map fst (hb_pending h') @ map fst (hb_taken h'))" for k
    proof -
      from that have k: "k \<in> fst ` set (hb_pending h) \<or> k \<in> fst ` set (remove1 t (hb_taken h))"
        by (simp add: step_store(1) t hub_store_def)
      then have "k \<noteq> i" using others[of k] by (elim disjE) simp_all
      moreover have "map_of (it_outcomes (hb_tables h)) k = None"
        using k taken[of k] by (intro open') (elim disjE; simp)
      ultimately show ?thesis using out by simp
    qed
    ultimately show ?thesis using d' unfolding hub_inv_def by blast
  next
    case (step_deliver p)
    then have "set (hb_stored h') \<union> set (hb_delivered h') \<subseteq> set (hb_stored h) \<union> set (hb_delivered h)"
      using set_remove1_subset[of p "hb_stored h"] by (auto simp: hub_deliver_def)
    moreover have "hb_tables h' = hb_tables h" "hb_pending h' = hb_pending h" "hb_taken h' = hb_taken h"
      using step_deliver by (simp_all add: hub_deliver_def)
    ultimately show ?thesis using d' inv unfolding hub_inv_def by auto
  qed
qed

lemma hub_reach_inv: "(hub_step rt at)\<^sup>*\<^sup>* (hub_new t) h \<Longrightarrow> hub_inv at h"
proof (induction rule: rtranclp_induct)
  case base
  show ?case by (simp add: hub_inv_def hub_new_def used_ids_def)
next
  case (step y z)
  show ?case by (rule hub_inv_step[OF step(2,3)])
qed

text \<open>
  C19. However turns that ask and clients that answer interleave, a prompt is in
  one place at a time (waiting, being answered, or answered), so it is answered at most once; the
  answer a turn received is the outcome on record; a waiting prompt can be answered, and
  any other answer is reported as already resolved, by the operation too, and changes nothing.
\<close>

theorem prompt_resolved_once:
  assumes "(hub_step request_text answer_text)\<^sup>*\<^sup>* (hub_new tables) h" and "is_hub s = h"
  shows "distinct (map fst (hb_pending h) @ map fst (hb_taken h) @ map fst (hb_stored h) @ map fst (hb_delivered h)) \<and>
    (\<forall>i a. (i, a) \<in> set (hb_delivered h) \<longrightarrow> map_of (it_outcomes (hb_tables h)) i = Some (answer_text a)) \<and>
    (\<forall>i a. i \<in> fst ` set (hb_pending h) \<longrightarrow> (\<exists>s'. hub_answer answer_text takes i ep a s = Ok s' \<and>
       (i, a) \<in> set (hb_delivered (is_hub s')) \<and> map_of (it_outcomes (hb_tables (is_hub s'))) i = Some (answer_text a))) \<and>
    (\<forall>input. str_field input ''interactionId'' \<notin> fst ` set (hb_pending h) \<and> str_field input ''interactionId'' \<noteq> [] \<and>
       pointer_str input [''answer'', ''decision''] \<in> {Some ''allow'', Some ''deny''} \<longrightarrow>
       (\<exists>m. interaction_answer answer_text takes input ctx s = (Outcome_Err AlreadyResolved m, s)))"
proof -
  from assms(1) have inv: "hub_inv answer_text h" by (rule hub_reach_inv)
  have 1: "distinct (map fst (hb_pending h) @ map fst (hb_taken h) @ map fst (hb_stored h) @ map fst (hb_delivered h))"
    using inv by (simp add: hub_inv_def used_ids_def)
  have 2: "map_of (it_outcomes (hb_tables h)) i = Some (answer_text a)" if "(i, a) \<in> set (hb_delivered h)" for i a
    using inv that by (auto simp: hub_inv_def)
  have 3: "\<exists>s'. hub_answer answer_text takes i ep a s = Ok s' \<and>
       (i, a) \<in> set (hb_delivered (is_hub s')) \<and> map_of (it_outcomes (hb_tables (is_hub s'))) i = Some (answer_text a)"
    if i: "i \<in> fst ` set (hb_pending h)" for i a
  proof -
    obtain entry where "map_of (hb_pending h) i = Some entry" using i by (cases "map_of (hb_pending h) i") (auto simp: map_of_eq_None_iff)
    moreover have "map_of (it_outcomes (hb_tables h)) i = None" using inv i by (auto simp: hub_inv_def)
    ultimately show ?thesis using assms(2)
      by (simp add: hub_answer_def hub_take_def hub_store_def hub_deliver_def publish_pending_def Let_def map_of_outcomes)
  qed
  have 4: "\<exists>m. interaction_answer answer_text takes input ctx s = (Outcome_Err AlreadyResolved m, s)"
    if "str_field input ''interactionId'' \<notin> fst ` set (hb_pending h)" "str_field input ''interactionId'' \<noteq> []"
      "pointer_str input [''answer'', ''decision''] \<in> {Some ''allow'', Some ''deny''}" for input
  proof -
    have "map_of (hb_pending h) (str_field input ''interactionId'') = None" using that(1) by (simp add: map_of_eq_None_iff)
    then have "hub_answer answer_text takes (str_field input ''interactionId'') e a s = Err (str_field input ''interactionId'')" for e a
      using assms(2) by (simp add: hub_answer_def hub_take_def)
    with that(2,3) show ?thesis by (auto simp: interaction_answer_def Let_def)
  qed
  from 1 2 3 4 show ?thesis by blast
qed

definition sample_request :: permission_request where
  "sample_request = \<lparr>pr_tool_call_id = ''c'', pr_tool_name = ''Bash'', pr_category = Cat_ShellUnsafe,
     pr_reason = Reason_ShellDangerous, pr_summary = ''ls'', pr_remember_for_turn_allowed = True\<rparr>"

definition sample_hub :: hub where
  "sample_hub = hub_insert (\<lambda>_. ''request'') ''i1'' 5 \<lparr>ix_session_id = ''s'', ix_run_id = ''r'', ix_turn_id = ''t''\<rparr>
     sample_request (hub_new \<lparr>it_requests = [], it_outcomes = []\<rparr>)"

theorem prompt_resolved_once_witness:
  "\<exists>s'. hub_answer (\<lambda>_. ''allow'') (\<lambda>_. 0) ''i1'' ''e'' \<lparr>pa_decision = Decision_Allow, pa_remember_for_turn = False\<rparr>
      \<lparr>is_hub = sample_hub, is_continuity = continuity_new\<rparr> = Ok s' \<and>
    map_of (it_outcomes (hb_tables (is_hub s'))) ''i1'' = Some ''allow''"
proof -
  have "hub_step (\<lambda>_. ''request'') (\<lambda>_. ''allow'') (hub_new \<lparr>it_requests = [], it_outcomes = []\<rparr>) sample_hub"
    unfolding sample_hub_def by (rule step_insert) (simp_all add: used_ids_def outcome_ids_def hub_new_def)
  then have r: "(hub_step (\<lambda>_. ''request'') (\<lambda>_. ''allow''))\<^sup>*\<^sup>* (hub_new \<lparr>it_requests = [], it_outcomes = []\<rparr>) sample_hub"
    by (rule r_into_rtranclp)
  have "''i1'' \<in> fst ` set (hb_pending sample_hub)" by (simp add: sample_hub_def hub_insert_def hub_new_def)
  then show ?thesis
    using conjunct1[OF conjunct2[OF conjunct2[OF prompt_resolved_once[OF r,
      of "\<lparr>is_hub = sample_hub, is_continuity = continuity_new\<rparr>" "\<lambda>_. 0" "''e''"]]], rule_format, of "''i1''"] by simp blast
qed

text \<open>
  Reading the pending prompts and publishing them are two critical sections: of two publications the
  one that reads first may write last, and the snapshot then shows prompts that are answered.
\<close>

lemma stale_publication:
  assumes "map_of (co_sessions c) sid = Some st"
  shows "\<exists>st'. map_of (co_sessions (set_pending_interactions t sid ep (pending_for_session sid before)
      (set_pending_interactions t sid ep (pending_for_session sid after) c))) sid = Some st' \<and>
    sn_interactions_pending (ss_snapshot st') = pending_for_session sid before"
proof -
  have step: "\<exists>st'. map_of (co_sessions (set_pending_interactions t sid ep views c)) sid = Some st' \<and>
      sn_interactions_pending (ss_snapshot st') = views" if "map_of (co_sessions c) sid = Some st" for c st views
    using that by (auto simp: set_pending_interactions_def publish_def fan_out_def Let_def split: prod.splits)
  from step[OF assms] obtain st1 where
    "map_of (co_sessions (set_pending_interactions t sid ep (pending_for_session sid after) c)) sid = Some st1" by blast
  from step[OF this] show ?thesis by blast
qed

end
