(* ===== verification/Sqlite_Events.thy ===== *)
theory Sqlite_Events
  imports Session_Manager "HOL-Library.Product_Lexorder"
begin

text \<open>
  The event table of the SQLite store (\<^verbatim>\<open>meepo-storage/src/lib.rs\<close>), the canonical
  implementation of the runtime event store port.

  A table is the list of its rows in rowid order (a row that is inserted gets the largest
  rowid).  An \<^verbatim>\<open>INSERT\<close> that violates a constraint of the schema is rejected and
  changes nothing.  The text form of an event belongs to \<^verbatim>\<open>serde_json\<close>: the
  parameters \<open>enc\<close> and \<open>dec\<close> are \<^verbatim>\<open>to_canonical_json\<close> and
  \<^verbatim>\<open>from_str\<close>.
\<close>

record event_row =
  er_event_id :: string
  er_session_id :: string
  er_invocation_id :: string
  er_run_id :: string
  er_turn_id :: string
  er_event_seq :: int
  er_event_kind :: string
  er_payload_json :: string
  er_committed_at :: int

type_synonym event_table = "event_row list"

definition runtime_event_kind :: "runtime_event \<Rightarrow> string" where
  "runtime_event_kind e =
     (case ev_content e of
        Some (Content_Text _ _ _) \<Rightarrow> ''text''
      | Some (Content_Thinking _ _ _) \<Rightarrow> ''thinking''
      | Some (Content_FunctionCall _ _ _ _ _) \<Rightarrow> ''function_call''
      | Some (Content_FunctionResponse _ _ _ _ _ _) \<Rightarrow> ''function_response''
      | Some (Content_Error _ _ _ _) \<Rightarrow> ''error''
      | None \<Rightarrow> (case ev_status e of Some _ \<Rightarrow> ''terminal'' | None \<Rightarrow> ''event''))"

text \<open>\<^verbatim>\<open>SELECT COALESCE(MAX(event_seq), 0) + 1 ... WHERE invocation_id = ?1\<close>\<close>

definition next_event_seq :: "event_table \<Rightarrow> string \<Rightarrow> int" where
  "next_event_seq rows iv =
     (case map er_event_seq (filter (\<lambda>r. er_invocation_id r = iv) rows) of
        [] \<Rightarrow> 0 | x # xs \<Rightarrow> foldl max x xs) + 1"

text \<open>The constraints of the table: primary key, uniqueness within the invocation, positive number.\<close>

definition event_row_ok :: "event_table \<Rightarrow> event_row \<Rightarrow> bool" where
  "event_row_ok rows r \<longleftrightarrow>
     \<not> list_ex (\<lambda>q. er_event_id q = er_event_id r) rows \<and>
     \<not> list_ex (\<lambda>q. er_invocation_id q = er_invocation_id r \<and> er_event_seq q = er_event_seq r) rows \<and>
     0 < er_event_seq r"

definition sql_append_event ::
    "(runtime_event \<Rightarrow> (string, string) result) \<Rightarrow> string \<Rightarrow> string \<Rightarrow> runtime_event \<Rightarrow>
     event_table \<Rightarrow> (event_table, string) result" where
  "sql_append_event enc sid rid e rows =
     (case enc e of
        Err x \<Rightarrow> Err x
      | Ok payload \<Rightarrow>
          (let r = \<lparr>er_event_id = ev_id e, er_session_id = ev_session_id e,
                    er_invocation_id = ev_invocation_id e, er_run_id = ev_run_id e,
                    er_turn_id = ev_turn_id e, er_event_seq = next_event_seq rows (ev_invocation_id e),
                    er_event_kind = runtime_event_kind e, er_payload_json = payload,
                    er_committed_at = ev_ts e\<rparr>
           in if event_row_ok rows r then Ok (rows @ [r]) else Err ''constraint failed''))"

text \<open>\<^verbatim>\<open>read_ordered\<close>: decode the payloads in order, the first failure is the result.\<close>

fun decode_rows ::
    "(string \<Rightarrow> (runtime_event, string) result) \<Rightarrow> event_row list \<Rightarrow> (runtime_event list, string) result" where
  "decode_rows dec [] = Ok []"
| "decode_rows dec (r # rs) =
     (case dec (er_payload_json r) of
        Err x \<Rightarrow> Err x
      | Ok e \<Rightarrow> (case decode_rows dec rs of Err x \<Rightarrow> Err x | Ok es \<Rightarrow> Ok (e # es)))"

definition sql_read_run ::
    "(string \<Rightarrow> (runtime_event, string) result) \<Rightarrow> string \<Rightarrow> string \<Rightarrow> event_table \<Rightarrow>
     (runtime_event list, string) result" where
  "sql_read_run dec sid rid rows =
     decode_rows dec (sort_key (\<lambda>r. (er_event_seq r, er_event_id r))
       (filter (\<lambda>r. er_session_id r = sid \<and> er_run_id r = rid) rows))"

definition sql_read_session ::
    "(string \<Rightarrow> (runtime_event, string) result) \<Rightarrow> string \<Rightarrow> event_table \<Rightarrow>
     (runtime_event list, string) result" where
  "sql_read_session dec sid rows = decode_rows dec (filter (\<lambda>r. er_session_id r = sid) rows)"

definition sql_ensure_terminal ::
    "(runtime_event \<Rightarrow> (string, string) result) \<Rightarrow> (string \<Rightarrow> (runtime_event, string) result) \<Rightarrow>
     string \<Rightarrow> string \<Rightarrow> runtime_event \<Rightarrow> event_table \<Rightarrow> (event_table, string) result" where
  "sql_ensure_terminal enc dec sid rid e rows =
     (case sql_read_run dec sid rid rows of
        Err x \<Rightarrow> Err x
      | Ok existing \<Rightarrow>
          (if \<not> has_terminal existing then sql_append_event enc sid rid e rows else Ok rows))"

definition sql_event_high_water :: "string \<Rightarrow> string \<Rightarrow> event_table \<Rightarrow> int" where
  "sql_event_high_water sid rid rows =
     int (length (filter (\<lambda>r. er_session_id r = sid \<and> er_run_id r = rid) rows))"

subsection \<open>The port's laws\<close>

lemma next_event_seq_gt:
  "r \<in> set rows \<Longrightarrow> er_invocation_id r = iv \<Longrightarrow> er_event_seq r < next_event_seq rows iv"
proof -
  have "a \<le> foldl max a xs \<and> (\<forall>x \<in> set xs. x \<le> foldl max a xs)" for a and xs :: "int list"
  proof (induction xs arbitrary: a)
    case (Cons y xs)
    from Cons[of "max a y"] show ?case by auto
  qed simp
  then have m: "x \<in> set (a # xs) \<Longrightarrow> x \<le> foldl max a xs" for x a and xs :: "int list" by auto
  assume "r \<in> set rows" "er_invocation_id r = iv"
  then have "er_event_seq r \<in> set (map er_event_seq (filter (\<lambda>r. er_invocation_id r = iv) rows))" by auto
  with m[of "er_event_seq r"] show ?thesis
    unfolding next_event_seq_def
    by (cases "map er_event_seq (filter (\<lambda>r. er_invocation_id r = iv) rows)") fastforce+
qed

lemma sort_key_snoc:
  "\<forall>y \<in> set xs. f y \<le> f x \<Longrightarrow> sort_key f (xs @ [x]) = sort_key f xs @ [x]"
proof (induction xs)
  case (Cons y xs)
  have "insort_key f y (zs @ [x]) = insort_key f y zs @ [x]" if "f y \<le> f x" for zs
    using that by (induction zs) auto
  with Cons show ?case by (simp add: sort_key_def)
qed simp

lemma decode_rows_append:
  "decode_rows dec (xs @ ys) =
     (case decode_rows dec xs of Err x \<Rightarrow> Err x
      | Ok es \<Rightarrow> (case decode_rows dec ys of Err x \<Rightarrow> Err x | Ok fs \<Rightarrow> Ok (es @ fs)))"
  by (induction xs) (auto split: sum.splits)

lemma decode_rows_ok:
  "\<forall>r \<in> set rs. \<exists>e. dec (er_payload_json r) = Ok e \<Longrightarrow> \<exists>es. decode_rows dec rs = Ok es"
  by (induction rs) (auto split: sum.split)

definition table_wf :: "(string \<Rightarrow> (runtime_event, string) result) \<Rightarrow> event_table \<Rightarrow> bool" where
  "table_wf dec rows \<longleftrightarrow> (\<forall>r \<in> set rows. 0 < er_event_seq r \<and> (\<exists>e. dec (er_payload_json r) = Ok e))"

text \<open>
  The table accepts an event for a run when it carries the run's identity, its text form reads
  back, its id is new and the run holds events of its invocation only.
\<close>

definition table_fits ::
    "(runtime_event \<Rightarrow> (string, string) result) \<Rightarrow> (string \<Rightarrow> (runtime_event, string) result) \<Rightarrow>
     string \<Rightarrow> string \<Rightarrow> runtime_event \<Rightarrow> event_table \<Rightarrow> bool" where
  "table_fits enc dec sid rid e rows \<longleftrightarrow>
     ev_session_id e = sid \<and> ev_run_id e = rid \<and> (\<exists>j. enc e = Ok j \<and> dec j = Ok e) \<and>
     (\<forall>r \<in> set rows. er_event_id r \<noteq> ev_id e \<and>
        (er_session_id r = sid \<and> er_run_id r = rid \<longrightarrow> er_invocation_id r = ev_invocation_id e))"

lemma next_event_seq_pos: "table_wf dec rows \<Longrightarrow> 0 < next_event_seq rows iv"
proof (cases "filter (\<lambda>r. er_invocation_id r = iv) rows")
  case Nil
  then show ?thesis by (simp add: next_event_seq_def)
next
  case (Cons r rs)
  assume "table_wf dec rows"
  from Cons have r: "r \<in> set rows" "er_invocation_id r = iv" by (auto dest: filter_eq_ConsD)
  with \<open>table_wf dec rows\<close> have "0 < er_event_seq r" by (simp add: table_wf_def)
  with next_event_seq_gt[OF r] show ?thesis by simp
qed

lemma sql_append_fits:
  assumes "table_wf dec rows" and "table_fits enc dec sid rid e rows"
  obtains r where "sql_append_event enc sid rid e rows = Ok (rows @ [r])" "dec (er_payload_json r) = Ok e"
    "er_session_id r = sid" "er_run_id r = rid" "er_event_id r = ev_id e"
    "er_invocation_id r = ev_invocation_id e" "er_event_seq r = next_event_seq rows (ev_invocation_id e)"
proof -
  from assms(2) obtain j where j: "enc e = Ok j" "dec j = Ok e" "ev_session_id e = sid" "ev_run_id e = rid"
    and fresh: "\<forall>r \<in> set rows. er_event_id r \<noteq> ev_id e" by (auto simp: table_fits_def)
  let ?r = "\<lparr>er_event_id = ev_id e, er_session_id = ev_session_id e,
    er_invocation_id = ev_invocation_id e, er_run_id = ev_run_id e,
    er_turn_id = ev_turn_id e, er_event_seq = next_event_seq rows (ev_invocation_id e),
    er_event_kind = runtime_event_kind e, er_payload_json = j, er_committed_at = ev_ts e\<rparr>"
  have "event_row_ok rows ?r"
    using fresh next_event_seq_pos[OF assms(1)] next_event_seq_gt[of _ rows]
    by (fastforce simp: event_row_ok_def list_ex_iff)
  with j show thesis by (intro that[of ?r]) (simp_all add: sql_append_event_def Let_def)
qed

interpretation sql: runtime_event_store "sql_append_event enc" "sql_ensure_terminal enc dec"
  "sql_read_run dec" "table_wf dec" "table_fits enc dec" for enc dec
proof unfold_locales
  fix s sid rid e s' es sid' rid'
  show "\<exists>es. sql_read_run dec sid rid s = Ok es" if "table_wf dec s"
    unfolding sql_read_run_def by (rule decode_rows_ok) (use that in \<open>auto simp: table_wf_def\<close>)
  assume wf: "table_wf dec s"
  show "sql_ensure_terminal enc dec sid rid e s = Ok s"
    if "sql_read_run dec sid rid s = Ok es" "has_terminal es"
    using that by (simp add: sql_ensure_terminal_def)
  show "sql_ensure_terminal enc dec sid rid e s = sql_append_event enc sid rid e s"
    if "sql_read_run dec sid rid s = Ok es" "\<not> has_terminal es"
    using that by (simp add: sql_ensure_terminal_def)
  assume fits: "table_fits enc dec sid rid e s"
  obtain r where r: "sql_append_event enc sid rid e s = Ok (s @ [r])" "dec (er_payload_json r) = Ok e"
    "er_session_id r = sid" "er_run_id r = rid" "er_event_id r = ev_id e"
    "er_invocation_id r = ev_invocation_id e" "er_event_seq r = next_event_seq s (ev_invocation_id e)"
    by (rule sql_append_fits[OF wf fits])
  show "\<exists>s'. sql_append_event enc sid rid e s = Ok s' \<and> table_wf dec s'"
    using r wf next_event_seq_pos[OF wf] by (simp add: table_wf_def)
  show "sql_read_run dec sid rid s' = Ok (es @ [e])"
    if "sql_append_event enc sid rid e s = Ok s'" "sql_read_run dec sid rid s = Ok es"
  proof -
    let ?key = "\<lambda>r. (er_event_seq r, er_event_id r)"
    let ?own = "filter (\<lambda>r. er_session_id r = sid \<and> er_run_id r = rid) s"
    have "\<forall>q \<in> set ?own. ?key q \<le> ?key r"
      using fits r next_event_seq_gt[of _ s "ev_invocation_id e"]
      by (fastforce simp: table_fits_def less_eq_prod_def)
    note sorted = sort_key_snoc[OF this]
    from that(1) r(1) have s': "s' = s @ [r]" by simp
    have own: "filter (\<lambda>r. er_session_id r = sid \<and> er_run_id r = rid) s' = ?own @ [r]"
      using r(3,4) by (simp add: s')
    from that(2) r(2) show ?thesis
      unfolding sql_read_run_def own sorted by (simp add: decode_rows_append)
  qed
  show "sql_read_run dec sid' rid' s' = sql_read_run dec sid' rid' s"
    if "sql_append_event enc sid rid e s = Ok s'" "(sid', rid') \<noteq> (sid, rid)"
    using that r by (auto simp: sql_read_run_def)
qed

subsection \<open>A run in the event table\<close>

definition turn_fits ::
    "(runtime_event \<Rightarrow> (string, string) result) \<Rightarrow> (string \<Rightarrow> (runtime_event, string) result) \<Rightarrow>
     string \<Rightarrow> string \<Rightarrow> string \<Rightarrow> runtime_event list \<Rightarrow> event_table \<Rightarrow> bool" where
  "turn_fits enc dec sid rid iv es rows \<longleftrightarrow>
     (\<forall>e \<in> set es. ev_session_id e = sid \<and> ev_run_id e = rid \<and> ev_invocation_id e = iv \<and>
        (\<exists>j. enc e = Ok j \<and> dec j = Ok e)) \<and>
     distinct (map ev_id es) \<and> set (map ev_id es) \<inter> set (map er_event_id rows) = {} \<and>
     (\<forall>r \<in> set rows. er_session_id r = sid \<and> er_run_id r = rid \<longrightarrow> er_invocation_id r = iv)"

lemma turn_fits_step:
  assumes "table_wf dec rows" and "turn_fits enc dec sid rid iv (e # es) rows"
  obtains r where "sql_append_event enc sid rid e rows = Ok (rows @ [r])" "table_wf dec (rows @ [r])"
    "table_fits enc dec sid rid e rows" "turn_fits enc dec sid rid iv es (rows @ [r])"
    "dec (er_payload_json r) = Ok e" "er_session_id r = sid" "er_run_id r = rid"
proof -
  have e: "ev_session_id e = sid" "ev_run_id e = rid" "ev_invocation_id e = iv" "\<exists>j. enc e = Ok j \<and> dec j = Ok e"
    and fresh: "ev_id e \<notin> er_event_id ` set rows"
    and own: "\<forall>r \<in> set rows. er_session_id r = sid \<and> er_run_id r = rid \<longrightarrow> er_invocation_id r = iv"
    using assms(2) by (simp_all add: turn_fits_def)
  from fresh have "\<forall>r \<in> set rows. er_event_id r \<noteq> ev_id e" by force
  with e own have fits: "table_fits enc dec sid rid e rows" by (simp add: table_fits_def)
  obtain r where r: "sql_append_event enc sid rid e rows = Ok (rows @ [r])" "dec (er_payload_json r) = Ok e"
    "er_session_id r = sid" "er_run_id r = rid" "er_event_id r = ev_id e"
    "er_invocation_id r = ev_invocation_id e" "er_event_seq r = next_event_seq rows (ev_invocation_id e)"
    by (rule sql_append_fits[OF assms(1) fits])
  show thesis
  proof (rule that[OF r(1) _ fits _ r(2-4)])
    show "table_wf dec (rows @ [r])" using assms(1) r next_event_seq_pos[OF assms(1)] by (simp add: table_wf_def)
    show "turn_fits enc dec sid rid iv es (rows @ [r])" using assms(2) r by (auto simp: turn_fits_def)
  qed
qed

lemma turn_fits_all:
  "table_wf dec rows \<Longrightarrow> turn_fits enc dec sid rid iv es rows \<Longrightarrow> sql.fits_all enc dec sid rid es rows"
proof (induction es arbitrary: rows)
  case (Cons e es)
  obtain r where r: "sql_append_event enc sid rid e rows = Ok (rows @ [r])" "table_wf dec (rows @ [r])"
    "table_fits enc dec sid rid e rows" "turn_fits enc dec sid rid iv es (rows @ [r])"
    "dec (er_payload_json r) = Ok e" "er_session_id r = sid" "er_run_id r = rid"
    by (rule turn_fits_step[OF Cons.prems])
  with Cons.IH[OF r(2,4)] show ?case by (simp add: keep_going_def)
qed simp

lemma sql_persist_rows:
  "table_wf dec rows \<Longrightarrow> turn_fits enc dec sid rid iv es rows \<Longrightarrow>
   \<exists>rs. persist_events (sql_append_event enc) sid rid es rows = rows @ rs \<and> decode_rows dec rs = Ok es \<and>
     length rs = length es \<and> (\<forall>r \<in> set rs. er_session_id r = sid \<and> er_run_id r = rid)"
proof (induction es arbitrary: rows)
  case (Cons e es)
  obtain r where r: "sql_append_event enc sid rid e rows = Ok (rows @ [r])" "table_wf dec (rows @ [r])"
    "table_fits enc dec sid rid e rows" "turn_fits enc dec sid rid iv es (rows @ [r])"
    "dec (er_payload_json r) = Ok e" "er_session_id r = sid" "er_run_id r = rid"
    by (rule turn_fits_step[OF Cons.prems])
  from Cons.IH[OF r(2,4)] obtain rs where
    "persist_events (sql_append_event enc) sid rid es (rows @ [r]) = (rows @ [r]) @ rs"
    "decode_rows dec rs = Ok es" "length rs = length es" "\<forall>r \<in> set rs. er_session_id r = sid \<and> er_run_id r = rid"
    by blast
  with r show ?case by (intro exI[of _ "r # rs"]) (simp add: persist_events_def keep_going_def)
qed (simp add: persist_events_def)

text \<open>
  C10. The SQLite ledger is append-only and ordered: after a turn's events are
  persisted, its run reads back as the old events followed by the turn's in emission order,
  the session reads back in commit order, every other run is unchanged and the high-water
  mark grew by the number of events.
\<close>

theorem sqlite_turn_reads_back:
  assumes "table_wf dec rows" and "turn_fits enc dec sid rid iv es rows"
    and "rows' = persist_events (sql_append_event enc) sid rid es rows"
    and "sql_read_run dec sid rid rows = Ok old" and "sql_read_session dec sid rows = Ok olds"
  shows "sql_read_run dec sid rid rows' = Ok (old @ es) \<and>
    sql_read_session dec sid rows' = Ok (olds @ es) \<and>
    sql_event_high_water sid rid rows' = sql_event_high_water sid rid rows + int (length es) \<and>
    ((sid', rid') \<noteq> (sid, rid) \<longrightarrow> sql_read_run dec sid' rid' rows' = sql_read_run dec sid' rid' rows) \<and>
    table_wf dec rows'"
proof -
  note p = sql.persist_run[OF assms(1) turn_fits_all[OF assms(1,2)]]
  from p have wf: "table_wf dec rows'" by (simp add: assms(3))
  have run: "sql.run_of dec a b rows = (case sql_read_run dec a b rows of Ok es \<Rightarrow> es | Err _ \<Rightarrow> [])" for a b rows
    by (rule sql.run_of_def)
  from p have "sql.run_of dec sid rid rows' = old @ es"
    by (simp add: assms(3,4) run)
  with sql.run_of_read[OF wf] have r1: "sql_read_run dec sid rid rows' = Ok (old @ es)" by metis
  have r2: "sql_read_run dec sid' rid' rows' = sql_read_run dec sid' rid' rows" if "(sid', rid') \<noteq> (sid, rid)"
    using p that sql.run_of_read[OF wf] sql.run_of_read[OF assms(1)] by (metis assms(3))
  obtain rs where rs: "rows' = rows @ rs" "decode_rows dec rs = Ok es" "length rs = length es"
    "\<forall>r \<in> set rs. er_session_id r = sid \<and> er_run_id r = rid"
    using sql_persist_rows[OF assms(1,2)] assms(3) by blast
  have own: "filter (\<lambda>r. er_session_id r = sid) rs = rs" "filter (\<lambda>r. er_session_id r = sid \<and> er_run_id r = rid) rs = rs"
    using rs(4) by (simp_all add: filter_id_conv)
  have "sql_read_session dec sid rows' = Ok (olds @ es)"
    using assms(5) rs own by (simp add: sql_read_session_def decode_rows_append)
  moreover have "sql_event_high_water sid rid rows' = sql_event_high_water sid rid rows + int (length es)"
    using rs own by (simp add: sql_event_high_water_def)
  ultimately show ?thesis using r1 r2 wf by blast
qed

subsection \<open>Event ids are unique over the whole database\<close>

lemma sql_append_row:
  assumes "sql_append_event enc sid rid e rows = Ok rows'"
  shows "\<exists>r. rows' = rows @ [r] \<and> er_event_id r = ev_id e \<and> er_session_id r = ev_session_id e \<and>
    enc e = Ok (er_payload_json r) \<and> er_event_id r \<notin> er_event_id ` set rows"
  using assms by (fastforce simp: sql_append_event_def event_row_ok_def list_ex_iff Let_def split: sum.splits if_splits)

lemma sql_append_taken:
  "ev_id e \<in> er_event_id ` set rows \<Longrightarrow> \<exists>x. sql_append_event enc sid rid e rows = Err x"
  by (auto simp: sql_append_event_def event_row_ok_def list_ex_iff Let_def split: sum.splits)

lemma sql_persist_only:
  "\<exists>rs. persist_events (sql_append_event enc) sid rid es rows = rows @ rs \<and>
     (\<forall>r \<in> set rs. \<exists>e \<in> set es. er_session_id r = ev_session_id e \<and> enc e = Ok (er_payload_json r) \<and>
        er_event_id r = ev_id e \<and> ev_id e \<notin> er_event_id ` set rows)"
proof (induction es arbitrary: rows)
  case (Cons e es)
  show ?case
  proof (cases "sql_append_event enc sid rid e rows")
    case (Inl x)
    with Cons[of rows] show ?thesis by (auto simp: persist_events_def keep_going_def)
  next
    case (Inr rows')
    from sql_append_row[OF Inr] obtain r where r: "rows' = rows @ [r]" "er_event_id r = ev_id e"
      "er_session_id r = ev_session_id e" "enc e = Ok (er_payload_json r)" "er_event_id r \<notin> er_event_id ` set rows"
      by blast
    from Cons[of rows'] obtain rs where rs: "persist_events (sql_append_event enc) sid rid es rows' = rows' @ rs"
      "\<forall>r \<in> set rs. \<exists>e \<in> set es. er_session_id r = ev_session_id e \<and> enc e = Ok (er_payload_json r) \<and>
        er_event_id r = ev_id e \<and> ev_id e \<notin> er_event_id ` set rows'" by blast
    from rs(1) Inr r(1) have "persist_events (sql_append_event enc) sid rid (e # es) rows = rows @ (r # rs)"
      by (simp add: persist_events_def keep_going_def)
    with r rs(2) show ?thesis by (intro exI[of _ "r # rs"]) auto
  qed
qed (simp add: persist_events_def)

lemma turn_rows:
  assumes "finalize_turn (sql_append_event enc) (sql_ensure_terminal enc dec) m rows rid t es ms cs st = (m', rows', r)"
  shows "\<exists>rs. rows' = rows @ rs \<and>
    (\<forall>q \<in> set rs. \<exists>e \<in> insert t (set es). er_session_id q = ev_session_id e \<and>
       enc e = Ok (er_payload_json q) \<and> ev_id e \<notin> er_event_id ` set rows)"
proof -
  let ?s1 = "persist_events (sql_append_event enc) (sm_session_id m) rid es rows"
  obtain rs where rs: "?s1 = rows @ rs" "\<forall>r \<in> set rs. \<exists>e \<in> set es. er_session_id r = ev_session_id e \<and>
      enc e = Ok (er_payload_json r) \<and> er_event_id r = ev_id e \<and> ev_id e \<notin> er_event_id ` set rows"
    using sql_persist_only by blast
  from assms have rows': "rows' = keep_going ?s1 (sql_ensure_terminal enc dec (sm_session_id m) rid t ?s1)"
    by (auto simp: finalize_turn_def Let_def)
  show ?thesis
  proof (cases "rows' = ?s1")
    case True
    with rs show ?thesis by (intro exI[of _ rs]) fastforce
  next
    case False
    with rows' have "sql_append_event enc (sm_session_id m) rid t ?s1 = Ok rows'"
      by (auto simp: keep_going_def sql_ensure_terminal_def split: sum.splits if_splits)
    from sql_append_row[OF this] obtain q where "rows' = ?s1 @ [q]" "er_session_id q = ev_session_id t"
      "enc t = Ok (er_payload_json q)" "ev_id t \<notin> er_event_id ` set ?s1" by metis
    with rs show ?thesis by (intro exI[of _ "rs @ [q]"]) fastforce
  qed
qed

lemma turn_keeps:
  assumes "finalize_turn (sql_append_event enc) (sql_ensure_terminal enc dec) m rows rid t es ms cs st = (m', rows', r)"
  shows "prefix (persist_events (sql_append_event enc) (sm_session_id m) rid es rows) rows'"
proof -
  let ?s1 = "persist_events (sql_append_event enc) (sm_session_id m) rid es rows"
  have "prefix ?s1 (keep_going ?s1 (sql_ensure_terminal enc dec (sm_session_id m) rid t ?s1))"
    by (auto simp: keep_going_def sql_ensure_terminal_def split: sum.split dest!: sql_append_row)
  with assms show ?thesis by (auto simp: finalize_turn_def Let_def)
qed

lemma persist_first:
  assumes "enc e = Ok j"
  shows "ev_id e \<in> er_event_id ` set (persist_events (sql_append_event enc) sid rid (e # es) [])"
proof -
  obtain q where q: "sql_append_event enc sid rid e [] = Ok [q]" "er_event_id q = ev_id e"
    using assms by (simp add: sql_append_event_def event_row_ok_def next_event_seq_def)
  obtain rs where "persist_events (sql_append_event enc) sid rid es [q] = [q] @ rs"
    using sql_persist_only by blast
  with q show ?thesis by (simp add: persist_events_def keep_going_def)
qed

lemma show_nat_1: "show_nat (Suc 0) = ''1''" by code_simp

lemma turn_facts:
  assumes "send_turn json_text compact send append_ev ensure_terminal (session_new sid) s user sys tools = Some (m', s', r)"
  defines "ctx \<equiv> fst (snd (start_turn (session_new sid) user sys tools))"
  obtains t se stream where "tr_events r = user_event ctx user # map (\<lambda>se. map_session_event se ctx) stream"
    "t = map_session_event se ctx" "sm_messages m' = tr_messages r"
    "rn_messages (final_state [User_Msg user] stream) = tr_messages r"
    "finalize_turn append_ev ensure_terminal (fst (start_turn (session_new sid) user sys tools)) s ''run-1'' t
       (tr_events r) (tr_messages r) (tr_compact_summary r) (tr_status r) = (m', s', r)"
proof -
  let ?st = "start_turn (session_new sid) user sys tools"
  have new: "sm_status (session_new sid) \<noteq> Session_Running" "sm_messages (session_new sid) = []"
    "sm_compact_summary (session_new sid) = None" by (simp_all add: session_new_def)
  obtain m1 c1 i1 where e: "?st = (m1, c1, i1)" by (metis prod_cases3)
  have c1: "c1 = ctx" by (simp add: ctx_def e)
  have i1: "in_messages i1 = [User_Msg user]" "ctx_run_id c1 = ''run-1''"
    using start_turn_simps(2,4)[of "session_new sid" user sys tools] new
    by (simp_all add: e show_nat_1)
  obtain rr where rr: "runner_run json_text compact send c1 i1 None = Some rr"
    by (simp add: runner_run_eq Let_def)
  have f: "finalize_turn append_ev ensure_terminal m1 s ''run-1'' (rr_terminal rr) (rr_events rr)
      (rr_messages rr) (rr_compact_summary rr) (rr_status rr) = (m', s', r)"
    using assms(1) new rr i1(2) unfolding send_turn_def by (simp add: e)
  have c: "compact_if_needed_rolling json_text compact [User_Msg user] None = \<lparr>cr_messages = [User_Msg user], cr_summary = None\<rparr>"
    by (simp add: compact_if_needed_rolling_def compact_if_needed_with_def DEFAULT_KEEP_RECENT_def)
  let ?stream = "send (i1\<lparr>in_messages := [User_Msg user]\<rparr>)"
  have "rr_events rr = user_event ctx user # map (\<lambda>se. map_session_event se ctx) ?stream"
    and "rr_messages rr = rn_messages (final_state [User_Msg user] ?stream)"
    using runner_run_facts(2,3)[OF rr] by (simp_all add: i1 c user_turn_def c1)
  moreover obtain se where "rr_terminal rr = map_session_event se ctx"
    using rr by (auto simp: runner_run_eq Let_def c1)
  moreover have "tr_events r = rr_events rr" "tr_messages r = rr_messages rr"
    "tr_compact_summary r = rr_compact_summary rr" "tr_status r = rr_status rr" "sm_messages m' = rr_messages rr"
    using f by (auto simp: finalize_turn_def Let_def)
  ultimately show thesis using f by (intro that[of ?stream "rr_terminal rr" se]) (simp_all add: e)
qed

lemma mapped_not_user: "event_user (map_session_event se ctx) = None"
  by (cases se) (simp_all add: event_user_def map_event_simps)

lemma messages_no_user:
  assumes "\<forall>e \<in> set es. event_user e = None"
  shows "User_Msg u \<notin> set (messages_from_runtime_events json_text es)"
proof
  assume u: "User_Msg u \<in> set (messages_from_runtime_events json_text es)"
  from assms have "List.map_filter event_user es = []"
    by (simp add: List.map_filter_def filter_empty_conv)
  then have "List.map_filter msg_user (messages_from_runtime_events json_text es) = []"
    by (simp add: projection_keeps)
  then have "\<forall>m \<in> set (messages_from_runtime_events json_text es). msg_user m = None"
    by (simp add: List.map_filter_def filter_empty_conv)
  with u show False by fastforce
qed

lemma decode_rows_elem:
  "decode_rows dec rs = Ok es \<Longrightarrow> e \<in> set es \<Longrightarrow> \<exists>r \<in> set rs. dec (er_payload_json r) = Ok e"
  by (induction rs arbitrary: es) (auto split: sum.splits)

lemma runner_step_keeps: "prefix (rn_messages s) (rn_messages (runner_step s se))"
  by (cases se) (simp_all add: end_turn_def Let_def)

lemma runner_fold_keeps: "prefix (rn_messages s) (rn_messages (foldl runner_step s stream))"
proof (induction stream arbitrary: s)
  case (Cons se stream)
  show ?case using Cons[of "runner_step s se"] runner_step_keeps[of s se] by (simp add: prefix_order.trans)
qed simp

text \<open>
  Event ids are unique over the database but the ids of a turn
  only number the messages of its session.  When a first turn of one session has been stored,
  the user message of another session's first turn is rejected by the primary key, the
  rejection is dropped, and the session resumes without the message the live session shows.
\<close>

lemma sqlite_second_session_loses_user:
  assumes "send_turn json_text compact send_a (sql_append_event enc) (sql_ensure_terminal enc dec)
      (session_new sa) [] ua sys_a tools_a = Some (ma, rows_a, ra)"
    and "send_turn json_text compact send_b (sql_append_event enc) (sql_ensure_terminal enc dec)
      (session_new sb) rows_a ub sys_b tools_b = Some (mb, rows_b, rb)"
    and "sa \<noteq> sb" and "\<exists>j. enc (hd (tr_events ra)) = Ok j"
    and "\<forall>e j. enc e = Ok j \<longrightarrow> dec j = Ok e"
  shows "User_Msg ub \<in> set (sm_messages mb) \<and>
    User_Msg u \<notin> set (sm_messages (session_resume json_text (\<lambda>sid. sql_read_session dec sid rows_b) sb))"
proof
  let ?ca = "fst (snd (start_turn (session_new sa) ua sys_a tools_a))"
  let ?cb = "fst (snd (start_turn (session_new sb) ub sys_b tools_b))"
  obtain ta sea stra where A: "tr_events ra = user_event ?ca ua # map (\<lambda>se. map_session_event se ?ca) stra"
    "ta = map_session_event sea ?ca" "sm_messages ma = tr_messages ra"
    "rn_messages (final_state [User_Msg ua] stra) = tr_messages ra"
    "finalize_turn (sql_append_event enc) (sql_ensure_terminal enc dec)
       (fst (start_turn (session_new sa) ua sys_a tools_a)) [] ''run-1'' ta
       (tr_events ra) (tr_messages ra) (tr_compact_summary ra) (tr_status ra) = (ma, rows_a, ra)"
    by (rule turn_facts[OF assms(1)])
  obtain tb seb strb where B: "tr_events rb = user_event ?cb ub # map (\<lambda>se. map_session_event se ?cb) strb"
    "tb = map_session_event seb ?cb" "sm_messages mb = tr_messages rb"
    "rn_messages (final_state [User_Msg ub] strb) = tr_messages rb"
    "finalize_turn (sql_append_event enc) (sql_ensure_terminal enc dec)
       (fst (start_turn (session_new sb) ub sys_b tools_b)) rows_a ''run-1'' tb
       (tr_events rb) (tr_messages rb) (tr_compact_summary rb) (tr_status rb) = (mb, rows_b, rb)"
    by (rule turn_facts[OF assms(2)])
  have "prefix [User_Msg ub] (rn_messages (final_state [User_Msg ub] strb))"
    using runner_fold_keeps[of "\<lparr>rn_messages = [User_Msg ub], rn_pending = [], rn_terminal = None\<rparr>" strb]
    by (simp add: final_state_def)
  with B(3,4) show "User_Msg ub \<in> set (sm_messages mb)" by (auto simp: prefix_def)
  have ids: "ev_id (user_event ?ca ua) = ''inv-1-user''" "ev_id (user_event ?cb ub) = ''inv-1-user''"
    "ctx_session_id ?ca = sa" "ctx_session_id ?cb = sb"
    by (simp_all add: user_event_def start_turn_def session_new_def show_nat_1 Let_def)
  have taken: "''inv-1-user'' \<in> er_event_id ` set rows_a"
  proof -
    from assms(4) A(1) obtain j where "enc (user_event ?ca ua) = Ok j" by auto
    from persist_first[where e = "user_event ?ca ua" and enc = enc, OF this]
    have "''inv-1-user'' \<in> er_event_id ` set (persist_events (sql_append_event enc)
        (sm_session_id (fst (start_turn (session_new sa) ua sys_a tools_a))) ''run-1'' (tr_events ra) [])"
      unfolding A(1) by (simp only: ids(1))
    with set_mono_prefix[OF turn_keeps[OF A(5)]] show ?thesis by blast
  qed
  have other: "er_session_id q = sa" if "q \<in> set rows_a" for q
    using turn_rows[OF A(5)] that A(1,2) ids(3) by (auto simp: user_event_def)
  obtain rs where rs: "rows_b = rows_a @ rs"
    "\<forall>q \<in> set rs. \<exists>e \<in> insert tb (set (tr_events rb)). er_session_id q = ev_session_id e \<and>
       enc e = Ok (er_payload_json q) \<and> ev_id e \<notin> er_event_id ` set rows_a"
    using turn_rows[OF B(5)] by blast
  have nouser: "event_user e = None"
    if "q \<in> set rows_b" "er_session_id q = sb" "dec (er_payload_json q) = Ok e" for q e
  proof -
    from that(1,2) other assms(3) rs(1) have "q \<in> set rs" by auto
    with rs(2) obtain e' where e': "e' \<in> insert tb (set (tr_events rb))" "enc e' = Ok (er_payload_json q)"
      "ev_id e' \<notin> er_event_id ` set rows_a" by blast
    from e'(2) assms(5) that(3) have "e' = e" by fastforce
    with e'(1,3) B(1,2) ids(2) taken show ?thesis by (auto simp: mapped_not_user)
  qed
  have "\<forall>e \<in> set es. event_user e = None" if "sql_read_session dec sb rows_b = Ok es" for es
  proof
    fix e assume "e \<in> set es"
    from decode_rows_elem[OF that[unfolded sql_read_session_def] this]
    obtain q where "q \<in> set rows_b" "er_session_id q = sb" "dec (er_payload_json q) = Ok e" by auto
    then show "event_user e = None" by (rule nouser)
  qed
  then show "User_Msg u \<notin> set (sm_messages (session_resume json_text (\<lambda>sid. sql_read_session dec sid rows_b) sb))"
    by (auto simp: session_resume_def Let_def messages_no_user split: sum.split)
qed

subsection \<open>Witnesses\<close>

text \<open>A codec for a given list of events: the text form is the session id with the event id.\<close>

definition sample_enc :: "runtime_event list \<Rightarrow> runtime_event \<Rightarrow> (string, string) result" where
  "sample_enc es e = (if e \<in> set es then Ok (ev_session_id e @ ev_id e) else Err ''unknown'')"

definition sample_dec :: "runtime_event list \<Rightarrow> string \<Rightarrow> (runtime_event, string) result" where
  "sample_dec es j = (case find (\<lambda>e. ev_session_id e @ ev_id e = j) es of Some e \<Rightarrow> Ok e | None \<Rightarrow> Err ''unknown'')"

lemma sample_codec:
  "distinct (map (\<lambda>e. ev_session_id e @ ev_id e) es) \<Longrightarrow> sample_enc es e = Ok j \<Longrightarrow> sample_dec es j = Ok e"
proof (induction es)
  case (Cons x es)
  show ?case
  proof (cases "e = x")
    case False
    with Cons show ?thesis by (auto simp: sample_enc_def sample_dec_def split: if_splits)
  qed (use Cons.prems in \<open>auto simp: sample_enc_def sample_dec_def\<close>)
qed (simp add: sample_enc_def)

theorem sqlite_turn_reads_back_witness:
  "let L = [sample_call, sample_response];
       rows = persist_events (sql_append_event (sample_enc L)) ''s'' ''r'' L []
   in sql_read_run (sample_dec L) ''s'' ''r'' rows = Ok L \<and> sql_event_high_water ''s'' ''r'' rows = 2"
proof -
  let ?L = "[sample_call, sample_response]"
  note ev = sample_call_def sample_response_def sample_event_def
  have "turn_fits (sample_enc ?L) (sample_dec ?L) ''s'' ''r'' ''i'' ?L []"
    by (auto simp: turn_fits_def sample_enc_def sample_dec_def ev)
  moreover have "table_wf (sample_dec ?L) []" by (simp add: table_wf_def)
  ultimately show ?thesis
    using sqlite_turn_reads_back[of "sample_dec ?L" "[]" "sample_enc ?L" "''s''" "''r''" "''i''" ?L, OF _ _ refl]
    by (simp add: sql_read_run_def sql_read_session_def sql_event_high_water_def)
qed

definition sample_db_events :: "runtime_event list" where
  "sample_db_events =
     [user_event (fst (snd (start_turn (session_new ''a'') ''first'' None []))) ''first'',
      user_event (fst (snd (start_turn (session_new ''b'') ''hello'' None []))) ''hello'']"

lemma sqlite_second_session_loses_user_witness:
  "let enc = sample_enc sample_db_events; dec = sample_dec sample_db_events;
       turn = (\<lambda>sid s u. send_turn (\<lambda>_. '''') (\<lambda>_. Ok '''') (\<lambda>_. [SE_Complete ''x'' ''t'' 0 Stop_EndTurn])
         (sql_append_event enc) (sql_ensure_terminal enc dec) (session_new sid) s u None [])
   in \<exists>ma rows_a ra mb rows_b rb.
        turn ''a'' [] ''first'' = Some (ma, rows_a, ra) \<and> turn ''b'' rows_a ''hello'' = Some (mb, rows_b, rb) \<and>
        User_Msg ''hello'' \<in> set (sm_messages mb) \<and>
        User_Msg ''hello'' \<notin> set (sm_messages (session_resume (\<lambda>_. '''') (\<lambda>sid. sql_read_session dec sid rows_b) ''b''))"
proof -
  let ?enc = "sample_enc sample_db_events" and ?dec = "sample_dec sample_db_events"
  let ?turn = "\<lambda>sid s u. send_turn (\<lambda>_. '''') (\<lambda>_. Ok '''') (\<lambda>_. [SE_Complete ''x'' ''t'' 0 Stop_EndTurn])
         (sql_append_event ?enc) (sql_ensure_terminal ?enc ?dec) (session_new sid) s u None []"
  obtain ma rows_a ra where a: "?turn ''a'' [] ''first'' = Some (ma, rows_a, ra)"
    by (metis send_turn_total)
  obtain mb rows_b rb where b: "?turn ''b'' rows_a ''hello'' = Some (mb, rows_b, rb)"
    by (metis send_turn_total)
  have "distinct (map (\<lambda>e. ev_session_id e @ ev_id e) sample_db_events)"
    by (simp add: sample_db_events_def user_event_def start_turn_def session_new_def show_nat_1 Let_def)
  from sample_codec[OF this] have codec: "\<forall>e j. ?enc e = Ok j \<longrightarrow> ?dec j = Ok e" by blast
  have "\<exists>j. ?enc (hd (tr_events ra)) = Ok j"
    by (rule turn_facts[OF a]) (simp add: sample_enc_def sample_db_events_def)
  from sqlite_second_session_loses_user[OF a b _ this codec] a b show ?thesis
    by (simp add: Let_def)
qed

end
