(* ===== verification/Session_Ops.thy ===== *)
theory Session_Ops
  imports Dispatch Sqlite_Tables
begin

text \<open>
  The session operations of the host (\<^verbatim>\<open>meepo-host/src/handlers/session.rs\<close>) over the
  session table.  The clock is the argument \<open>now\<close>, the order in which the database scans the
  table is \<open>scan\<close>, and the text of a JSON value is \<open>json_text\<close>; a failing disk is
  not modelled, so the branches that report it are taken on a refused row only.
\<close>

type_synonym catalog = "session_record list"

subsection \<open>Wire form of a record\<close>

definition opt_str_json :: "string option \<Rightarrow> json" where
  "opt_str_json v = (case v of None \<Rightarrow> JNull | Some s \<Rightarrow> JStr s)"

definition session_record_json :: "session_record \<Rightarrow> json" where
  "session_record_json r = JObj [(''configJson'', JStr (sc_config_json r)), (''createdAt'', JInt (sc_created_at r)),
     (''cwd'', JStr (sc_cwd r)), (''isArchived'', JBool (sc_is_archived r)),
     (''labels'', JArr (map JStr (sc_labels r))), (''name'', JStr (sc_name r)),
     (''readMarker'', opt_str_json (sc_read_marker r)), (''revision'', JInt (sc_revision r)),
     (''sessionId'', JStr (sc_session_id r)), (''updatedAt'', JInt (sc_updated_at r))]"

definition patch_none :: session_patch where
  "patch_none = \<lparr>sp_name = None, sp_labels = None, sp_is_archived = None, sp_cwd = None, sp_config_json = None,
     sp_read_marker = None\<rparr>"

definition invalid :: "string \<Rightarrow> outcome" where "invalid message = Outcome_Err InvalidRequest message"
definition storage_err :: "string \<Rightarrow> outcome" where "storage_err e = Outcome_Err PersistenceFailed e"

subsection \<open>Handlers\<close>

definition apply_session_patch :: "int \<Rightarrow> json \<Rightarrow> session_patch \<Rightarrow> catalog \<Rightarrow> outcome \<times> catalog" where
  "apply_session_patch now input patch rows =
     (let session_id = str_field input ''sessionId'' in
      if session_id = [] then (invalid ''sessionId is required'', rows)
      else
        (let expected = unwrap_or 0 (Option.bind (json_get input ''expectedRevision'') as_i64) in
         case update_session session_id expected patch now rows of
           (rows', Session_Committed r) \<Rightarrow>
             (Outcome_Ok (JObj [(''kind'', JStr ''committed''), (''session'', session_record_json r)]), rows')
         | (rows', Session_RevisionConflict e c) \<Rightarrow>
             (Outcome_Ok (JObj [(''currentRevision'', JInt c), (''expectedRevision'', JInt e),
                (''kind'', JStr ''revision_conflict'')]), rows')))"

definition labels_of :: "json \<Rightarrow> string list" where
  "labels_of v = (case v of JArr xs \<Rightarrow> List.map_filter as_str xs | _ \<Rightarrow> [])"

definition session_create :: "int \<Rightarrow> catalog handler" where
  "session_create now input ctx rows =
     (let session_id = str_field input ''sessionId'' in
      if session_id = [] then (invalid ''sessionId is required'', rows)
      else
        (let r = \<lparr>sc_session_id = session_id, sc_name = str_field input ''name'',
                   sc_labels = (case json_get input ''labels'' of None \<Rightarrow> [] | Some v \<Rightarrow> labels_of v),
                   sc_revision = 1, sc_is_archived = False, sc_cwd = str_field input ''cwd'',
                   sc_config_json = ''{}'', sc_read_marker = None, sc_created_at = now, sc_updated_at = now\<rparr>
         in case create_session r rows of
              Err e \<Rightarrow> (storage_err e, rows)
            | Ok rows' \<Rightarrow>
                (case get_session session_id rows' of
                   Some stored \<Rightarrow> (Outcome_Ok (session_record_json stored), rows')
                 | None \<Rightarrow> (Outcome_Ok (session_record_json r), rows'))))"

definition session_catalog_query :: "(catalog \<Rightarrow> catalog) \<Rightarrow> catalog handler" where
  "session_catalog_query scan input ctx rows =
     (Outcome_Ok (JObj [(''items'', JArr (map session_record_json (list_sessions scan rows))), (''kind'', JStr ''page'')]), rows)"

definition session_metadata_update :: "int \<Rightarrow> catalog handler" where
  "session_metadata_update now input ctx rows =
     (let patch = patch_none\<lparr>sp_name := pointer_str input [''patch'', ''name''],
            sp_labels := (case json_pointer input [''patch'', ''labels''] of
               Some (JArr xs) \<Rightarrow> Some (List.map_filter as_str xs) | _ \<Rightarrow> None)\<rparr>
      in apply_session_patch now input patch rows)"

definition session_configuration_update :: "int \<Rightarrow> (json \<Rightarrow> string) \<Rightarrow> catalog handler" where
  "session_configuration_update now json_text input ctx rows =
     (case json_get input ''configuration'' of
        Some c \<Rightarrow>
          (if is_object c then apply_session_patch now input (patch_none\<lparr>sp_config_json := Some (json_text c)\<rparr>) rows
           else (invalid ''configuration object is required'', rows))
      | None \<Rightarrow> (invalid ''configuration object is required'', rows))"

definition session_cwd_relocate :: "int \<Rightarrow> catalog handler" where
  "session_cwd_relocate now input ctx rows =
     (let cwd = str_field input ''cwd'' in
      if cwd = [] then (invalid ''cwd is required'', rows)
      else apply_session_patch now input (patch_none\<lparr>sp_cwd := Some cwd\<rparr>) rows)"

text \<open>
  \<^verbatim>\<open>rebased["expectedRevision"] = ...\<close>; the input is an object here, since a
  string field of it was not empty.
\<close>

fun set_member :: "string \<Rightarrow> json \<Rightarrow> json \<Rightarrow> json" where
  "set_member k w (JObj m) = JObj (assoc_set k w m)"
| "set_member k w v = v"

definition rebase_and_apply :: "int \<Rightarrow> json \<Rightarrow> session_patch \<Rightarrow> catalog \<Rightarrow> outcome \<times> catalog" where
  "rebase_and_apply now input patch rows =
     (let session_id = str_field input ''sessionId'' in
      case get_session session_id rows of
        None \<Rightarrow> (invalid (''session '' @ quoted session_id @ '' does not exist''), rows)
      | Some current \<Rightarrow>
          apply_session_patch now (set_member ''expectedRevision'' (JInt (sc_revision current)) input) patch rows)"

definition session_read_marker_set :: "int \<Rightarrow> catalog handler" where
  "session_read_marker_set now input ctx rows =
     (let marker = str_field input ''readThroughMessageId'' in
      if marker = [] then (invalid ''readThroughMessageId is required'', rows)
      else rebase_and_apply now input (patch_none\<lparr>sp_read_marker := Some marker\<rparr>) rows)"

definition session_lifecycle_set :: "int \<Rightarrow> catalog handler" where
  "session_lifecycle_set now input ctx rows =
     (let lifecycle = str_field input ''lifecycle'' in
      if lifecycle = ''archived'' then rebase_and_apply now input (patch_none\<lparr>sp_is_archived := Some True\<rparr>) rows
      else if lifecycle = ''active'' then rebase_and_apply now input (patch_none\<lparr>sp_is_archived := Some False\<rparr>) rows
      else (invalid (''lifecycle must be '' @ quoted ''archived'' @ '' or '' @ quoted ''active''), rows))"

definition session_remove :: "catalog handler" where
  "session_remove input ctx rows =
     (let session_id = str_field input ''sessionId'' in
      if session_id = [] then (invalid ''sessionId is required'', rows)
      else (let (rows', removed) = remove_session session_id rows
            in (Outcome_Ok (JObj [(''removed'', JBool removed)]), rows')))"

definition register_session ::
    "int \<Rightarrow> (catalog \<Rightarrow> catalog) \<Rightarrow> (json \<Rightarrow> string) \<Rightarrow> catalog dispatcher \<Rightarrow> catalog dispatcher" where
  "register_session now scan json_text d =
     (register_op ''session.remove'' session_remove
     (register_op ''session.lifecycle.set'' (session_lifecycle_set now)
     (register_op ''session.read_marker.set'' (session_read_marker_set now)
     (register_op ''session.cwd.relocate'' (session_cwd_relocate now)
     (register_op ''session.configuration.update'' (session_configuration_update now json_text)
     (register_op ''session.metadata.update'' (session_metadata_update now)
     (register_op ''session.catalog.query'' (session_catalog_query scan)
     (register_op ''session.create'' (session_create now) d))))))))"

subsection \<open>What an operation may change\<close>

text \<open>
  The frame of an operation on one session: other sessions keep their rows, an error
  leaves everything, and the session's own row is kept, made, dropped, or replaced at the next
  revision.
\<close>

definition framed :: "string \<Rightarrow> catalog \<Rightarrow> outcome \<times> catalog \<Rightarrow> bool" where
  "framed sid rows out = (case out of (o', rows') \<Rightarrow>
     (\<forall>c m. o' = Outcome_Err c m \<longrightarrow> c = InvalidRequest \<and> rows' = rows) \<and>
     (\<forall>s. s \<noteq> sid \<longrightarrow> get_session s rows' = get_session s rows) \<and>
     (\<forall>r r'. get_session sid rows = Some r \<and> get_session sid rows' = Some r' \<longrightarrow>
        r' = r \<or> sc_revision r' = sc_revision r + 1))"

lemma framed_same: "framed sid rows (Outcome_Ok v, rows)" "framed sid rows (invalid m, rows)"
  by (auto simp: framed_def invalid_def)

lemma get_session_map:
  assumes "\<And>r. sc_session_id (f r) = sc_session_id r"
  shows "get_session s (map f rows) = map_option f (get_session s rows)"
  by (induction rows) (auto simp: get_session_def assms)

lemma get_session_id: "get_session s rows = Some r \<Longrightarrow> sc_session_id r = s \<and> r \<in> set rows"
  by (auto simp: get_session_def find_Some_iff)

lemma update_framed:
  assumes "update_session sid e patch now rows = (rows', u)"
  shows "(\<forall>s. s \<noteq> sid \<longrightarrow> get_session s rows' = get_session s rows) \<and>
    (\<forall>r r'. get_session sid rows = Some r \<and> get_session sid rows' = Some r' \<longrightarrow>
        r' = r \<or> sc_revision r' = sc_revision r + 1)"
proof (cases "get_session sid rows")
  case None
  with assms show ?thesis by (simp add: update_session_def)
next
  case (Some current)
  define f where "f r = (if sc_session_id r = sid \<and> sc_revision r = e
      then (apply_patch patch now current)\<lparr>sc_created_at := sc_created_at r\<rparr> else r)" for r
  have sid: "sc_session_id current = sid" using get_session_id[OF Some] by simp
  have fid: "sc_session_id (f r) = sc_session_id r" for r by (simp add: f_def apply_patch_def sid)
  have "rows' = map f rows \<or> rows' = rows"
    using assms Some by (auto simp: update_session_def Let_def f_def cong: map_cong split: if_splits)
  then show ?thesis
  proof
    assume r: "rows' = map f rows"
    have "get_session s (map f rows) = get_session s rows" if "s \<noteq> sid" for s
    proof (cases "get_session s rows")
      case (Some q)
      with get_session_id[OF Some] that have "f q = q" by (simp add: f_def)
      with Some show ?thesis by (simp add: get_session_map[OF fid])
    qed (simp add: get_session_map[OF fid])
    moreover have "f current = current \<or> sc_revision (f current) = sc_revision current + 1"
      by (simp add: f_def apply_patch_def)
    ultimately show ?thesis using Some by (auto simp: r get_session_map[OF fid])
  qed auto
qed

lemma patch_framed: "framed (str_field input ''sessionId'') rows (apply_session_patch now input patch rows)"
  using update_framed[of "str_field input ''sessionId''" "unwrap_or 0 (Option.bind (json_get input ''expectedRevision'') as_i64)" patch now rows]
  by (auto simp: apply_session_patch_def Let_def framed_same framed_def split: prod.splits session_update.splits)
     (auto simp: framed_def invalid_def)

lemma str_field_set_member: "k \<noteq> k' \<Longrightarrow> str_field (set_member k w v) k' = str_field v k'"
  by (cases v) (simp_all add: str_field_def get_str_def)

lemma rebase_framed: "framed (str_field input ''sessionId'') rows (rebase_and_apply now input patch rows)"
  using patch_framed[of "set_member ''expectedRevision'' (JInt r) input" for r]
  by (auto simp: rebase_and_apply_def Let_def framed_same str_field_set_member split: option.splits)

lemma get_session_append:
  "get_session s (rows @ rs) = (case get_session s rows of None \<Rightarrow> get_session s rs | Some q \<Rightarrow> Some q)"
  by (induction rows) (auto simp: get_session_def)

lemma create_session_rows:
  "create_session r rows = Ok (if get_session (sc_session_id r) rows = None \<and> 0 < sc_revision r then rows @ [r] else rows)"
  by (auto simp: create_session_def get_session_def find_None_iff list_ex_iff)

lemma create_framed: "framed (str_field input ''sessionId'') rows (session_create now input ctx rows)"
proof (cases "str_field input ''sessionId'' = []")
  case False
  define r where "r = \<lparr>sc_session_id = str_field input ''sessionId'', sc_name = str_field input ''name'',
     sc_labels = (case json_get input ''labels'' of None \<Rightarrow> [] | Some v \<Rightarrow> labels_of v),
     sc_revision = 1, sc_is_archived = False, sc_cwd = str_field input ''cwd'',
     sc_config_json = ''{}'', sc_read_marker = None, sc_created_at = now, sc_updated_at = now\<rparr>"
  have r: "sc_session_id r = str_field input ''sessionId''" "sc_revision r = 1" by (simp_all add: r_def)
  define rows' where "rows' = (if get_session (sc_session_id r) rows = None then rows @ [r] else rows)"
  have create: "create_session r rows = Ok rows'" by (simp add: create_session_rows rows'_def r)
  have "\<exists>v. session_create now input ctx rows = (Outcome_Ok v, rows')"
    using False create by (cases "get_session (str_field input ''sessionId'') rows'")
      (auto simp: session_create_def Let_def r_def[symmetric])
  moreover have "get_session s rows' = get_session s rows" if "s \<noteq> sc_session_id r \<or> get_session (sc_session_id r) rows \<noteq> None" for s
    using that by (cases "get_session s rows") (auto simp: rows'_def get_session_append get_session_def[of s "[r]"])
  ultimately show ?thesis by (auto simp: framed_def r(1)[symmetric])
qed (simp add: session_create_def framed_same)

lemma remove_framed: "framed (str_field input ''sessionId'') rows (session_remove input ctx rows)"
proof -
  have "get_session s (filter (\<lambda>r. sc_session_id r \<noteq> i) rows) = (if s = i then None else get_session s rows)" for s i
    by (induction rows) (auto simp: get_session_def)
  then show ?thesis by (auto simp: session_remove_def remove_session_def framed_def invalid_def Let_def)
qed

lemma other_framed:
  "framed (str_field input ''sessionId'') rows (session_catalog_query scan input ctx rows)"
  "framed (str_field input ''sessionId'') rows (session_metadata_update now input ctx rows)"
  "framed (str_field input ''sessionId'') rows (session_configuration_update now json_text input ctx rows)"
  "framed (str_field input ''sessionId'') rows (session_cwd_relocate now input ctx rows)"
  "framed (str_field input ''sessionId'') rows (session_read_marker_set now input ctx rows)"
  "framed (str_field input ''sessionId'') rows (session_lifecycle_set now input ctx rows)"
  by (simp_all add: session_catalog_query_def session_metadata_update_def session_configuration_update_def
      session_cwd_relocate_def session_read_marker_set_def session_lifecycle_set_def Let_def
      framed_same patch_framed rebase_framed split: option.split)

abbreviation session_dispatcher :: "int \<Rightarrow> (catalog \<Rightarrow> catalog) \<Rightarrow> (json \<Rightarrow> string) \<Rightarrow> catalog dispatcher" where
  "session_dispatcher now scan json_text \<equiv> register_session now scan json_text dispatcher_new"


definition sample_input :: json where
  "sample_input = JObj [(''cwd'', JStr ''/w''), (''expectedRevision'', JInt 3), (''sessionId'', JStr ''s'')]"


text \<open>The codes the handlers answer with, against the ones the table declares.\<close>

lemma missing_session_undeclared:
  assumes "str_field input ''readThroughMessageId'' \<noteq> []" and "get_session (str_field input ''sessionId'') rows = None"
  shows "\<exists>m. session_read_marker_set now input ctx rows = (Outcome_Err InvalidRequest m, rows)"
    and "\<not> declares ''session.read_marker.set'' InvalidRequest" and "declares ''session.read_marker.set'' NotFound"
proof -
  show "\<exists>m. session_read_marker_set now input ctx rows = (Outcome_Err InvalidRequest m, rows)"
    using assms by (simp add: session_read_marker_set_def rebase_and_apply_def invalid_def Let_def)
  show "\<not> declares ''session.read_marker.set'' InvalidRequest" "declares ''session.read_marker.set'' NotFound"
    by code_simp+
qed

lemma missing_session_is_conflict:
  assumes "get_session (str_field input ''sessionId'') rows = None" and "str_field input ''sessionId'' \<noteq> []"
  shows "\<exists>v. session_metadata_update now input ctx rows = (Outcome_Ok v, rows) \<and> get_str v ''kind'' = Some ''revision_conflict''"
  using assms by (auto simp: session_metadata_update_def apply_session_patch_def update_session_def Let_def get_str_def str_of_def)

end
