(* ===== verification/Turn_Coordinator.thy ===== *)
theory Turn_Coordinator
  imports Session_Manager Sqlite_Events Session_Ops Continuity
begin

text \<open>
  The host's turns (\<^verbatim>\<open>meepo-host/src/server/turn/coordinator.rs\<close>) over the
  composition of its services (\<^verbatim>\<open>server/composition.rs\<close>): the session table, the
  admission chain, the claims, the event table, one session manager per session touched since
  boot, the running turns, and the subscribers.

  A starting turn is a check, an admission, and a run on a task of its own; the first two are
  functions that \<open>begin_turn\<close> composes, and the run is \<open>drain_turn\<close>.  Parameters: the
  JSON texts, the event codec, SHA-256 in hex, the database's scan order, the clock, the compactor,
  and the backend \<open>send\<close>; the stop token of a turn is a number.
\<close>

datatype turn_error =
  TE_SessionBusy
| TE_NotFound string
| TE_SessionArchived string
| TE_SessionPoisoned
| TE_Storage string

record turn_started =
  ts_session_id :: string
  ts_turn_id :: string
  ts_run_id :: string
  ts_status :: string

record turn_stopped =
  tp_session_id :: string
  tp_status :: string

datatype resume_plan = Plan_Ready string "string option" int | Plan_Parked string

datatype resume_start_result = Resume_Started turn_started string int | Resume_Parked string

record turn_host =
  th_sessions :: catalog
  th_admissions :: "root_admission list"
  th_claims :: "continuation_claim list"
  th_events :: event_table
  th_managers :: "string \<Rightarrow> session_manager option"
  th_active :: "string \<Rightarrow> nat option"
  th_next_token :: nat
  th_cancelled :: "nat list"
  th_continuity :: continuity

text \<open>\<^verbatim>\<open>Composition::session\<close>: the manager in memory, or one resumed from the events.\<close>

definition composition_session ::
    "(json \<Rightarrow> string) \<Rightarrow> (string \<Rightarrow> (runtime_event, string) result) \<Rightarrow> string \<Rightarrow> turn_host \<Rightarrow> session_manager \<times> turn_host" where
  "composition_session json_text dec sid h =
     (case th_managers h sid of
        Some m \<Rightarrow> (m, h)
      | None \<Rightarrow>
          (let m = session_resume json_text (\<lambda>s. sql_read_session dec s (th_events h)) sid
           in (m, h\<lparr>th_managers := (th_managers h)(sid \<mapsto> m)\<rparr>)))"

subsection \<open>Starting a turn\<close>

definition check_idle :: "string \<Rightarrow> turn_host \<Rightarrow> (unit, turn_error) result" where
  "check_idle sid h = (if th_active h sid \<noteq> None then Err TE_SessionBusy else Ok ())"

definition identity_json :: "(json \<Rightarrow> string) \<Rightarrow> string \<Rightarrow> string \<Rightarrow> string" where
  "identity_json json_text n content =
     json_text (JObj [(''content'', JStr content), (''invocationId'', JStr (''inv-'' @ n)),
       (''runId'', JStr (''run-'' @ n)), (''turnId'', JStr (''turn-'' @ n))])"

definition admit_turn ::
    "(json \<Rightarrow> string) \<Rightarrow> (string \<Rightarrow> (runtime_event, string) result) \<Rightarrow> (root_admission list \<Rightarrow> root_admission list) \<Rightarrow>
     int \<Rightarrow> string \<Rightarrow> string \<Rightarrow> turn_host \<Rightarrow> (turn_started, turn_error) result \<times> turn_host" where
  "admit_turn json_text dec scan now sid content h =
     (case get_session sid (th_sessions h) of
        None \<Rightarrow> (Err (TE_NotFound (''session '' @ quoted sid @ '' does not exist (session.create it first)'')), h)
      | Some r \<Rightarrow>
          if sc_is_archived r then (Err (TE_SessionArchived sid), h)
          else
            (let (m, h1) = composition_session json_text dec sid h;
                 n = show_nat (length (sm_messages m) + 1);
                 tip = read_admission_tip scan sid (th_admissions h1)
             in if (case tip of None \<Rightarrow> False | Some t \<Rightarrow> ra_poisoned t) then (Err TE_SessionPoisoned, h1)
                else
                  (let adm = \<lparr>ra_session_id = sid, ra_turn_id = ''turn-'' @ n, ra_run_id = ''run-'' @ n,
                               ra_previous_root_turn_id = map_option (\<lambda>t. ra_turn_id t) tip,
                               ra_identity_json = identity_json json_text n content,
                               ra_admitted_at = now, ra_poisoned = False\<rparr>
                   in (Ok \<lparr>ts_session_id = sid, ts_turn_id = ''turn-'' @ n, ts_run_id = ''run-'' @ n,
                           ts_status = ''running''\<rparr>,
                       h1\<lparr>th_admissions := extend_admission_chain adm (th_admissions h1),
                          th_active := (th_active h1)(sid \<mapsto> th_next_token h1),
                          th_next_token := th_next_token h1 + 1\<rparr>))))"

definition begin_turn ::
    "(json \<Rightarrow> string) \<Rightarrow> (string \<Rightarrow> (runtime_event, string) result) \<Rightarrow> (root_admission list \<Rightarrow> root_admission list) \<Rightarrow>
     int \<Rightarrow> string \<Rightarrow> string \<Rightarrow> turn_host \<Rightarrow> (turn_started, turn_error) result \<times> turn_host" where
  "begin_turn json_text dec scan now sid content h =
     (case check_idle sid h of
        Err e \<Rightarrow> (Err e, h)
      | Ok _ \<Rightarrow> admit_turn json_text dec scan now sid content h)"

subsection \<open>Running it\<close>

text \<open>
  The drain task of an admitted turn: the turn's events go to the subscribers as they come and to
  the event table at the end.  The run's result is that of \<open>runner_run\<close>, which always has one;
  \<open>takes\<close> is what slow receivers take between a refused frame and its close notice.
\<close>

definition publish_events ::
    "(string \<Rightarrow> nat) \<Rightarrow> string \<Rightarrow> string \<Rightarrow> string \<Rightarrow> runtime_event list \<Rightarrow> continuity \<Rightarrow> continuity" where
  "publish_events takes sid run_id host_epoch events c =
     foldl (\<lambda>c e. accept_runtime_event takes sid run_id host_epoch e c) c events"

definition drain_turn ::
    "(json \<Rightarrow> string) \<Rightarrow> (runtime_event \<Rightarrow> (string, string) result) \<Rightarrow> (string \<Rightarrow> (runtime_event, string) result) \<Rightarrow>
     (chat_message list \<Rightarrow> (string, string) result) \<Rightarrow> (backend_send_input \<Rightarrow> session_event list) \<Rightarrow> (string \<Rightarrow> nat) \<Rightarrow>
     string option \<Rightarrow> string \<Rightarrow> string \<Rightarrow> string \<Rightarrow> turn_host \<Rightarrow> turn_host" where
  "drain_turn json_text enc dec compact send takes system_prompt host_epoch sid content h =
     (case th_managers h sid of
        None \<Rightarrow> h
      | Some m \<Rightarrow>
          (let (m1, ctx, inp) = start_turn m content system_prompt [] in
           case runner_run json_text compact send ctx inp (sm_compact_summary m) of
             None \<Rightarrow> h\<lparr>th_managers := (th_managers h)(sid \<mapsto> m1), th_active := (th_active h)(sid := None)\<rparr>
           | Some r \<Rightarrow>
               (let c = publish_events takes sid (ctx_run_id ctx) host_epoch (rr_events r) (th_continuity h);
                    (m2, events, _) = finalize_turn (sql_append_event enc) (sql_ensure_terminal enc dec) m1 (th_events h)
                        (ctx_run_id ctx) (rr_terminal r) (rr_events r) (rr_messages r) (rr_compact_summary r) (rr_status r)
                in h\<lparr>th_managers := (th_managers h)(sid \<mapsto> m2), th_events := events,
                     th_continuity := c, th_active := (th_active h)(sid := None)\<rparr>)))"

definition stop_turn :: "string \<Rightarrow> turn_host \<Rightarrow> (turn_stopped, turn_error) result \<times> turn_host" where
  "stop_turn sid h =
     (case th_active h sid of
        Some token \<Rightarrow> (Ok \<lparr>tp_session_id = sid, tp_status = ''request_stop''\<rparr>, h\<lparr>th_cancelled := token # th_cancelled h\<rparr>)
      | None \<Rightarrow> (Err (TE_NotFound (''no active turn for session '' @ quoted sid)), h))"

subsection \<open>Resuming\<close>

definition resume_query ::
    "(root_admission list \<Rightarrow> root_admission list) \<Rightarrow> string \<Rightarrow> turn_host \<Rightarrow> resume_plan" where
  "resume_query scan sid h =
     (case read_admission_tip scan sid (th_admissions h) of
        None \<Rightarrow> Plan_Parked ''resume_candidate_missing''
      | Some tip \<Rightarrow>
          if ra_poisoned tip then Plan_Parked ''safety_check_failed''
          else
            (let high_water = sql_event_high_water sid (ra_run_id tip) (th_events h)
             in if high_water = 0 then Plan_Parked ''source_run_unreadable''
                else Plan_Ready (ra_run_id tip) (Some (ra_turn_id tip)) high_water))"

definition resume_claim ::
    "(string \<Rightarrow> string) \<Rightarrow> (json \<Rightarrow> string) \<Rightarrow> (runtime_event \<Rightarrow> string) \<Rightarrow> int \<Rightarrow> string \<Rightarrow> string \<Rightarrow> json \<Rightarrow> string \<Rightarrow>
     string option \<Rightarrow> int \<Rightarrow> runtime_event list \<Rightarrow> string \<Rightarrow> continuation_claim" where
  "resume_claim sha_hex json_text ev_json now claim_id sid identity source_run source_turn high_water events n =
     (let target_turn = ''turn-'' @ n; target_run = ''run-'' @ n;
          prefix_text = concat (map ev_json (filter (\<lambda>e. ev_run_id e = source_run) events));
          source_digest = sha_hex prefix_text
      in \<lparr>cc_claim_id = claim_id, cc_source_session_id = sid,
          cc_source_invocation_id = str_field identity ''invocationId'', cc_source_run_id = source_run,
          cc_source_turn_id = unwrap_or [] source_turn, cc_source_event_high_water = high_water,
          cc_source_prefix_digest = source_digest,
          cc_boundary_digest = sha_hex (source_digest @ '':'' @ target_turn @ '':'' @ target_run @ '':'' @ show_int high_water),
          cc_boundary_json = json_text (JObj [(''sourceHighWater'', JInt high_water), (''sourceRunId'', JStr source_run),
             (''targetTurnId'', JStr target_turn)]),
          cc_provider_projection_version = 1, cc_provider_replay_digest = source_digest,
          cc_target_session_id = sid, cc_target_invocation_id = ''inv-'' @ n, cc_target_run_id = target_run,
          cc_target_turn_id = target_turn,
          cc_target_run_header_json = json_text (JObj [(''runId'', JStr target_run), (''turnId'', JStr target_turn)]),
          cc_claimed_at = now, cc_start_event_id = None, cc_start_kind = None, cc_protocol_version = 1\<rparr>)"

definition resume_start ::
    "(string \<Rightarrow> string) \<Rightarrow> (json \<Rightarrow> string) \<Rightarrow> (string \<Rightarrow> json option) \<Rightarrow> (runtime_event \<Rightarrow> string) \<Rightarrow>
     (string \<Rightarrow> (runtime_event, string) result) \<Rightarrow> (root_admission list \<Rightarrow> root_admission list) \<Rightarrow> bool \<Rightarrow>
     int \<Rightarrow> string \<Rightarrow> string \<Rightarrow> int \<Rightarrow> turn_host \<Rightarrow> (resume_start_result, turn_error) result \<times> turn_host" where
  "resume_start sha_hex json_text of_text ev_json dec scan fk now claim_id sid source_high_water h =
     (case resume_query scan sid h of
        Plan_Parked reason \<Rightarrow> (Ok (Resume_Parked reason), h)
      | Plan_Ready source_run source_turn current_hw \<Rightarrow>
          if current_hw \<noteq> source_high_water then (Ok (Resume_Parked ''source_run_changed''), h)
          else
            (case read_admission_tip scan sid (th_admissions h) of
               None \<Rightarrow> (Err (TE_NotFound ''admission tip vanished''), h)
             | Some tip \<Rightarrow>
                 (let identity = unwrap_or (JObj []) (of_text (ra_identity_json tip));
                      content = str_field identity ''content'';
                      (m, h1) = composition_session json_text dec sid h;
                      n = show_nat (length (sm_messages m) + 1)
                  in case sql_read_session dec sid (th_events h1) of
                       Err e \<Rightarrow> (Err (TE_Storage e), h1)
                     | Ok events \<Rightarrow>
                         (case record_continuation_claim fk (er_event_id ` set (th_events h1))
                             (resume_claim sha_hex json_text ev_json now claim_id sid identity source_run source_turn
                                source_high_water events n) (th_claims h1) of
                            Err e \<Rightarrow> (Err (TE_Storage e), h1)
                          | Ok claims \<Rightarrow>
                              (case begin_turn json_text dec scan now sid content (h1\<lparr>th_claims := claims\<rparr>) of
                                 (Ok turn, h2) \<Rightarrow> (Ok (Resume_Started turn source_run source_high_water), h2)
                               | (Err TE_SessionBusy, h2) \<Rightarrow> (Ok (Resume_Parked ''session_busy''), h2)
                               | (Err e, h2) \<Rightarrow> (Err e, h2))))))"

subsection \<open>From admission to a durable end\<close>

lemma composition_session_simps:
  assumes "composition_session json_text dec sid h = (m, h1)"
  shows "th_managers h1 sid = Some m" "th_sessions h1 = th_sessions h" "th_admissions h1 = th_admissions h"
    "th_events h1 = th_events h" "th_active h1 = th_active h" "th_claims h1 = th_claims h"
    "th_next_token h1 = th_next_token h" "th_continuity h1 = th_continuity h"
    "composition_session json_text dec sid h1 = (m, h1)"
  using assms by (auto simp: composition_session_def Let_def split: option.splits)

lemma admit_turn_Ok:
  assumes "admit_turn json_text dec scan now sid content h = (Ok t, h1)"
  obtains r m hm adm where "get_session sid (th_sessions h) = Some r" "\<not> sc_is_archived r"
    "composition_session json_text dec sid h = (m, hm)"
    "\<And>a. read_admission_tip scan sid (th_admissions h) = Some a \<Longrightarrow> \<not> ra_poisoned a"
    "t = \<lparr>ts_session_id = sid, ts_turn_id = ''turn-'' @ show_nat (length (sm_messages m) + 1),
          ts_run_id = ''run-'' @ show_nat (length (sm_messages m) + 1), ts_status = ''running''\<rparr>"
    "adm = \<lparr>ra_session_id = sid, ra_turn_id = ts_turn_id t, ra_run_id = ts_run_id t,
       ra_previous_root_turn_id = map_option (\<lambda>t. ra_turn_id t) (read_admission_tip scan sid (th_admissions h)),
       ra_identity_json = identity_json json_text (show_nat (length (sm_messages m) + 1)) content,
       ra_admitted_at = now, ra_poisoned = False\<rparr>"
    "h1 = hm\<lparr>th_admissions := extend_admission_chain adm (th_admissions hm),
       th_active := (th_active hm)(sid \<mapsto> th_next_token hm), th_next_token := th_next_token hm + 1\<rparr>"
proof -
  obtain m hm where c: "composition_session json_text dec sid h = (m, hm)" by fastforce
  note cs = composition_session_simps[OF c]
  show thesis
    using assms that[OF _ _ c] cs
    by (simp add: admit_turn_def c Let_def split: option.splits if_splits)
qed

lemma admit_active: "admit_turn json_text dec scan now sid content h = (Ok t, h1) \<Longrightarrow> th_active h1 sid = Some (th_next_token h)"
  by (erule admit_turn_Ok) (simp add: composition_session_simps)

lemma begin_busy: "th_active h sid \<noteq> None \<Longrightarrow> begin_turn json_text dec scan now sid content h = (Err TE_SessionBusy, h)"
  by (simp add: begin_turn_def check_idle_def)

lemma finalize_closed:
  assumes wf: "table_wf dec rows" and fits: "turn_fits enc dec sid rid iv es rows" and closed: "has_terminal es" and m: "sm_session_id m = sid"
    and f: "finalize_turn (sql_append_event enc) (sql_ensure_terminal enc dec) m rows rid t es ms cs st = (m', rows', r)"
  shows "rows' = persist_events (sql_append_event enc) sid rid es rows"
proof -
  define mid where "mid = persist_events (sql_append_event enc) sid rid es rows"
  from sql.persist_run[OF wf turn_fits_all[OF wf fits]]
  have w: "table_wf dec mid" and run: "sql.run_of dec sid rid mid = sql.run_of dec sid rid rows @ es"
    unfolding mid_def by blast+
  have "has_terminal (sql.run_of dec sid rid rows @ es)" using closed by simp
  with sql.run_of_read[OF w, of sid rid] run have "sql_ensure_terminal enc dec sid rid t mid = Ok mid" by (simp add: sql_ensure_terminal_def)
  then show ?thesis using f m by (simp add: finalize_turn_def Let_def mid_def keep_going_def)
qed

lemma persisted_turn:
  assumes wf: "table_wf dec rows" and fits: "turn_fits enc dec sid rid iv es rows" and closed: "has_terminal es"
    and old: "sql_read_run dec sid rid rows = Ok old" and m: "sm_session_id m = sid"
    and f: "finalize_turn (sql_append_event enc) (sql_ensure_terminal enc dec) m rows rid t es ms cs st = (m', rows', r)"
  shows "sql_read_run dec sid rid rows' = Ok (old @ es)"
proof -
  note rows' = finalize_closed[OF wf fits closed m f]
  from sql.persist_run[OF wf turn_fits_all[OF wf fits]]
  have w: "table_wf dec rows'" and run: "sql.run_of dec sid rid rows' = sql.run_of dec sid rid rows @ es"
    unfolding rows' by blast+
  have "sql.run_of dec sid rid rows = old" using sql.run_of_read[OF wf, of sid rid] old by simp
  with sql.run_of_read[OF w, of sid rid] run show ?thesis by simp
qed

lemma finalize_messages:
  "finalize_turn a e m s rid t es ms cs st = (m', s', r) \<Longrightarrow> sm_messages m' = ms \<and> sm_session_id m' = sm_session_id m"
  by (auto simp: finalize_turn_def Let_def)

lemma start_turn_ctx:
  "ctx_run_id (fst (snd (start_turn m user sys tools))) = ''run-'' @ show_nat (length (sm_messages m) + 1)"
  "ctx_turn_id (fst (snd (start_turn m user sys tools))) = ''turn-'' @ show_nat (length (sm_messages m) + 1)"
  "sm_session_id (fst (start_turn m user sys tools)) = sm_session_id m"
  by (simp_all add: start_turn_def Let_def)

text \<open>What the drain of a turn does to the host: it runs the turn on the session's manager and finalizes it.\<close>

lemma drain_turn_run:
  assumes "th_managers h sid = Some m"
  obtains m1 ctx inp r m2 rows' res where "start_turn m content sys [] = (m1, ctx, inp)"
    "runner_run json_text compact send ctx inp (sm_compact_summary m) = Some r"
    "finalize_turn (sql_append_event enc) (sql_ensure_terminal enc dec) m1 (th_events h)
      (ctx_run_id ctx) (rr_terminal r) (rr_events r) (rr_messages r) (rr_compact_summary r) (rr_status r) = (m2, rows', res)"
    "drain_turn json_text enc dec compact send takes sys host_epoch sid content h =
      h\<lparr>th_managers := (th_managers h)(sid \<mapsto> m2), th_events := rows',
        th_continuity := publish_events takes sid (ctx_run_id ctx) host_epoch (rr_events r) (th_continuity h),
        th_active := (th_active h)(sid := None)\<rparr>"
proof -
  obtain m1 ctx inp where s: "start_turn m content sys [] = (m1, ctx, inp)" by (metis prod_cases3)
  obtain r where r: "runner_run json_text compact send ctx inp (sm_compact_summary m) = Some r"
    by (simp add: runner_run_eq Let_def)
  obtain m2 rows' res where f: "finalize_turn (sql_append_event enc) (sql_ensure_terminal enc dec) m1 (th_events h)
      (ctx_run_id ctx) (rr_terminal r) (rr_events r) (rr_messages r) (rr_compact_summary r) (rr_status r) = (m2, rows', res)"
    by (metis prod_cases3)
  show thesis by (rule that[OF s r f]) (simp add: drain_turn_def assms s r f Let_def)
qed


text \<open>The tip of a chain without a poisoned admission is not poisoned.\<close>

lemma tip_in: "read_admission_tip scan sid rows = Some a \<Longrightarrow> set (scan rows) \<subseteq> set rows \<Longrightarrow> a \<in> set rows \<and> ra_session_id a = sid"
proof -
  assume a: "read_admission_tip scan sid rows = Some a" and s: "set (scan rows) \<subseteq> set rows"
  then obtain as where "sort_key (\<lambda>r. - ra_admitted_at r) (session_admissions scan sid rows) = a # as"
    by (auto simp: read_admission_tip_def split: list.splits)
  then have "a \<in> set (session_admissions scan sid rows)" by (metis list.set_intros(1) set_sort)
  then show ?thesis using s by (auto simp: session_admissions_def)
qed

text \<open>
  The check and the registration of a starting turn are two critical
  sections with the admission between them.  Two starts that both check before either registers are
  both admitted, under the same turn and run ids; the second overwrites the first's row of
  the admission chain and its stop token, so the first can no longer be stopped.
\<close>

lemma concurrent_starts_share_turn:
  assumes "check_idle sid h = Ok ()" and "admit_turn json_text dec scan now1 sid content1 h = (Ok t1, h1)"
    and "\<forall>rows. set (scan rows) \<subseteq> set rows" and "\<forall>a \<in> set (th_admissions h). ra_session_id a = sid \<longrightarrow> \<not> ra_poisoned a"
  shows "\<exists>t2 h2. admit_turn json_text dec scan now2 sid content2 h1 = (Ok t2, h2) \<and>
    ts_turn_id t2 = ts_turn_id t1 \<and> ts_run_id t2 = ts_run_id t1 \<and>
    (\<exists>n. map (\<lambda>a. ra_identity_json a) (filter (\<lambda>a. ra_session_id a = sid \<and> ra_turn_id a = ts_turn_id t1) (th_admissions h2)) =
       [identity_json json_text n content2]) \<and>
    th_active h1 sid \<noteq> None \<and> th_active h2 sid \<noteq> th_active h1 sid \<and>
    begin_turn json_text dec scan now2 sid content2 h1 = (Err TE_SessionBusy, h1)"
proof -
  from assms(2) obtain r m hm adm where r: "get_session sid (th_sessions h) = Some r" "\<not> sc_is_archived r"
    and c: "composition_session json_text dec sid h = (m, hm)"
    and t1: "t1 = \<lparr>ts_session_id = sid, ts_turn_id = ''turn-'' @ show_nat (length (sm_messages m) + 1),
          ts_run_id = ''run-'' @ show_nat (length (sm_messages m) + 1), ts_status = ''running''\<rparr>"
    and adm: "adm = \<lparr>ra_session_id = sid, ra_turn_id = ts_turn_id t1, ra_run_id = ts_run_id t1,
       ra_previous_root_turn_id = map_option (\<lambda>t. ra_turn_id t) (read_admission_tip scan sid (th_admissions h)),
       ra_identity_json = identity_json json_text (show_nat (length (sm_messages m) + 1)) content1,
       ra_admitted_at = now1, ra_poisoned = False\<rparr>"
    and h1: "h1 = hm\<lparr>th_admissions := extend_admission_chain adm (th_admissions hm),
       th_active := (th_active hm)(sid \<mapsto> th_next_token hm), th_next_token := th_next_token hm + 1\<rparr>"
    by (rule admit_turn_Ok) blast
  note cs = composition_session_simps[OF c]
  have c1: "composition_session json_text dec sid h1 = (m, h1)" using cs(1) by (simp add: h1 composition_session_def)
  define tip where "tip = read_admission_tip scan sid (th_admissions h1)"
  have clean: "\<not> ra_poisoned a" if "tip = Some a" for a
  proof -
    have "a \<in> set (th_admissions h1)" "ra_session_id a = sid"
      using tip_in[of scan sid "th_admissions h1" a] that assms(3) by (auto simp: tip_def)
    moreover from this have "a = adm \<or> a \<in> set (th_admissions h)"
      using cs(3) by (auto simp: h1 extend_admission_chain_def replace_into_def)
    moreover have "\<not> ra_poisoned adm" by (simp add: adm)
    ultimately show ?thesis using assms(4) by blast
  qed
  let ?n = "show_nat (length (sm_messages m) + 1)"
  define adm2 where "adm2 = \<lparr>ra_session_id = sid, ra_turn_id = ''turn-'' @ ?n, ra_run_id = ''run-'' @ ?n,
     ra_previous_root_turn_id = map_option (\<lambda>t. ra_turn_id t) tip, ra_identity_json = identity_json json_text ?n content2,
     ra_admitted_at = now2, ra_poisoned = False\<rparr>"
  define h2 where "h2 = h1\<lparr>th_admissions := extend_admission_chain adm2 (th_admissions h1),
       th_active := (th_active h1)(sid \<mapsto> th_next_token h1), th_next_token := th_next_token h1 + 1\<rparr>"
  have "get_session sid (th_sessions h1) = Some r" using r(1) cs(2) by (simp add: h1)
  then have ok: "admit_turn json_text dec scan now2 sid content2 h1 = (Ok t1, h2)"
    using r(2) clean by (simp add: admit_turn_def c1 tip_def[symmetric] t1 h2_def adm2_def Let_def split: option.split)
  have rows: "filter (\<lambda>a. ra_session_id a = sid \<and> ra_turn_id a = ts_turn_id t1) (th_admissions h2) = [adm2]"
    by (auto simp: h2_def extend_admission_chain_def replace_into_def admission_clash_def adm2_def t1 filter_empty_conv)
  have tokens: "th_active h1 sid = Some (th_next_token hm)" "th_active h2 sid = Some (th_next_token hm + 1)"
    by (simp_all add: h1 h2_def)
  have "begin_turn json_text dec scan now2 sid content2 h1 = (Err TE_SessionBusy, h1)"
    using tokens by (intro begin_busy) simp
  moreover have "map (\<lambda>a. ra_identity_json a) (filter (\<lambda>a. ra_session_id a = sid \<and> ra_turn_id a = ts_turn_id t1) (th_admissions h2)) =
       [identity_json json_text ?n content2]" unfolding rows by (simp add: adm2_def)
  ultimately show ?thesis using ok tokens by auto
qed

subsection \<open>Resuming\<close>

lemma begin_turn_claims: "begin_turn json_text dec scan now sid content h = (res, h') \<Longrightarrow> th_claims h' = th_claims h"
proof -
  assume b: "begin_turn json_text dec scan now sid content h = (res, h')"
  obtain m hm where c: "composition_session json_text dec sid h = (m, hm)" by fastforce
  from b show ?thesis using composition_session_simps(6)[OF c]
    by (auto simp: begin_turn_def check_idle_def admit_turn_def c Let_def split: sum.splits option.splits if_splits)
qed

lemma resume_start_ready:
  assumes "resume_query scan sid h = Plan_Ready src turn hw"
    and "composition_session json_text dec sid h = (m, h1)" and "sql_read_session dec sid (th_events h) = Ok events"
    and "read_admission_tip scan sid (th_admissions h) = Some tip"
    and "c = resume_claim sha_hex json_text ev_json now cid sid (unwrap_or (JObj []) (of_text (ra_identity_json tip))) src turn hw events
      (show_nat (length (sm_messages m) + 1))"
    and "claim_ok fk (er_event_id ` set (th_events h)) c"
  shows "resume_start sha_hex json_text of_text ev_json dec scan fk now cid sid hw h =
     (case begin_turn json_text dec scan now sid (str_field (unwrap_or (JObj []) (of_text (ra_identity_json tip))) ''content'')
         (h1\<lparr>th_claims := replace_into claim_clash c (th_claims h)\<rparr>) of
        (Ok t, h2) \<Rightarrow> (Ok (Resume_Started t src hw), h2)
      | (Err TE_SessionBusy, h2) \<Rightarrow> (Ok (Resume_Parked ''session_busy''), h2)
      | (Err e, h2) \<Rightarrow> (Err e, h2))"
  using assms composition_session_simps[OF assms(2)]
  by (simp add: resume_start_def record_continuation_claim_def Let_def)

lemma resume_query_ready:
  assumes "resume_query scan sid h = Plan_Ready src turn hw"
  shows "\<exists>tip. read_admission_tip scan sid (th_admissions h) = Some tip \<and> \<not> ra_poisoned tip \<and> src = ra_run_id tip \<and>
    turn = Some (ra_turn_id tip) \<and> hw = sql_event_high_water sid src (th_events h) \<and> 0 < hw"
proof -
  have "0 \<le> sql_event_high_water a b c" for a b c by (simp add: sql_event_high_water_def)
  with assms show ?thesis by (auto simp: resume_query_def Let_def order_less_le split: option.splits if_splits)
qed

text \<open>
  C18. A continuation starts only from the newest admitted turn of the session, when that
  is not poisoned and the client's high-water mark is the number of events the database holds for
  the run; otherwise it is parked or refused.  A stale mark changes nothing.  When it starts,
  the claim of exactly this boundary is on record, with the mark it was made at.
\<close>

theorem resume_guarded:
  assumes "resume_start sha_hex json_text of_text ev_json dec scan fk now cid sid mark h = (res, h')"
  shows "(\<forall>t src hw. res = Ok (Resume_Started t src hw) \<longrightarrow>
      (\<exists>tip c. read_admission_tip scan sid (th_admissions h) = Some tip \<and> \<not> ra_poisoned tip \<and> src = ra_run_id tip \<and>
         hw = mark \<and> mark = sql_event_high_water sid src (th_events h) \<and> 0 < mark \<and>
         c \<in> set (th_claims h') \<and> cc_claim_id c = cid \<and> cc_source_run_id c = src \<and> cc_source_event_high_water c = mark \<and>
         cc_target_session_id c = sid \<and> cc_source_turn_id c = ra_turn_id tip)) \<and>
    ((\<nexists>src turn. resume_query scan sid h = Plan_Ready src turn mark) \<longrightarrow>
       h' = h \<and> (\<exists>reason. res = Ok (Resume_Parked reason)))"
proof (cases "\<exists>src turn. resume_query scan sid h = Plan_Ready src turn mark")
  case False
  then have "h' = h \<and> (\<exists>reason. res = Ok (Resume_Parked reason))"
    using assms by (auto simp: resume_start_def split: resume_plan.splits if_splits)
  then show ?thesis by auto
next
  case True
  then obtain src turn where q: "resume_query scan sid h = Plan_Ready src turn mark" by blast
  from resume_query_ready[OF q] obtain tip where tip: "read_admission_tip scan sid (th_admissions h) = Some tip"
    "\<not> ra_poisoned tip" "src = ra_run_id tip" "turn = Some (ra_turn_id tip)"
    "mark = sql_event_high_water sid src (th_events h)" "0 < mark" by blast
  obtain m h1 where c: "composition_session json_text dec sid h = (m, h1)" by fastforce
  note cs = composition_session_simps[OF c]
  have "\<exists>k. k \<in> set (th_claims h') \<and> cc_claim_id k = cid \<and> cc_source_run_id k = src \<and> cc_source_event_high_water k = mark \<and>
         cc_target_session_id k = sid \<and> cc_source_turn_id k = ra_turn_id tip \<and> s = src \<and> hw = mark"
    if started: "res = Ok (Resume_Started t s hw)" for t s hw
  proof -
    from started assms q tip(1) obtain events where ev: "sql_read_session dec sid (th_events h) = Ok events"
      by (auto simp: resume_start_def c cs Let_def split: sum.splits)
    define k where "k = resume_claim sha_hex json_text ev_json now cid sid (unwrap_or (JObj []) (of_text (ra_identity_json tip))) src turn mark events
      (show_nat (length (sm_messages m) + 1))"
    have ok: "claim_ok fk (er_event_id ` set (th_events h)) k"
      using started assms q tip(1) ev
      by (auto simp: resume_start_def c cs Let_def record_continuation_claim_def k_def split: if_splits)
    let ?b = "begin_turn json_text dec scan now sid (str_field (unwrap_or (JObj []) (of_text (ra_identity_json tip))) ''content'')
         (h1\<lparr>th_claims := replace_into claim_clash k (th_claims h)\<rparr>)"
    obtain br bh where b: "?b = (br, bh)" by fastforce
    from resume_start_ready[where of_text = of_text, OF q c ev tip(1) k_def ok] assms started b
    have "s = src \<and> hw = mark \<and> h' = bh" by (auto split: sum.splits turn_error.splits)
    moreover have "th_claims bh = replace_into claim_clash k (th_claims h)" using begin_turn_claims[OF b] by simp
    ultimately show ?thesis by (auto simp: replace_into_def k_def resume_claim_def Let_def tip(4) intro!: exI[of _ k])
  qed
  then show ?thesis using q tip by blast
qed

text \<open>
  An archived session is refused by the start only, after the claim: the client is told of an
  error and the claim stays, in the place of the earlier claims it clashes with.
\<close>

lemma archived_resume_leaves_claim:
  assumes "resume_query scan sid h = Plan_Ready src turn hw" and "get_session sid (th_sessions h) = Some r" and "sc_is_archived r"
    and "th_active h sid = None" and "sql_read_session dec sid (th_events h) = Ok events"
  shows "\<exists>c h'. resume_start sha_hex json_text of_text ev_json dec scan fk now cid sid hw h = (Err (TE_SessionArchived sid), h') \<and>
    cc_claim_id c = cid \<and> th_claims h' = replace_into claim_clash c (th_claims h)"
proof -
  from resume_query_ready[OF assms(1)] obtain tip where tip: "read_admission_tip scan sid (th_admissions h) = Some tip"
    and hw: "0 < hw" by blast
  obtain m h1 where c: "composition_session json_text dec sid h = (m, h1)" by fastforce
  note cs = composition_session_simps[OF c]
  define k where "k = resume_claim sha_hex json_text ev_json now cid sid (unwrap_or (JObj []) (of_text (ra_identity_json tip))) src turn hw events
      (show_nat (length (sm_messages m) + 1))"
  have ok: "claim_ok fk (er_event_id ` set (th_events h)) k" using hw by (simp add: k_def resume_claim_def claim_ok_def Let_def)
  have "begin_turn json_text dec scan now sid content (h1\<lparr>th_claims := x\<rparr>) = (Err (TE_SessionArchived sid), h1\<lparr>th_claims := x\<rparr>)" for content x
    using assms(2-4) cs(2,5) by (simp add: begin_turn_def check_idle_def admit_turn_def)
  with resume_start_ready[where of_text = of_text, OF assms(1) c assms(5) tip k_def ok] show ?thesis
    by (auto simp: k_def resume_claim_def Let_def intro!: exI[of _ k])
qed

text \<open>
  A run whose backend gives no terminal event is closed durably but not for the subscribers:
  the synthesized event goes to the event table only, and no projection ends the turn.
\<close>

lemma synthesized_terminal_not_published:
  assumes "runner_run json_text compact send ctx inp prev = Some r"
    and "\<not> (\<exists>se \<in> set (send (inp\<lparr>in_messages := cr_messages (compact_if_needed_rolling json_text compact (in_messages inp) prev)\<rparr>)).
      is_terminal_se se)"
  shows "\<forall>e \<in> set (rr_events r). ev_status e = None"
proof -
  have "ev_status (map_session_event se ctx) = None" if "\<not> is_terminal_se se" for se
    using that by (cases se) (auto simp: map_event_simps)
  then show ?thesis using assms(2) unfolding runner_run_facts(2)[OF assms(1)]
    by (auto simp: user_turn_def user_event_def split: chat_message.splits if_splits)
qed

subsection \<open>A concrete host\<close>

definition sample_host :: turn_host where
  "sample_host = \<lparr>th_sessions = [sample_session], th_admissions = [], th_claims = [], th_events = [],
     th_managers = (\<lambda>_. None), th_active = (\<lambda>_. None), th_next_token = 0, th_cancelled = [],
     th_continuity = continuity_new\<rparr>"

lemma sample_idle: "check_idle ''s'' sample_host = Ok ()"
  by (simp add: check_idle_def sample_host_def)

lemma sample_admitted:
  "\<exists>t h1. admit_turn json_text dec id now ''s'' content sample_host = (Ok t, h1) \<and>
     (\<forall>m. th_managers h1 ''s'' = Some m \<longrightarrow> sm_session_id m = ''s'')"
proof -
  obtain m hm where c: "composition_session json_text dec ''s'' sample_host = (m, hm)" by fastforce
  have "sm_session_id m = ''s''" using c by (auto simp: composition_session_def sample_host_def session_resume_def Let_def)
  moreover note cs = composition_session_simps[OF c]
  have "get_session ''s'' (th_sessions sample_host) = Some sample_session" "\<not> sc_is_archived sample_session"
    by (simp_all add: sample_host_def get_session_def sample_session_def)
  moreover have "read_admission_tip id ''s'' (th_admissions hm) = None"
    unfolding cs(3) by (simp add: sample_host_def read_admission_tip_def session_admissions_def)
  ultimately show ?thesis using cs(1) by (simp add: admit_turn_def c Let_def)
qed


lemma concurrent_starts_share_turn_witness:
  "\<exists>t1 h1 t2 h2. admit_turn (\<lambda>_. []) (\<lambda>_. Err []) id 7 ''s'' ''one'' sample_host = (Ok t1, h1) \<and>
     admit_turn (\<lambda>_. []) (\<lambda>_. Err []) id 7 ''s'' ''two'' h1 = (Ok t2, h2) \<and> ts_run_id t1 = ts_run_id t2"
proof -
  obtain t h1 where a: "admit_turn (\<lambda>_. []) (\<lambda>_. Err []) id 7 ''s'' ''one'' sample_host = (Ok t, h1)"
    using sample_admitted by blast
  have p1: "\<forall>rows. set (id rows) \<subseteq> set rows" by simp
  have p2: "\<forall>a \<in> set (th_admissions sample_host). ra_session_id a = ''s'' \<longrightarrow> \<not> ra_poisoned a" by (simp add: sample_host_def)
  obtain t2 h2 where "admit_turn (\<lambda>_. []) (\<lambda>_. Err []) id 7 ''s'' ''two'' h1 = (Ok t2, h2)" "ts_run_id t2 = ts_run_id t"
    using concurrent_starts_share_turn[OF sample_idle a p1 p2, where ?now2.0 = 7 and ?content2.0 = "''two''"] by (elim exE conjE)
  with a show ?thesis by force
qed

definition sample_resumable :: turn_host where
  "sample_resumable = sample_host\<lparr>th_admissions := [\<lparr>ra_session_id = ''s'', ra_turn_id = ''turn-1'', ra_run_id = ''run-1'',
       ra_previous_root_turn_id = None, ra_identity_json = [], ra_admitted_at = 5, ra_poisoned = False\<rparr>],
     th_events := [\<lparr>er_event_id = ''e'', er_session_id = ''s'', er_invocation_id = ''i'', er_run_id = ''run-1'', er_turn_id = ''turn-1'',
       er_event_seq = 1, er_event_kind = ''text'', er_payload_json = [], er_committed_at = 0\<rparr>]\<rparr>"

theorem resume_guarded_witness:
  "\<exists>t h'. resume_start (\<lambda>_. []) (\<lambda>_. []) (\<lambda>_. None) (\<lambda>_. []) (\<lambda>_. Ok (user_event sample_ctx ''go'')) id False 9 ''claim'' ''s'' 1
      sample_resumable = (Ok (Resume_Started t ''run-1'' 1), h') \<and> (\<exists>c \<in> set (th_claims h'). cc_claim_id c = ''claim'')"
proof -
  let ?dec = "\<lambda>_. Ok (user_event sample_ctx ''go'') :: (runtime_event, string) result"
  obtain m h1 where c: "composition_session (\<lambda>_. []) ?dec ''s'' sample_resumable = (m, h1)" by fastforce
  note cs = composition_session_simps[OF c]
  define tip where "tip = hd (th_admissions sample_resumable)"
  have tip: "read_admission_tip id ''s'' (th_admissions sample_resumable) = Some tip" "\<not> ra_poisoned tip" "ra_run_id tip = ''run-1''" "ra_turn_id tip = ''turn-1''"
    by (simp_all add: tip_def sample_resumable_def read_admission_tip_def session_admissions_def)
  have "sql_event_high_water ''s'' ''run-1'' (th_events sample_resumable) = 1"
    by (simp add: sql_event_high_water_def sample_resumable_def)
  then have q: "resume_query id ''s'' sample_resumable = Plan_Ready ''run-1'' (Some ''turn-1'') 1"
    using tip by (simp add: resume_query_def Let_def)
  have ev: "sql_read_session ?dec ''s'' (th_events sample_resumable) = Ok [user_event sample_ctx ''go'']"
    by (simp add: sql_read_session_def sample_resumable_def)
  define k where "k = resume_claim (\<lambda>_. []) (\<lambda>_. []) (\<lambda>_. []) 9 ''claim'' ''s'' (unwrap_or (JObj []) None) ''run-1'' (Some ''turn-1'') 1
      [user_event sample_ctx ''go''] (show_nat (length (sm_messages m) + 1))"
  have ok: "claim_ok False (er_event_id ` set (th_events sample_resumable)) k"
    by (simp add: k_def resume_claim_def claim_ok_def Let_def)
  have "\<exists>t h2. begin_turn (\<lambda>_. []) ?dec id 9 ''s'' content (h1\<lparr>th_claims := x\<rparr>) = (Ok t, h2)" for content x
  proof -
    have "composition_session (\<lambda>_. []) ?dec ''s'' (h1\<lparr>th_claims := x\<rparr>) = (m, h1\<lparr>th_claims := x\<rparr>)"
      using cs(1) by (simp add: composition_session_def)
    moreover have "get_session ''s'' (th_sessions h1) = Some sample_session" "\<not> sc_is_archived sample_session" "th_active h1 ''s'' = None"
      using cs(2,5) by (simp_all add: sample_resumable_def sample_host_def get_session_def sample_session_def)
    ultimately show ?thesis using tip(1,2) cs(3) by (simp add: begin_turn_def check_idle_def admit_turn_def Let_def)
  qed
  then obtain t h2 where "begin_turn (\<lambda>_. []) ?dec id 9 ''s'' (str_field (unwrap_or (JObj []) None) ''content'')
      (h1\<lparr>th_claims := replace_into claim_clash k (th_claims sample_resumable)\<rparr>) = (Ok t, h2)" by blast
  with resume_start_ready[where of_text = "\<lambda>_. None", OF q c ev tip(1) k_def ok]
  have r: "resume_start (\<lambda>_. []) (\<lambda>_. []) (\<lambda>_. None) (\<lambda>_. []) ?dec id False 9 ''claim'' ''s'' 1 sample_resumable =
      (Ok (Resume_Started t ''run-1'' 1), h2)" by simp
  from conjunct1[OF resume_guarded[OF r]] r show ?thesis by blast
qed

end
