(* ===== verification/Turn_Ops.thy ===== *)
theory Turn_Ops
  imports Turn_Coordinator Interactions
begin

text \<open>
  The turn operations (\<^verbatim>\<open>meepo-host/src/handlers/turn.rs\<close>) and the daemon's whole
  operation table as \<^verbatim>\<open>bin/host.rs\<close> fills it: the session, interaction and turn
  handlers lifted to the state of the daemon, which is the turn host and the interaction hub.

  What the handlers take from outside (clock, ids, scan orders, text forms) is the record
  \<open>daemon_env\<close>.
\<close>

subsection \<open>Results on the wire\<close>

definition turn_started_members :: "turn_started \<Rightarrow> (string \<times> json) list" where
  "turn_started_members t = [(''runId'', JStr (ts_run_id t)), (''sessionId'', JStr (ts_session_id t)),
     (''status'', JStr (ts_status t)), (''turnId'', JStr (ts_turn_id t))]"

definition turn_started_json :: "turn_started \<Rightarrow> json" where
  "turn_started_json t = JObj (turn_started_members t)"

definition turn_stopped_json :: "turn_stopped \<Rightarrow> json" where
  "turn_stopped_json t = JObj [(''sessionId'', JStr (tp_session_id t)), (''status'', JStr (tp_status t))]"

fun resume_plan_json :: "resume_plan \<Rightarrow> json" where
  "resume_plan_json (Plan_Ready run turn mark) = JObj [(''disposition'', JStr ''ready''), (''sourceRunId'', JStr run),
     (''sourceRuntimeEventHighWater'', JInt mark), (''sourceTurnId'', opt_str_json turn)]"
| "resume_plan_json (Plan_Parked reason) = JObj [(''disposition'', JStr ''parked''), (''reason'', JStr reason)]"

fun resume_start_json :: "resume_start_result \<Rightarrow> json" where
  "resume_start_json (Resume_Started t run mark) = sort_value_keys (JObj ((''kind'', JStr ''started'') #
     turn_started_members t @ [(''sourceRunId'', JStr run), (''sourceRuntimeEventHighWater'', JInt mark)]))"
| "resume_start_json (Resume_Parked reason) = JObj [(''kind'', JStr ''parked''), (''reason'', JStr reason)]"

fun turn_error_text :: "turn_error \<Rightarrow> string" where
  "turn_error_text TE_SessionBusy = ''session busy: a turn is already running''"
| "turn_error_text (TE_NotFound m) = ''not found: '' @ m"
| "turn_error_text (TE_SessionArchived s) = ''session archived: '' @ s"
| "turn_error_text TE_SessionPoisoned = ''session poisoned: admission chain marked poisoned''"
| "turn_error_text (TE_Storage e) = ''storage: '' @ e"

subsection \<open>Handlers\<close>

record daemon_env =
  de_now :: int
  de_claim_id :: string
  de_catalog_scan :: "catalog \<Rightarrow> catalog"
  de_admission_scan :: "root_admission list \<Rightarrow> root_admission list"
  de_json_text :: "json \<Rightarrow> string"
  de_of_text :: "string \<Rightarrow> json option"
  de_dec :: "string \<Rightarrow> (runtime_event, string) result"
  de_ev_json :: "runtime_event \<Rightarrow> string"
  de_sha_hex :: "string \<Rightarrow> string"
  de_foreign_keys :: bool
  de_answer_text :: "permission_answer \<Rightarrow> string"
  de_takes :: "string \<Rightarrow> nat"

definition env_begin :: "daemon_env \<Rightarrow> string \<Rightarrow> string \<Rightarrow> turn_host \<Rightarrow> (turn_started, turn_error) result \<times> turn_host" where
  "env_begin env = begin_turn (de_json_text env) (de_dec env) (de_admission_scan env) (de_now env)"

definition env_resume :: "daemon_env \<Rightarrow> string \<Rightarrow> int \<Rightarrow> turn_host \<Rightarrow> (resume_start_result, turn_error) result \<times> turn_host" where
  "env_resume env = resume_start (de_sha_hex env) (de_json_text env) (de_of_text env) (de_ev_json env) (de_dec env)
     (de_admission_scan env) (de_foreign_keys env) (de_now env) (de_claim_id env)"

fun turn_start_error :: "turn_error \<Rightarrow> outcome" where
  "turn_start_error TE_SessionBusy = Outcome_Err SessionBusy ''a turn is already running for this session''"
| "turn_start_error (TE_NotFound m) = Outcome_Err NotFound m"
| "turn_start_error (TE_SessionArchived s) = Outcome_Err SessionArchived (''session '' @ quoted s @ '' is archived'')"
| "turn_start_error TE_SessionPoisoned = Outcome_Err OperationConflict ''session admission chain is poisoned''"
| "turn_start_error (TE_Storage e) = Outcome_Err PersistenceFailed e"

fun not_found_or_internal :: "turn_error \<Rightarrow> outcome" where
  "not_found_or_internal (TE_NotFound m) = Outcome_Err NotFound m"
| "not_found_or_internal e = Outcome_Err InternalFailure (turn_error_text e)"

definition turn_start :: "daemon_env \<Rightarrow> turn_host handler" where
  "turn_start env input ctx h =
     (let session_id = str_field input ''sessionId''; content = str_field input ''content'' in
      if session_id = [] \<or> content = [] then (Outcome_Err InvalidRequest ''sessionId and content are required'', h)
      else (case env_begin env session_id content h of
              (Ok t, h') \<Rightarrow> (Outcome_Ok (turn_started_json t), h')
            | (Err e, h') \<Rightarrow> (turn_start_error e, h')))"

definition turn_stop :: "turn_host handler" where
  "turn_stop input ctx h =
     (let session_id = str_field input ''sessionId'' in
      if session_id = [] then (Outcome_Err InvalidRequest ''sessionId is required'', h)
      else (case stop_turn session_id h of
              (Ok t, h') \<Rightarrow> (Outcome_Ok (turn_stopped_json t), h')
            | (Err e, h') \<Rightarrow> (not_found_or_internal e, h')))"

definition turn_resume_query :: "daemon_env \<Rightarrow> turn_host handler" where
  "turn_resume_query env input ctx h =
     (let session_id = str_field input ''sessionId'' in
      if session_id = [] then (Outcome_Err InvalidRequest ''sessionId is required'', h)
      else (Outcome_Ok (resume_plan_json (resume_query (de_admission_scan env) session_id h)), h))"

definition turn_resume_start :: "daemon_env \<Rightarrow> turn_host handler" where
  "turn_resume_start env input ctx h =
     (let session_id = str_field input ''sessionId'';
          high_water = unwrap_or (-1) (Option.bind (json_get input ''sourceRuntimeEventHighWater'') as_i64)
      in if session_id = [] \<or> high_water < 0
         then (Outcome_Err InvalidRequest ''sessionId and sourceRuntimeEventHighWater are required'', h)
         else (case env_resume env session_id high_water h of
                 (Ok r, h') \<Rightarrow> (Outcome_Ok (resume_start_json r), h')
               | (Err e, h') \<Rightarrow> (not_found_or_internal e, h')))"

definition register_turn :: "daemon_env \<Rightarrow> turn_host dispatcher \<Rightarrow> turn_host dispatcher" where
  "register_turn env d =
     register_op ''turn.resume.start'' (turn_resume_start env)
     (register_op ''turn.resume.query'' (turn_resume_query env)
     (register_op ''turn.stop'' turn_stop
     (register_op ''turn.start'' (turn_start env) d)))"

subsection \<open>The daemon's table\<close>

record daemon_state =
  dm_host :: turn_host
  dm_hub :: hub

definition lift_turns :: "turn_host handler \<Rightarrow> daemon_state handler" where
  "lift_turns f input ctx s = (case f input ctx (dm_host s) of (o', h) \<Rightarrow> (o', s\<lparr>dm_host := h\<rparr>))"

definition lift_sessions :: "catalog handler \<Rightarrow> daemon_state handler" where
  "lift_sessions f = lift_turns (\<lambda>input ctx h. case f input ctx (th_sessions h) of (o', c) \<Rightarrow> (o', h\<lparr>th_sessions := c\<rparr>))"

definition lift_interactions :: "interaction_state handler \<Rightarrow> daemon_state handler" where
  "lift_interactions f input ctx s =
     (case f input ctx \<lparr>is_hub = dm_hub s, is_continuity = th_continuity (dm_host s)\<rparr> of
        (o', i) \<Rightarrow> (o', s\<lparr>dm_host := (dm_host s)\<lparr>th_continuity := is_continuity i\<rparr>, dm_hub := is_hub i\<rparr>))"

definition lift_ops :: "('s handler \<Rightarrow> daemon_state handler) \<Rightarrow> 's dispatcher \<Rightarrow> daemon_state dispatcher" where
  "lift_ops lift d = (\<lambda>op_key. map_option lift (d op_key))"

definition daemon_dispatcher :: "daemon_env \<Rightarrow> daemon_state dispatcher" where
  "daemon_dispatcher env =
     register_host dispatcher_new
     ++ lift_ops lift_sessions (register_session (de_now env) (de_catalog_scan env) (de_json_text env) dispatcher_new)
     ++ lift_ops lift_interactions (register_interaction (de_answer_text env) (de_takes env) dispatcher_new)
     ++ lift_ops lift_turns (register_turn env dispatcher_new)"

subsection \<open>What a refused operation leaves\<close>

text \<open>Everything but the claims and the cache of session managers.\<close>

definition host_state ::
    "turn_host \<Rightarrow> catalog \<times> root_admission list \<times> event_table \<times> (string \<Rightarrow> nat option) \<times> nat list \<times> continuity" where
  "host_state h = (th_sessions h, th_admissions h, th_events h, th_active h, th_cancelled h, th_continuity h)"

lemma composition_session_state:
  "composition_session json_text dec sid h = (m, h') \<Longrightarrow> host_state h' = host_state h \<and> th_claims h' = th_claims h"
  by (auto simp: composition_session_def host_state_def Let_def split: option.splits)

lemma begin_turn_refused:
  assumes "begin_turn json_text dec scan now sid content h = (Err e, h')"
  shows "host_state h' = host_state h \<and> th_claims h' = th_claims h"
proof -
  obtain m hm where c: "composition_session json_text dec sid h = (m, hm)" by fastforce
  with assms have "h' = h \<or> h' = hm"
    by (auto simp: begin_turn_def check_idle_def admit_turn_def Let_def split: sum.splits option.splits if_splits)
  with composition_session_state[OF c] show ?thesis by auto
qed

lemma resume_start_refused:
  assumes "resume_start sha_hex json_text of_text ev_json dec scan fk now cid sid mark h = (Err e, h')"
  shows "host_state h' = host_state h"
proof -
  obtain m hm where c: "composition_session json_text dec sid h = (m, hm)" by fastforce
  have "host_state (hm\<lparr>th_claims := x\<rparr>) = host_state hm" for x by (simp add: host_state_def)
  moreover have "h' = h \<or> h' = hm \<or> (\<exists>x content e'. begin_turn json_text dec scan now sid content (hm\<lparr>th_claims := x\<rparr>) = (Err e', h'))"
    using assms c by (auto simp: resume_start_def Let_def split: resume_plan.splits option.splits sum.splits prod.splits
        turn_error.splits if_splits)
  ultimately show ?thesis using composition_session_state[OF c] begin_turn_refused by (metis)
qed

text \<open>\<open>refuses C out\<close>: an error of \<open>out\<close> has one of the codes \<open>C\<close> and leaves the host's state.\<close>

definition refuses :: "op_error_code set \<Rightarrow> bool \<Rightarrow> turn_host \<Rightarrow> outcome \<times> turn_host \<Rightarrow> bool" where
  "refuses C claims h out \<longleftrightarrow> (\<forall>c m. fst out = Outcome_Err c m \<longrightarrow>
     c \<in> C \<and> host_state (snd out) = host_state h \<and> (claims \<longrightarrow> th_claims (snd out) = th_claims h))"

lemma turn_start_refuses:
  "refuses {InvalidRequest, SessionBusy, NotFound, SessionArchived, OperationConflict, PersistenceFailed} True h (turn_start env input ctx h)"
proof -
  obtain r h' where b: "env_begin env (str_field input ''sessionId'') (str_field input ''content'') h = (r, h')" by fastforce
  show ?thesis
  proof (cases r)
    case (Inl e)
    with b have "host_state h' = host_state h \<and> th_claims h' = th_claims h" by (auto simp: env_begin_def dest: begin_turn_refused)
    with Inl b show ?thesis by (cases e) (simp_all add: refuses_def turn_start_def Let_def)
  qed (use b in \<open>simp add: refuses_def turn_start_def Let_def\<close>)
qed

lemma turn_stop_refuses: "refuses {InvalidRequest, NotFound} True h (turn_stop input ctx h)"
  by (simp add: refuses_def turn_stop_def stop_turn_def Let_def split: option.split)

lemma turn_resume_query_refuses: "refuses {InvalidRequest} True h (turn_resume_query env input ctx h)"
  by (simp add: refuses_def turn_resume_query_def Let_def)

lemma turn_resume_start_refuses:
  "refuses {InvalidRequest, NotFound, InternalFailure} False h (turn_resume_start env input ctx h)"
proof -
  define mark where "mark = unwrap_or (-1) (Option.bind (json_get input ''sourceRuntimeEventHighWater'') as_i64)"
  obtain r h' where b: "env_resume env (str_field input ''sessionId'') mark h = (r, h')" by fastforce
  show ?thesis
  proof (cases r)
    case (Inl e)
    with b have "host_state h' = host_state h" by (auto simp: env_resume_def dest: resume_start_refused)
    with Inl b show ?thesis by (cases e) (simp_all add: refuses_def turn_resume_start_def Let_def mark_def[symmetric])
  qed (use b in \<open>simp add: refuses_def turn_resume_start_def Let_def mark_def[symmetric]\<close>)
qed

text \<open>The handlers of the three tables, and which codes each may answer with.\<close>

fun turn_codes :: "string \<Rightarrow> op_error_code set" where
  "turn_codes k = (if k = ''turn.start'' then {InvalidRequest, SessionBusy, NotFound, SessionArchived, OperationConflict, PersistenceFailed}
     else if k = ''turn.stop'' then {InvalidRequest, NotFound}
     else if k = ''turn.resume.query'' then {InvalidRequest} else {InvalidRequest, NotFound, InternalFailure})"

lemma turn_table_refuses:
  assumes "register_turn env dispatcher_new k = Some f"
  shows "refuses (turn_codes k) (k \<noteq> ''turn.resume.start'') h (f input ctx h)"
  using assms turn_start_refuses[of h env input ctx] turn_stop_refuses[of h input ctx]
    turn_resume_query_refuses[of h env input ctx] turn_resume_start_refuses[of h env input ctx]
  by (simp add: register_turn_def register_op_def dispatcher_new_def split: if_splits)

lemma session_table_framed:
  assumes "register_session now scan json_text dispatcher_new k = Some f"
  shows "framed (str_field input ''sessionId'') rows (f input ctx rows)"
  using assms by (auto simp: register_session_def register_op_def dispatcher_new_def create_framed remove_framed other_framed
      split: if_splits)

lemma hub_answer_Err: "hub_answer answer_text takes i e a s = Err m \<Longrightarrow> m = i"
  by (simp add: hub_answer_def Let_def split: option.splits)

lemma interaction_table_refuses:
  assumes "register_interaction answer_text takes dispatcher_new k = Some f" and "f input ctx s = (Outcome_Err c m, s')"
  shows "s' = s \<and> (c = InvalidRequest \<or> k = ''interaction.answer'' \<and> c = AlreadyResolved)"
  using assms
  by (auto simp: register_interaction_def register_op_def dispatcher_new_def interaction_query_def interaction_answer_def
      Let_def split: if_splits option.splits sum.splits)

subsection \<open>The daemon's answers\<close>

definition table_ops :: "string list" where
  "table_ops = [''host.status'', ''host.diagnostics.query'', ''session.create'', ''session.catalog.query'', ''session.metadata.update'',
     ''session.configuration.update'', ''session.cwd.relocate'', ''session.read_marker.set'', ''session.lifecycle.set'',
     ''session.remove'', ''interaction.query'', ''interaction.answer'', ''turn.start'', ''turn.stop'', ''turn.resume.query'',
     ''turn.resume.start'']"

definition undeclared_ops :: "string list" where
  "undeclared_ops = [''session.metadata.update'', ''session.configuration.update'', ''session.cwd.relocate'',
     ''session.read_marker.set'', ''session.lifecycle.set'', ''session.remove'', ''interaction.query'', ''interaction.answer'',
     ''turn.stop'', ''turn.resume.query'']"

lemma daemon_lookup:
  "daemon_dispatcher env k =
     (case register_turn env dispatcher_new k of Some f \<Rightarrow> Some (lift_turns f)
      | None \<Rightarrow> (case register_interaction (de_answer_text env) (de_takes env) dispatcher_new k of Some f \<Rightarrow> Some (lift_interactions f)
      | None \<Rightarrow> (case register_session (de_now env) (de_catalog_scan env) (de_json_text env) dispatcher_new k of Some f \<Rightarrow> Some (lift_sessions f)
      | None \<Rightarrow> register_host dispatcher_new k)))"
  by (simp add: daemon_dispatcher_def lift_ops_def map_add_def split: option.split)

lemma table_domains:
  "register_turn env dispatcher_new k = Some f \<Longrightarrow> k \<in> {''turn.start'', ''turn.stop'', ''turn.resume.query'', ''turn.resume.start''}"
  "register_interaction at tk dispatcher_new k = Some f2 \<Longrightarrow> k \<in> {''interaction.query'', ''interaction.answer''}"
  "register_session nw sc jt dispatcher_new k = Some f3 \<Longrightarrow> k \<in> {''session.create'', ''session.catalog.query'',
     ''session.metadata.update'', ''session.configuration.update'', ''session.cwd.relocate'', ''session.read_marker.set'',
     ''session.lifecycle.set'', ''session.remove''}"
  "register_host dispatcher_new k = Some f4 \<Longrightarrow> k \<in> {''host.status'', ''host.diagnostics.query''} \<and> f4 = host_status"
  by (auto simp: register_turn_def register_interaction_def register_session_def register_host_def register_op_def
      dispatcher_new_def split: if_splits)

text \<open>A refusal by the daemon, table by table: its code and what it leaves.\<close>

lemma daemon_refusal:
  assumes "dispatch (daemon_dispatcher env) k input ctx s = (Outcome_Err c m, s')"
  shows "host_state (dm_host s') = host_state (dm_host s) \<and> dm_hub s' = dm_hub s \<and>
    (k \<noteq> ''turn.resume.start'' \<longrightarrow> th_claims (dm_host s') = th_claims (dm_host s)) \<and>
    (c = OperationUnavailable \<and> daemon_dispatcher env k = None \<or>
     k \<in> {''turn.start'', ''turn.stop'', ''turn.resume.query'', ''turn.resume.start''} \<and> c \<in> turn_codes k \<or>
     k \<in> {''interaction.query'', ''interaction.answer''} \<and> (c = InvalidRequest \<or> k = ''interaction.answer'' \<and> c = AlreadyResolved) \<or>
     k \<in> {''session.create'', ''session.catalog.query'', ''session.metadata.update'', ''session.configuration.update'',
       ''session.cwd.relocate'', ''session.read_marker.set'', ''session.lifecycle.set'', ''session.remove''} \<and> c = InvalidRequest)"
proof (cases "daemon_dispatcher env k")
  case None
  with assms show ?thesis by (simp add: dispatch_def)
next
  case (Some f)
  then have run: "f input ctx s = (Outcome_Err c m, s')" using assms by (simp add: dispatch_def)
  from Some consider (turn) g where "register_turn env dispatcher_new k = Some g" "f = lift_turns g"
    | (interaction) g where "register_interaction (de_answer_text env) (de_takes env) dispatcher_new k = Some g" "f = lift_interactions g"
    | (session) g where "register_session (de_now env) (de_catalog_scan env) (de_json_text env) dispatcher_new k = Some g" "f = lift_sessions g"
    | (host) "register_host dispatcher_new k = Some f"
    unfolding daemon_lookup
    by (cases "register_turn env dispatcher_new k";
        cases "register_interaction (de_answer_text env) (de_takes env) dispatcher_new k";
        cases "register_session (de_now env) (de_catalog_scan env) (de_json_text env) dispatcher_new k"; simp only: option.case option.inject)
  then show ?thesis
  proof cases
    case turn
    obtain h' where g: "g input ctx (dm_host s) = (Outcome_Err c m, h')" "s' = s\<lparr>dm_host := h'\<rparr>"
      using run turn(2) by (auto simp: lift_turns_def split: prod.splits)
    with turn_table_refuses[OF turn(1), of "dm_host s" input ctx] table_domains(1)[OF turn(1)] show ?thesis
      by (simp add: refuses_def)
  next
    case interaction
    obtain i where g: "g input ctx \<lparr>is_hub = dm_hub s, is_continuity = th_continuity (dm_host s)\<rparr> = (Outcome_Err c m, i)"
      "s' = s\<lparr>dm_host := (dm_host s)\<lparr>th_continuity := is_continuity i\<rparr>, dm_hub := is_hub i\<rparr>"
      using run interaction(2) by (auto simp: lift_interactions_def split: prod.splits)
    with interaction_table_refuses[OF interaction(1) g(1)] table_domains(2)[OF interaction(1)] show ?thesis
      by (simp add: host_state_def)
  next
    case session
    obtain rows where g: "g input ctx (th_sessions (dm_host s)) = (Outcome_Err c m, rows)"
      "s' = s\<lparr>dm_host := (dm_host s)\<lparr>th_sessions := rows\<rparr>\<rparr>"
      using run session(2) by (auto simp: lift_sessions_def lift_turns_def split: prod.splits)
    with session_table_framed[OF session(1), of input "th_sessions (dm_host s)" ctx]
    have "c = InvalidRequest \<and> rows = th_sessions (dm_host s)" by (simp add: framed_def)
    with g(2) table_domains(3)[OF session(1)] show ?thesis by (simp add: host_state_def)
  next
    case host
    with run show ?thesis using table_domains(4)[OF host] by (simp add: host_status_def status_outcome_def)
  qed
qed


lemma declared_codes:
  "\<forall>c \<in> turn_codes ''turn.start''. declares ''turn.start'' c" "declares ''turn.stop'' NotFound"
  "\<forall>c \<in> turn_codes ''turn.resume.start''. declares ''turn.resume.start'' c"
  "declares ''interaction.answer'' AlreadyResolved" "declares ''session.create'' InvalidRequest"
  "declares ''session.catalog.query'' InvalidRequest" "\<not> list_ex (\<lambda>k. declares k InvalidRequest) undeclared_ops"
  by code_simp+

lemma undeclared_mem: "k \<in> set undeclared_ops \<longleftrightarrow> k \<in> {''session.metadata.update'', ''session.configuration.update'',
    ''session.cwd.relocate'', ''session.read_marker.set'', ''session.lifecycle.set'', ''session.remove'', ''interaction.query'',
    ''interaction.answer'', ''turn.stop'', ''turn.resume.query''}"
  by (simp add: undeclared_ops_def)

lemma table_mem: "k \<in> set table_ops \<longleftrightarrow> daemon_dispatcher env k \<noteq> None"
  by (auto simp: table_ops_def daemon_lookup register_turn_def register_interaction_def register_session_def
      register_host_def register_op_def dispatcher_new_def split: option.split)

text \<open>A request without any member is refused by every operation that needs one.\<close>

lemma empty_request_refused:
  assumes "k \<in> set undeclared_ops"
  shows "\<exists>m. dispatch (daemon_dispatcher env) k (JObj []) ctx s = (Outcome_Err InvalidRequest m, s)"
proof -
  have e: "str_field (JObj []) f = []" "json_get (JObj []) f = None" for f
    by (simp_all add: str_field_def get_str_def str_of_def)
  show ?thesis
    using assms unfolding undeclared_mem
    by (elim insertE emptyE)
      (simp_all add: dispatch_def daemon_lookup register_turn_def register_interaction_def register_session_def register_op_def
        dispatcher_new_def lift_turns_def lift_sessions_def lift_interactions_def e turn_stop_def turn_resume_query_def
        interaction_query_def interaction_answer_def session_metadata_update_def session_configuration_update_def
        session_cwd_relocate_def session_read_marker_set_def session_lifecycle_set_def session_remove_def
        apply_session_patch_def invalid_def)
qed


subsection \<open>Witnesses\<close>

definition sample_env :: daemon_env where
  "sample_env = \<lparr>de_now = 7, de_claim_id = ''claim'', de_catalog_scan = id, de_admission_scan = id, de_json_text = \<lambda>_. [],
     de_of_text = \<lambda>_. None, de_dec = \<lambda>_. Err [], de_ev_json = \<lambda>_. [], de_sha_hex = \<lambda>_. [], de_foreign_keys = False,
     de_answer_text = \<lambda>_. [], de_takes = \<lambda>_. 0\<rparr>"

definition sample_daemon :: daemon_state where
  "sample_daemon = \<lparr>dm_host = sample_host, dm_hub = sample_hub\<rparr>"

definition sample_op_context :: op_context where
  "sample_op_context = \<lparr>oc_host_epoch = ''e'', oc_lifecycle = State_Ready\<rparr>"

lemma undeclared_stop: "''turn.stop'' \<in> set undeclared_ops" by (simp add: undeclared_mem)



end
