(* ===== verification/Election.thy ===== *)
theory Election
  imports Envelope
begin

text \<open>
  Who owns a storage root, and how a client finds the owner: the ownership lock and the
  registration record (\<^verbatim>\<open>meepo-host/src/server/registration.rs\<close>), a host process
  from the binding of its socket (\<^verbatim>\<open>transport/framed.rs\<close>, called by
  \<^verbatim>\<open>bin/host.rs\<close>) through \<^verbatim>\<open>serve_owned\<close>
  (\<^verbatim>\<open>server/kernel.rs\<close>) to its end, and the election of a client
  (\<^verbatim>\<open>client/connect_or_spawn.rs\<close>).

  The root directory is a record: the holder of the lock, the process whose listener the socket
  path leads to, and the content of the registration file.  Processes are numbers and interleave in
  \<open>host_step\<close>; a process may be killed at any moment.  Times are milliseconds.
\<close>

subsection \<open>The registration record\<close>

record host_registration =
  hr_kind :: string
  hr_schema_version :: "32 word"
  hr_root_id :: string
  hr_host_epoch :: string
  hr_endpoint :: string
  hr_protocol_min :: "32 word"
  hr_protocol_max :: "32 word"
  hr_compatibility_epoch :: "32 word"
  hr_state :: lifecycle_state
  hr_pid :: "32 word"
  hr_created_at :: int

definition REGISTRATION_KIND :: string where "REGISTRATION_KIND = ''meepo-runtime-host''"

definition registration_new ::
    "string \<Rightarrow> string \<Rightarrow> string \<Rightarrow> lifecycle_state \<Rightarrow> 32 word \<Rightarrow> int \<Rightarrow> host_registration" where
  "registration_new root_id host_epoch endpoint state pid now =
     \<lparr>hr_kind = REGISTRATION_KIND, hr_schema_version = REGISTRATION_SCHEMA_VERSION, hr_root_id = root_id,
      hr_host_epoch = host_epoch, hr_endpoint = endpoint, hr_protocol_min = PROTOCOL_MIN,
      hr_protocol_max = PROTOCOL_MAX, hr_compatibility_epoch = COMPATIBILITY_EPOCH, hr_state = state,
      hr_pid = pid, hr_created_at = now\<rparr>"

definition registration_json :: "host_registration \<Rightarrow> json" where
  "registration_json r = JObj [(''kind'', JStr (hr_kind r)), (''schemaVersion'', u32_json (hr_schema_version r)),
     (''rootId'', JStr (hr_root_id r)), (''hostEpoch'', JStr (hr_host_epoch r)), (''endpoint'', JStr (hr_endpoint r)),
     (''protocolMin'', u32_json (hr_protocol_min r)), (''protocolMax'', u32_json (hr_protocol_max r)),
     (''compatibilityEpoch'', u32_json (hr_compatibility_epoch r)), (''state'', JStr (state_wire (hr_state r))),
     (''pid'', u32_json (hr_pid r)), (''createdAt'', JInt (hr_created_at r))]"

definition registration_fields :: "string list" where
  "registration_fields = [''kind'', ''schemaVersion'', ''rootId'', ''hostEpoch'', ''endpoint'', ''protocolMin'',
     ''protocolMax'', ''compatibilityEpoch'', ''state'', ''pid'', ''createdAt'']"

definition registration_of_object :: "json \<Rightarrow> host_registration option" where
  "registration_of_object v =
     (if \<not> only_fields registration_fields v then None
      else do {
        kind \<leftarrow> field as_str v ''kind'';
        schema \<leftarrow> field u32_of_json v ''schemaVersion'';
        root \<leftarrow> field as_str v ''rootId'';
        host_epoch \<leftarrow> field as_str v ''hostEpoch'';
        endpoint \<leftarrow> field as_str v ''endpoint'';
        pmin \<leftarrow> field u32_of_json v ''protocolMin'';
        pmax \<leftarrow> field u32_of_json v ''protocolMax'';
        epoch \<leftarrow> field u32_of_json v ''compatibilityEpoch'';
        state \<leftarrow> field state_of_json v ''state'';
        pid \<leftarrow> field u32_of_json v ''pid'';
        created \<leftarrow> field as_i64 v ''createdAt'';
        Some \<lparr>hr_kind = kind, hr_schema_version = schema, hr_root_id = root, hr_host_epoch = host_epoch,
          hr_endpoint = endpoint, hr_protocol_min = pmin, hr_protocol_max = pmax, hr_compatibility_epoch = epoch,
          hr_state = state, hr_pid = pid, hr_created_at = created\<rparr>
      })"

text \<open>The derived reader also takes the fields as an array in their order.\<close>

definition registration_of_json :: "json \<Rightarrow> host_registration option" where
  "registration_of_json v =
     (case v of
        JArr xs \<Rightarrow> (if length xs = length registration_fields then registration_of_object (JObj (zip registration_fields xs)) else None)
      | _ \<Rightarrow> registration_of_object v)"

definition i64_ok :: "int \<Rightarrow> bool" where "i64_ok i \<longleftrightarrow> - (2 ^ 63) \<le> i \<and> i < 2 ^ 63"

lemma registration_round: "i64_ok (hr_created_at r) \<Longrightarrow> registration_of_json (registration_json r) = Some r"
  by (simp add: registration_of_json_def registration_of_object_def registration_json_def registration_fields_def
      i64_ok_def reader_simps)

subsection \<open>A storage root and its processes\<close>

datatype host_phase = Ph_Absent | Ph_Bound | Ph_Owning | Ph_Serving | Ph_Draining | Ph_Gone

text \<open>\<^verbatim>\<open>Control\<close>: the lifecycle is ready exactly while the process serves.\<close>

record host_process =
  hp_phase :: host_phase
  hp_connections :: nat

record root_world =
  rw_lock :: "nat option"
  rw_socket :: "nat option"
  rw_registration :: "json option"
  rw_procs :: "nat \<Rightarrow> host_process"

definition phase :: "root_world \<Rightarrow> nat \<Rightarrow> host_phase" where "phase w p = hp_phase (rw_procs w p)"

definition set_phase :: "nat \<Rightarrow> host_phase \<Rightarrow> root_world \<Rightarrow> root_world" where
  "set_phase p ph w = w\<lparr>rw_procs := (rw_procs w)(p := (rw_procs w p)\<lparr>hp_phase := ph\<rparr>)\<rparr>"

definition set_connections :: "nat \<Rightarrow> nat \<Rightarrow> root_world \<Rightarrow> root_world" where
  "set_connections p n w = w\<lparr>rw_procs := (rw_procs w)(p := (rw_procs w p)\<lparr>hp_connections := n\<rparr>)\<rparr>"

definition root_empty :: root_world where
  "root_empty = \<lparr>rw_lock = None, rw_socket = None, rw_registration = None,
     rw_procs = \<lambda>_. \<lparr>hp_phase = Ph_Absent, hp_connections = 0\<rparr>\<rparr>"

text \<open>\<^verbatim>\<open>bind\<close> removes whatever file is at the path first.\<close>

definition bind_socket :: "nat \<Rightarrow> root_world \<Rightarrow> root_world" where
  "bind_socket p w = (let w1 = w\<lparr>rw_socket := None\<rparr> in w1\<lparr>rw_socket := Some p\<rparr>)"

definition try_acquire :: "nat \<Rightarrow> root_world \<Rightarrow> bool \<times> root_world" where
  "try_acquire p w = (case rw_lock w of None \<Rightarrow> (True, w\<lparr>rw_lock := Some p\<rparr>) | Some _ \<Rightarrow> (False, w))"

definition drop_ownership :: "nat \<Rightarrow> root_world \<Rightarrow> root_world" where
  "drop_ownership p w = (if rw_lock w = Some p then w\<lparr>rw_lock := None\<rparr> else w)"

definition read_registration :: "root_world \<Rightarrow> host_registration option" where
  "read_registration w = Option.bind (rw_registration w) registration_of_json"

definition write_registration :: "host_registration \<Rightarrow> root_world \<Rightarrow> root_world" where
  "write_registration r w = w\<lparr>rw_registration := Some (registration_json r)\<rparr>"

definition remove_registration :: "string \<Rightarrow> root_world \<Rightarrow> root_world" where
  "remove_registration host_epoch w =
     (case read_registration w of
        Some r \<Rightarrow> (if hr_host_epoch r = host_epoch then w\<lparr>rw_registration := None\<rparr> else w)
      | None \<Rightarrow> w)"

definition is_idle :: "host_process \<Rightarrow> bool" where
  "is_idle h \<longleftrightarrow> hp_phase h = Ph_Serving \<and> hp_connections h = 0"

text \<open>
  A process binds its socket, tries for the lock and leaves when it is taken, writes its
  record, serves connections until it is idle or told to stop, drains for a while, and cleans up.
  \<open>reg\<close> is the record each process writes.
\<close>

inductive host_step :: "(nat \<Rightarrow> host_registration) \<Rightarrow> root_world \<Rightarrow> root_world \<Rightarrow> bool" for reg where
  step_bind: "phase w p = Ph_Absent \<Longrightarrow> host_step reg w (set_phase p Ph_Bound (bind_socket p w))"
| step_lose: "phase w p = Ph_Bound \<Longrightarrow> try_acquire p w = (False, w') \<Longrightarrow> host_step reg w (set_phase p Ph_Gone w')"
| step_own: "phase w p = Ph_Bound \<Longrightarrow> try_acquire p w = (True, w') \<Longrightarrow> host_step reg w (set_phase p Ph_Owning w')"
| step_announce: "phase w p = Ph_Owning \<Longrightarrow>
     host_step reg w (set_phase p Ph_Serving (write_registration (reg p) w))"
| step_accept: "phase w p = Ph_Serving \<Longrightarrow>
     host_step reg w (set_connections p (hp_connections (rw_procs w p) + 1) w)"
| step_hangup: "0 < hp_connections (rw_procs w p) \<Longrightarrow>
     host_step reg w (set_connections p (hp_connections (rw_procs w p) - 1) w)"
| step_idle: "is_idle (rw_procs w p) \<Longrightarrow> host_step reg w (set_phase p Ph_Draining w)"
| step_signal: "phase w p = Ph_Serving \<Longrightarrow> host_step reg w (set_phase p Ph_Draining w)"
| step_leave: "phase w p = Ph_Draining \<Longrightarrow>
     host_step reg w (set_phase p Ph_Gone (drop_ownership p (remove_registration (hr_host_epoch (reg p)) w)))"
| step_killed: "phase w p \<notin> {Ph_Absent, Ph_Gone} \<Longrightarrow>
     host_step reg w (set_phase p Ph_Gone (drop_ownership p w))"

abbreviation host_reach :: "(nat \<Rightarrow> host_registration) \<Rightarrow> root_world \<Rightarrow> bool" where
  "host_reach reg \<equiv> (host_step reg)\<^sup>*\<^sup>* root_empty"

subsection \<open>A client's election\<close>

datatype connect_error = Connect_Io string | Connect_Timeout

text \<open>
  A connection is answered by the process whose listener the socket path leads to, when it
  serves; every record names that path.
\<close>

definition host_connect :: "root_world \<Rightarrow> nat option" where
  "host_connect w = (case rw_socket w of Some p \<Rightarrow> (if phase w p = Ph_Serving then Some p else None) | None \<Rightarrow> None)"

definition try_owner :: "root_world \<Rightarrow> nat option" where
  "try_owner w =
     (case read_registration w of
        Some r \<Rightarrow> (if hr_state r \<noteq> State_Draining then host_connect w else None)
      | None \<Rightarrow> None)"

definition poll_backoff :: "nat \<Rightarrow> nat" where "poll_backoff k = min (20 * 2 ^ k) 250"

lemma poll_backoff_steps: "poll_backoff 0 = 20" "poll_backoff (Suc k) = min (2 * poll_backoff k) 250"
  by (simp_all add: poll_backoff_def min_def)

lemma poll_backoff_pos: "0 < poll_backoff k" "20 \<le> poll_backoff k"
  using one_le_power[of 2 k] by (simp_all add: poll_backoff_def)

text \<open>
  \<open>obs k\<close> is the root as the \<open>k\<close>th poll sees it, \<open>extra k\<close> the time the poll takes
  beyond its sleep.
\<close>

function poll_election ::
    "nat \<Rightarrow> (nat \<Rightarrow> root_world) \<Rightarrow> (nat \<Rightarrow> nat) \<Rightarrow> nat \<Rightarrow> nat \<Rightarrow> (nat, connect_error) result" where
  "poll_election deadline obs extra k elapsed =
     (let elapsed' = elapsed + poll_backoff k + extra k in
      case try_owner (obs k) of
        Some p \<Rightarrow> Ok p
      | None \<Rightarrow> (if deadline \<le> elapsed' then Err Connect_Timeout else poll_election deadline obs extra (Suc k) elapsed'))"
  by pat_completeness auto
termination
  apply (relation "measure (\<lambda>(deadline, _, _, _, elapsed). deadline - elapsed)")
   apply simp
  subgoal for deadline obs extra k elapsed using poll_backoff_pos(1)[of k] by auto
  done

declare poll_election.simps [simp del]

definition connect_or_spawn_with ::
    "nat \<Rightarrow> root_world \<Rightarrow> (nat \<Rightarrow> root_world) \<Rightarrow> (nat \<Rightarrow> nat) \<Rightarrow> (nat, connect_error) result" where
  "connect_or_spawn_with deadline w obs extra =
     (case try_owner w of Some p \<Rightarrow> Ok p | None \<Rightarrow> poll_election deadline obs extra 0 0)"

subsection \<open>One owner\<close>

lemma world_simps [simp]:
  "phase (set_phase p ph w) q = (if q = p then ph else phase w q)"
  "phase (set_connections p n w) q = phase w q"
  "phase (w\<lparr>rw_lock := l\<rparr>) q = phase w q" "phase (w\<lparr>rw_socket := s\<rparr>) q = phase w q"
  "phase (w\<lparr>rw_registration := r\<rparr>) q = phase w q"
  "rw_lock (set_phase p ph w) = rw_lock w" "rw_socket (set_phase p ph w) = rw_socket w"
  "rw_registration (set_phase p ph w) = rw_registration w"
  "rw_lock (set_connections p n w) = rw_lock w" "rw_socket (set_connections p n w) = rw_socket w"
  "rw_registration (set_connections p n w) = rw_registration w"
  by (simp_all add: phase_def set_phase_def set_connections_def)

lemma bind_socket_simps [simp]: "bind_socket p w = w\<lparr>rw_socket := Some p\<rparr>"
  by (simp add: bind_socket_def)

lemma remove_registration_simps [simp]:
  "phase (remove_registration e w) q = phase w q" "rw_lock (remove_registration e w) = rw_lock w"
  "rw_socket (remove_registration e w) = rw_socket w"
  "rw_registration (remove_registration e w) = rw_registration w \<or> rw_registration (remove_registration e w) = None"
  by (auto simp: remove_registration_def split: option.split)

lemma drop_ownership_simps [simp]:
  "phase (drop_ownership p w) q = phase w q" "rw_socket (drop_ownership p w) = rw_socket w"
  "rw_registration (drop_ownership p w) = rw_registration w"
  "rw_lock (drop_ownership p w) = (if rw_lock w = Some p then None else rw_lock w)"
  by (auto simp: drop_ownership_def)

lemma read_written:
  assumes "rw_registration w = Some (registration_json r)" and "i64_ok (hr_created_at r)"
  shows "read_registration w = Some r"
  using assms by (simp add: read_registration_def registration_round)

lemma remove_own_registration:
  assumes "rw_registration w = Some (registration_json r)" and "i64_ok (hr_created_at r)"
  shows "rw_registration (remove_registration (hr_host_epoch r) w) = None"
  using assms by (simp add: remove_registration_def read_written[OF assms])

definition owning :: "host_phase \<Rightarrow> bool" where "owning ph \<longleftrightarrow> ph \<in> {Ph_Owning, Ph_Serving, Ph_Draining}"

lemma owning_simps [simp]:
  "\<not> owning Ph_Absent" "\<not> owning Ph_Bound" "owning Ph_Owning" "owning Ph_Serving" "owning Ph_Draining" "\<not> owning Ph_Gone"
  by (simp_all add: owning_def)

definition root_inv :: "(nat \<Rightarrow> host_registration) \<Rightarrow> root_world \<Rightarrow> bool" where
  "root_inv reg w \<longleftrightarrow>
     (\<forall>p. owning (phase w p) \<longleftrightarrow> rw_lock w = Some p) \<and>
     (\<forall>p. phase w p \<in> {Ph_Serving, Ph_Draining} \<longrightarrow> rw_registration w = Some (registration_json (reg p))) \<and>
     (\<forall>p. rw_socket w = Some p \<longrightarrow> phase w p \<noteq> Ph_Absent)"

lemma root_invD:
  assumes "root_inv reg w"
  shows "owning (phase w p) \<longleftrightarrow> rw_lock w = Some p"
    "phase w p \<in> {Ph_Serving, Ph_Draining} \<Longrightarrow> rw_registration w = Some (registration_json (reg p))"
    "rw_socket w = Some p \<Longrightarrow> phase w p \<noteq> Ph_Absent"
  using assms by (auto simp: root_inv_def)

lemma root_inv_empty: "root_inv reg root_empty"
  by (simp add: root_inv_def root_empty_def phase_def)

lemma root_inv_connections: "root_inv reg (set_connections p n w) = root_inv reg w"
  by (simp add: root_inv_def)

lemma root_inv_sole:
  assumes "root_inv reg w" and "owning (phase w p)" and "q \<noteq> p"
  shows "\<not> owning (phase w q)" "phase w q \<noteq> Ph_Serving" "phase w q \<noteq> Ph_Draining"
proof -
  show "\<not> owning (phase w q)" using root_invD(1)[OF assms(1), of p] root_invD(1)[OF assms(1), of q] assms(2,3) by simp
  then show "phase w q \<noteq> Ph_Serving" "phase w q \<noteq> Ph_Draining" by auto
qed

text \<open>A change of one process that leaves or keeps the root.\<close>

lemma root_inv_gone:
  assumes "root_inv reg w" and "rw_lock w' = (if rw_lock w = Some p then None else rw_lock w)"
    and "\<And>q. phase w' q = (if q = p then Ph_Gone else phase w q)" and "rw_socket w' = rw_socket w"
    and "rw_registration w' = rw_registration w \<or> owning (phase w p)"
  shows "root_inv reg w'"
proof -
  have "owning (phase w' q) \<longleftrightarrow> rw_lock w' = Some q" for q
    using root_invD(1)[OF assms(1), of q] root_invD(1)[OF assms(1), of p] by (auto simp: assms(2,3))
  moreover have "rw_registration w' = Some (registration_json (reg q))" if "phase w' q \<in> {Ph_Serving, Ph_Draining}" for q
    using that root_invD(2)[OF assms(1), of q] root_inv_sole[OF assms(1), of p q] assms(3,5) by (auto split: if_splits)
  moreover have "phase w' q \<noteq> Ph_Absent" if "rw_socket w' = Some q" for q
    using that root_invD(3)[OF assms(1), of q] by (simp add: assms(3,4))
  ultimately show ?thesis by (simp add: root_inv_def)
qed

lemma root_inv_serving:
  assumes "root_inv reg w" and "phase w p = Ph_Serving"
  shows "root_inv reg (set_phase p Ph_Draining w)"
  using root_invD[OF assms(1)] assms(2) by (simp add: root_inv_def) (metis owning_simps(4))

lemma root_inv_step:
  assumes "host_step reg w w'" and "root_inv reg w"
  shows "root_inv reg w'"
  using assms(1)
proof cases
  case (step_bind p)
  then have "rw_lock w \<noteq> Some p" using root_invD(1)[OF assms(2), of p] by simp
  with step_bind root_invD[OF assms(2)] show ?thesis unfolding root_inv_def by (intro conjI allI impI) (auto split: if_splits)
next
  case (step_lose p v)
  then have "v = w" "\<not> owning (phase w p)" by (auto simp: try_acquire_def split: option.splits)
  with step_lose(1) assms(2) root_invD(1)[OF assms(2), of p] show ?thesis by (intro root_inv_gone[where p = p, OF assms(2)]) simp_all
next
  case (step_own p v)
  then have v: "v = w\<lparr>rw_lock := Some p\<rparr>" "rw_lock w = None" by (auto simp: try_acquire_def split: option.splits)
  then have "\<not> owning (phase w q)" for q using root_invD(1)[OF assms(2), of q] by simp
  then have "phase w q \<noteq> Ph_Serving \<and> phase w q \<noteq> Ph_Draining \<and> \<not> owning (phase w q)" for q
    using owning_simps(4,5) by metis
  with step_own(1) v root_invD[OF assms(2)] show ?thesis unfolding root_inv_def by (intro conjI allI impI) (auto split: if_splits)
next
  case (step_announce p)
  have o: "owning (phase w p)" using step_announce(2) by simp
  have lock: "rw_lock w = Some p" using root_invD(1)[OF assms(2), of p] o by simp
  with step_announce root_inv_sole(2,3)[OF assms(2) o] root_invD[OF assms(2)] show ?thesis
    unfolding root_inv_def write_registration_def by (intro conjI allI impI) (auto split: if_splits)
next
  case (step_leave p)
  with assms(2) show ?thesis by (intro root_inv_gone[where p = p, OF assms(2)]) simp_all
next
  case (step_killed p)
  with assms(2) show ?thesis by (intro root_inv_gone[where p = p, OF assms(2)]) simp_all
next
  case (step_idle p)
  then have "phase w p = Ph_Serving" by (simp add: is_idle_def phase_def)
  with step_idle(1) root_inv_serving[OF assms(2)] show ?thesis by simp
next
  case (step_signal p)
  with root_inv_serving[OF assms(2)] show ?thesis by simp
qed (simp_all add: root_inv_connections assms(2))

lemma host_reach_inv: "host_reach reg w \<Longrightarrow> root_inv reg w"
  by (induction rule: rtranclp_induct) (auto intro: root_inv_empty root_inv_step)

lemma host_step_reach: "host_reach reg w \<Longrightarrow> (host_step reg)\<^sup>*\<^sup>* w w' \<Longrightarrow> host_reach reg w'"
  by (rule rtranclp_trans)

text \<open>A candidate that meets a free lock becomes the owner, whatever file it finds.\<close>

lemma candidate_serves:
  fixes reg :: "nat \<Rightarrow> host_registration"
  assumes "rw_lock w = None" and "phase w p = Ph_Absent"
  defines "w4 \<equiv> set_phase p Ph_Serving (write_registration (reg p)
     (set_phase p Ph_Owning ((set_phase p Ph_Bound (bind_socket p w))\<lparr>rw_lock := Some p\<rparr>)))"
  shows "(host_step reg)\<^sup>*\<^sup>* w w4" and "phase w4 p = Ph_Serving" and "rw_socket w4 = Some p"
    and "rw_registration w4 = Some (registration_json (reg p))"
proof -
  let ?w1 = "set_phase p Ph_Bound (bind_socket p w)"
  let ?w2 = "?w1\<lparr>rw_lock := Some p\<rparr>"
  have 1: "host_step reg w ?w1" using assms(2) by (rule step_bind)
  have 2: "host_step reg ?w1 (set_phase p Ph_Owning ?w2)"
    by (rule step_own) (simp_all add: try_acquire_def assms(1))
  have 3: "host_step reg (set_phase p Ph_Owning ?w2) w4" unfolding w4_def by (rule step_announce) simp
  show "(host_step reg)\<^sup>*\<^sup>* w w4" using 1 2 3 by (meson r_into_rtranclp rtranclp.rtrancl_into_rtrancl)
qed (simp_all add: w4_def write_registration_def)

lemma serving_found:
  assumes "phase w p = Ph_Serving" and "rw_socket w = Some p" and "rw_registration w = Some (registration_json r)"
    and "i64_ok (hr_created_at r)" and "hr_state r \<noteq> State_Draining"
  shows "try_owner w = Some p"
  using assms by (simp add: try_owner_def read_written[OF assms(3,4)] host_connect_def)


subsection \<open>The owner that cannot be reached\<close>

lemma stranded_step:
  assumes "host_step reg w w'" and "phase w p \<in> {Ph_Serving, Ph_Draining, Ph_Gone} \<and> rw_socket w \<noteq> Some p"
  shows "phase w' p \<in> {Ph_Serving, Ph_Draining, Ph_Gone} \<and> rw_socket w' \<noteq> Some p"
  using assms by cases (auto simp: try_acquire_def write_registration_def is_idle_def split: option.splits)

lemma stranded_steps:
  assumes "(host_step reg)\<^sup>*\<^sup>* w w'" and "phase w p \<in> {Ph_Serving, Ph_Draining, Ph_Gone} \<and> rw_socket w \<noteq> Some p"
  shows "phase w' p \<in> {Ph_Serving, Ph_Draining, Ph_Gone} \<and> rw_socket w' \<noteq> Some p"
  using assms by (induction rule: rtranclp_induct) (auto dest: stranded_step)

lemma no_owner_polls: "\<forall>k. try_owner (obs k) = None \<Longrightarrow> poll_election deadline obs extra k elapsed = Err Connect_Timeout"
  by (induction deadline obs extra k elapsed rule: poll_election.induct) (subst poll_election.simps, simp add: Let_def)

text \<open>
  C29. A host binds the socket before it tries for the lock, and binding removes the file
  that is there.  So any candidate that starts while a host serves takes the endpoint away from
  it and then leaves: from then on, as long as that host serves, it holds the lock and its
  record is ready, yet no client can connect to anything, and every election times out.
\<close>

theorem owner_loses_endpoint:
  assumes "host_reach reg w" and "phase w p = Ph_Serving" and "phase w q = Ph_Absent"
    and "\<forall>p. i64_ok (hr_created_at (reg p)) \<and> hr_state (reg p) = State_Ready"
  shows "\<exists>w'. (host_step reg)\<^sup>*\<^sup>* w w' \<and> phase w' q = Ph_Gone \<and> phase w' p = Ph_Serving \<and>
    (\<forall>w''. (host_step reg)\<^sup>*\<^sup>* w' w'' \<and> phase w'' p = Ph_Serving \<longrightarrow>
       rw_lock w'' = Some p \<and> read_registration w'' = Some (reg p) \<and> try_owner w'' = None) \<and>
    (\<forall>obs extra deadline. (\<forall>k. (host_step reg)\<^sup>*\<^sup>* w' (obs k) \<and> phase (obs k) p = Ph_Serving) \<longrightarrow>
       connect_or_spawn_with deadline w' obs extra = Err Connect_Timeout)"
proof -
  let ?w1 = "set_phase q Ph_Bound (bind_socket q w)"
  let ?w2 = "set_phase q Ph_Gone ?w1"
  have pq: "p \<noteq> q" using assms(2,3) by auto
  have lock: "rw_lock w = Some p" using root_invD(1)[OF host_reach_inv[OF assms(1)], of p] assms(2) by simp
  have 1: "host_step reg w ?w1" using assms(3) by (rule step_bind)
  have 2: "host_step reg ?w1 ?w2" by (rule step_lose) (simp_all add: try_acquire_def lock)
  have steps: "(host_step reg)\<^sup>*\<^sup>* w ?w2" using 1 2 by (meson r_into_rtranclp rtranclp.rtrancl_into_rtrancl)
  have lost: "rw_lock v = Some p \<and> read_registration v = Some (reg p) \<and> try_owner v = None"
    if "(host_step reg)\<^sup>*\<^sup>* ?w2 v" "phase v p = Ph_Serving" for v
  proof -
    have "host_reach reg v" using assms(1) steps that(1) by (meson rtranclp_trans)
    note vi = root_invD[OF host_reach_inv[OF this]]
    have l: "rw_lock v = Some p" using vi(1)[of p] that(2) by simp
    have "read_registration v = Some (reg p)" using vi(2)[of p] that(2) assms(4) by (simp add: read_written)
    moreover have "host_connect v = None"
    proof (cases "rw_socket v")
      case (Some r)
      have "r \<noteq> p" using stranded_steps[OF that(1), of p] assms(2) pq Some by auto
      then have "phase v r \<noteq> Ph_Serving" using vi(1)[of r] l by auto
      with Some show ?thesis by (simp add: host_connect_def)
    qed (simp add: host_connect_def)
    ultimately show ?thesis using l assms(4) by (simp add: try_owner_def)
  qed
  have "connect_or_spawn_with deadline ?w2 obs extra = Err Connect_Timeout"
    if "\<forall>k. (host_step reg)\<^sup>*\<^sup>* ?w2 (obs k) \<and> phase (obs k) p = Ph_Serving" for obs extra deadline
  proof -
    have "\<forall>k. try_owner (obs k) = None" using lost that by blast
    moreover have "try_owner ?w2 = None" using lost[of ?w2] pq assms(2) by simp
    ultimately show ?thesis by (simp add: connect_or_spawn_with_def no_owner_polls)
  qed
  then show ?thesis using steps lost pq assms(2) by (intro exI[of _ ?w2]) simp
qed

subsection \<open>How an election ends\<close>

definition elapsed_after :: "(nat \<Rightarrow> nat) \<Rightarrow> nat \<Rightarrow> nat" where
  "elapsed_after extra k = (\<Sum>i \<le> k. poll_backoff i + extra i)"

lemma elapsed_after_ge: "20 * Suc k \<le> elapsed_after extra k"
proof (induction k)
  case 0
  then show ?case using poll_backoff_pos(2)[of 0] by (simp add: elapsed_after_def)
next
  case (Suc k)
  then show ?case using poll_backoff_pos(2)[of "Suc k"] by (simp add: elapsed_after_def)
qed

text \<open>The polls from the \<open>k\<close>th on: the first that finds an owner, unless the time is up before.\<close>

lemma poll_election_spec:
  assumes "elapsed = (if k = 0 then 0 else elapsed_after extra (k - 1))"
  shows "\<exists>n \<ge> k. (\<forall>i. k \<le> i \<and> i < n \<longrightarrow> try_owner (obs i) = None \<and> elapsed_after extra i < deadline) \<and>
    (case poll_election deadline obs extra k elapsed of
       Ok p \<Rightarrow> try_owner (obs n) = Some p
     | Err e \<Rightarrow> e = Connect_Timeout \<and> try_owner (obs n) = None \<and> deadline \<le> elapsed_after extra n)"
  using assms
proof (induction deadline obs extra k elapsed rule: poll_election.induct)
  case (1 deadline obs extra k elapsed)
  have el: "elapsed + poll_backoff k + extra k = elapsed_after extra k"
    using "1.prems" by (cases k) (simp_all add: elapsed_after_def)
  show ?case
  proof (cases "try_owner (obs k) = None \<and> \<not> deadline \<le> elapsed_after extra k")
    case True
    with "1.IH"[OF refl] el obtain n where n: "n \<ge> Suc k"
      "\<forall>i. Suc k \<le> i \<and> i < n \<longrightarrow> try_owner (obs i) = None \<and> elapsed_after extra i < deadline"
      "case poll_election deadline obs extra (Suc k) (elapsed_after extra k) of
         Ok p \<Rightarrow> try_owner (obs n) = Some p
       | Err e \<Rightarrow> e = Connect_Timeout \<and> try_owner (obs n) = None \<and> deadline \<le> elapsed_after extra n"
      by auto
    have "poll_election deadline obs extra k elapsed = poll_election deadline obs extra (Suc k) (elapsed_after extra k)"
      using True el by (subst poll_election.simps) (simp add: Let_def)
    moreover have "try_owner (obs i) = None \<and> elapsed_after extra i < deadline" if "k \<le> i \<and> i < n" for i
      using True n(2) that by (cases "i = k") auto
    ultimately show ?thesis using n(1,3) by (intro exI[of _ n]) auto
  next
    case False
    then show ?thesis
      using el by (intro exI[of _ k]) (subst poll_election.simps, auto simp: Let_def split: option.split)
  qed
qed

text \<open>
  C30. Every election ends: it connects to the first owner a poll finds, and it times out only
  after the deadline, when no poll has found one; it polls at most once per 20 milliseconds of
  its deadline.
\<close>

theorem election_ends:
  "\<exists>n. n \<le> deadline div 20 \<and> (\<forall>i < n. try_owner (obs i) = None \<and> elapsed_after extra i < deadline) \<and>
    (case connect_or_spawn_with deadline w obs extra of
       Ok p \<Rightarrow> try_owner w = Some p \<or> try_owner w = None \<and> try_owner (obs n) = Some p
     | Err e \<Rightarrow> e = Connect_Timeout \<and> try_owner w = None \<and> try_owner (obs n) = None \<and> deadline \<le> elapsed_after extra n)"
proof -
  obtain n where n: "\<forall>i < n. try_owner (obs i) = None \<and> elapsed_after extra i < deadline"
    "case poll_election deadline obs extra 0 0 of
       Ok p \<Rightarrow> try_owner (obs n) = Some p
     | Err e \<Rightarrow> e = Connect_Timeout \<and> try_owner (obs n) = None \<and> deadline \<le> elapsed_after extra n"
    using poll_election_spec[of 0 0 extra obs deadline] by auto
  have "n \<le> deadline div 20"
  proof (cases n)
    case (Suc m)
    with n(1) have "elapsed_after extra m < deadline" by simp
    then have "20 * Suc m < deadline" using elapsed_after_ge[of m extra] by linarith
    then show ?thesis unfolding Suc by (simp add: less_eq_div_iff_mult_less_eq)
  qed simp
  show ?thesis
  proof (cases "try_owner w")
    case None
    with n \<open>n \<le> deadline div 20\<close> show ?thesis
      by (intro exI[of _ n]) (simp add: connect_or_spawn_with_def split: sum.splits)
  qed (auto simp: connect_or_spawn_with_def intro: exI[of _ 0])
qed

subsection \<open>Witnesses\<close>

definition sample_reg :: "nat \<Rightarrow> host_registration" where
  "sample_reg p = registration_new ''/root'' (show_nat p) ''/root/host.sock'' State_Ready 1 0"

lemma sample_reg_ok: "\<forall>p. i64_ok (hr_created_at (sample_reg p)) \<and> hr_state (sample_reg p) = State_Ready"
  by (simp add: sample_reg_def registration_new_def i64_ok_def)

lemma empty_free: "rw_lock root_empty = None" "phase root_empty p = Ph_Absent"
  by (simp_all add: root_empty_def phase_def)

lemma first_host: "\<exists>w. host_reach sample_reg w \<and> phase w 0 = Ph_Serving \<and> phase w 1 = Ph_Absent"
proof -
  note cs = candidate_serves[where w = root_empty and p = 0 and reg = sample_reg, OF empty_free]
  from cs(1,2) show ?thesis using empty_free(2)[of 1]
    by (intro exI[of _ "set_phase 0 Ph_Serving (write_registration (sample_reg 0) (set_phase 0 Ph_Owning
      ((set_phase 0 Ph_Bound (bind_socket 0 root_empty))\<lparr>rw_lock := Some 0\<rparr>)))"]) (simp add: write_registration_def)
qed


theorem owner_loses_endpoint_witness:
  "\<exists>w. host_reach sample_reg w \<and> phase w 0 = Ph_Serving \<and> rw_lock w = Some 0 \<and> try_owner w = None"
proof -
  obtain w where w: "host_reach sample_reg w" "phase w 0 = Ph_Serving" "phase w 1 = Ph_Absent" using first_host by blast
  obtain w' where "(host_step sample_reg)\<^sup>*\<^sup>* w w'" "phase w' 0 = Ph_Serving"
    "\<forall>w''. (host_step sample_reg)\<^sup>*\<^sup>* w' w'' \<and> phase w'' 0 = Ph_Serving \<longrightarrow>
       rw_lock w'' = Some 0 \<and> read_registration w'' = Some (sample_reg 0) \<and> try_owner w'' = None"
    using owner_loses_endpoint[OF w sample_reg_ok] by (elim exE conjE)
  then show ?thesis using w(1) by (meson rtranclp.rtrancl_refl rtranclp_trans)
qed

theorem election_ends_witness:
  "connect_or_spawn_with 100 root_empty (\<lambda>_. root_empty) (\<lambda>_. 0) = Err Connect_Timeout"
proof -
  have none: "try_owner root_empty = None" by (simp add: try_owner_def read_registration_def root_empty_def)
  show ?thesis
  proof (cases "connect_or_spawn_with 100 root_empty (\<lambda>_. root_empty) (\<lambda>_. 0)")
    case (Inl e)
    with election_ends[of 100 "\<lambda>_. root_empty" "\<lambda>_. 0" root_empty] show ?thesis by (elim exE conjE) simp
  next
    case (Inr p)
    with election_ends[of 100 "\<lambda>_. root_empty" "\<lambda>_. 0" root_empty] none show ?thesis by (elim exE conjE) simp
  qed
qed

end
