(* ===== verification/Client.thy ===== *)
theory Client
  imports Connection
begin

text \<open>
  The client side: the connection of a client
  (\<^verbatim>\<open>meepo-host/src/client/connection.rs\<close>) and the turn of the chat command that
  drives it (\<^verbatim>\<open>meepo-cli/src/main.rs\<close>, \<^verbatim>\<open>run_chat\<close>).

  A client's reader is the list of what it will yield: values and framing faults; its end is the
  host's leaving, or, for the chat, the end of the time it waits.  Writing does not fail.  The
  ids of requests are \<open>uuid\<close> of a counter.  What is printed is the turn's text; prompts, statuses
  and line ends go to the terminal beside it.
\<close>

datatype client_error =
  CE_Io string
| CE_Closed
| CE_Framing protocol_error
| CE_Protocol protocol_error
| CE_Handshake string
| CE_Operation string op_error_code string

record host_client =
  cl_in :: "(json, protocol_error) result list"
  cl_out :: "json list"
  cl_streamed :: "json list"
  cl_ids :: nat

definition client_connect ::
    "string \<Rightarrow> (json, protocol_error) result list \<Rightarrow> (host_client \<times> string, client_error) result" where
  "client_connect client_id frames =
     (let hello = hello_json (hello_new client_id Surface_Run PROTOCOL_MIN PROTOCOL_MAX COMPATIBILITY_EPOCH) in
      case frames of
        [] \<Rightarrow> Err CE_Closed
      | Err e # rest \<Rightarrow> Err (CE_Framing e)
      | Ok v # rest \<Rightarrow>
          (case decode_host_frame v of
             Err e \<Rightarrow> Err (CE_Protocol e)
           | Ok (HF_Accepted a) \<Rightarrow> Ok (\<lparr>cl_in = rest, cl_out = [hello], cl_streamed = [], cl_ids = 0\<rparr>, ac_host_epoch a)
           | Ok (HF_Draining _) \<Rightarrow> Err (CE_Handshake ''host draining'')
           | Ok (HF_Incompatible _) \<Rightarrow> Err (CE_Handshake ''protocol incompatible'')
           | Ok _ \<Rightarrow> Err (CE_Handshake ''unexpected handshake reply'')))"

definition response_result :: "string \<Rightarrow> response_frame \<Rightarrow> (json, client_error) result" where
  "response_result operation r =
     (if rs_ok r then
        (case rs_result r of Some v \<Rightarrow> Ok v | None \<Rightarrow> Err (CE_Handshake ''ok response without result''))
      else
        (let e = unwrap_or (operation_error_new InternalFailure ''no error payload'') (rs_error r)
         in Err (CE_Operation operation (oe_code e) (oe_message e))))"

text \<open>The wait for the response of \<open>rid\<close>: its result, the subscription frames skipped, what is left.\<close>

fun await_response ::
    "string \<Rightarrow> string \<Rightarrow> json list \<Rightarrow> (json, protocol_error) result list \<Rightarrow>
     (json, client_error) result \<times> json list \<times> (json, protocol_error) result list" where
  "await_response rid operation streamed [] = (Err CE_Closed, streamed, [])"
| "await_response rid operation streamed (Err e # rest) = (Err (CE_Framing e), streamed, rest)"
| "await_response rid operation streamed (Ok v # rest) =
     (case decode_host_frame v of
        Err e \<Rightarrow> (Err (CE_Protocol e), streamed, rest)
      | Ok (HF_Response r) \<Rightarrow>
          (if rs_request_id r = rid then (response_result operation r, streamed, rest)
           else await_response rid operation streamed rest)
      | Ok (HF_Subscription sub) \<Rightarrow> await_response rid operation (streamed @ [sub]) rest
      | Ok _ \<Rightarrow> await_response rid operation streamed rest)"

definition client_request ::
    "(nat \<Rightarrow> string) \<Rightarrow> string \<Rightarrow> json \<Rightarrow> host_client \<Rightarrow> (json, client_error) result \<times> host_client" where
  "client_request uuid operation input c =
     (let rid = uuid (cl_ids c);
          req = request_json \<lparr>rq_request_id = rid, rq_operation = operation, rq_input = input\<rparr>;
          (r, streamed, rest) = await_response rid operation (cl_streamed c) (cl_in c)
      in (r, c\<lparr>cl_in := rest, cl_out := cl_out c @ [req], cl_streamed := streamed, cl_ids := cl_ids c + 1\<rparr>))"

definition take_streamed :: "host_client \<Rightarrow> json list \<times> host_client" where
  "take_streamed c = (cl_streamed c, c\<lparr>cl_streamed := []\<rparr>)"

fun next_frame :: "(json, protocol_error) result list \<Rightarrow> json option \<times> (json, protocol_error) result list" where
  "next_frame [] = (None, [])"
| "next_frame (Err e # rest) = (None, rest)"
| "next_frame (Ok v # rest) =
     (case decode_host_frame v of Ok (HF_Subscription sub) \<Rightarrow> (Some sub, rest) | _ \<Rightarrow> next_frame rest)"

definition next_streamed :: "host_client \<Rightarrow> json option \<times> host_client" where
  "next_streamed c = (let (f, rest) = next_frame (cl_in c) in (f, c\<lparr>cl_in := rest\<rparr>))"

subsection \<open>A turn of the chat\<close>

record chat_log =
  cg_printed :: string
  cg_answers :: "(string \<times> bool) list"
  cg_status :: "string option"

definition chat_log_new :: chat_log where
  "chat_log_new = \<lparr>cg_printed = [], cg_answers = [], cg_status = None\<rparr>"

definition terminal_status :: "json \<Rightarrow> string option" where
  "terminal_status snap =
     (case pointer_str snap [''rootTurn'', ''status''] of
        Some s \<Rightarrow> (if s = ''completed'' \<or> s = ''failed'' \<or> s = ''aborted'' then Some s else None)
      | None \<Rightarrow> None)"

definition first_pending :: "json \<Rightarrow> json option" where
  "first_pending snap = (case json_get snap ''interactionsPending'' of Some (JArr (p # ps)) \<Rightarrow> Some p | _ \<Rightarrow> None)"

text \<open>\<open>says_yes\<close>: the line trimmed is \<open>y\<close> or \<open>Y\<close>; no line at all is a refusal.\<close>

definition says_yes :: "string list \<Rightarrow> bool" where
  "says_yes stdin = (case stdin of [] \<Rightarrow> False | line # _ \<Rightarrow> to_ascii_lowercase (str_trim line) = ''y'')"

definition answer_input :: "string \<Rightarrow> bool \<Rightarrow> json" where
  "answer_input interaction allow = JObj [(''answer'', JObj [(''decision'', JStr (if allow then ''allow'' else ''deny'')),
     (''rememberForTurn'', JBool False)]), (''interactionId'', JStr interaction)]"

lemma next_frame_shorter: "next_frame fs = (Some f, rest) \<Longrightarrow> length rest < length fs"
  by (induction fs rule: next_frame.induct) (auto split: sum.splits host_frame.splits)

lemma await_response_shorter: "await_response rid p st fs = (r, st', rest) \<Longrightarrow> length rest \<le> length fs"
  by (induction rid p st fs rule: await_response.induct) (auto split: sum.splits host_frame.splits if_splits)

lemma next_streamed_shorter: "next_streamed c = (Some f, c') \<Longrightarrow> length (cl_in c') < length (cl_in c)"
  by (auto simp: next_streamed_def dest: next_frame_shorter split: prod.splits)

lemma client_request_shorter: "client_request uuid p i c = (r, c') \<Longrightarrow> length (cl_in c') \<le> length (cl_in c)"
  by (auto simp: client_request_def Let_def dest: await_response_shorter split: prod.splits)

function (sequential) chat_drive ::
    "(nat \<Rightarrow> string) \<Rightarrow> chat_log \<Rightarrow> string list \<Rightarrow> host_client \<Rightarrow> chat_log \<times> string list \<times> host_client" where
  "chat_drive uuid log stdin c =
     (case next_streamed c of
        (None, c1) \<Rightarrow> (log, stdin, c1)
      | (Some frame, c1) \<Rightarrow>
          (if kind_of frame = Some ''subscription.session_delta'' then
             chat_drive uuid (log\<lparr>cg_printed := cg_printed log @ unwrap_or [] (get_str frame ''text'')\<rparr>) stdin c1
           else if kind_of frame = Some ''subscription.session_projection'' then
             (let snap = unwrap_or JNull (json_get frame ''snapshot'') in
              case first_pending snap of
                Some p \<Rightarrow>
                  (let interaction = unwrap_or [] (get_str p ''interactionId'');
                       allow = says_yes stdin
                   in case client_request uuid ''interaction.answer'' (answer_input interaction allow) c1 of
                        (_, c2) \<Rightarrow> chat_drive uuid (log\<lparr>cg_answers := cg_answers log @ [(interaction, allow)]\<rparr>) (tl stdin) c2)
              | None \<Rightarrow>
                  (case terminal_status snap of
                     Some status \<Rightarrow> (log\<lparr>cg_status := Some status\<rparr>, stdin, c1)
                   | None \<Rightarrow> chat_drive uuid log stdin c1))
           else chat_drive uuid log stdin c1))"
  by pat_completeness auto
termination
  by (relation "measure (\<lambda>(_, _, _, c). length (cl_in c))")
    (auto dest!: next_streamed_shorter[OF sym] client_request_shorter[OF sym])

declare chat_drive.simps [simp del]

definition chat_turn ::
    "(nat \<Rightarrow> string) \<Rightarrow> string \<Rightarrow> string \<Rightarrow> string list \<Rightarrow> host_client \<Rightarrow>
     (chat_log, client_error) result \<times> string list \<times> host_client" where
  "chat_turn uuid session_id line stdin c =
     (case client_request uuid ''turn.start'' (JObj [(''content'', JStr line), (''sessionId'', JStr session_id)]) c of
        (Err e, c1) \<Rightarrow> (Err e, stdin, c1)
      | (Ok _, c1) \<Rightarrow> (case chat_drive uuid chat_log_new stdin c1 of (log, stdin', c2) \<Rightarrow> (Ok log, stdin', c2)))"

subsection \<open>Requests and their responses\<close>

lemma decode_frame_json [simp]: "decode_host_frame (frame_json f) = Ok (HF_Subscription (frame_json f))"
  by (rule frame_is_subscription)

text \<open>The subscription frames among the host's frames, as values.\<close>

definition pushed :: "host_frame list \<Rightarrow> json list" where
  "pushed hs = List.map_filter (\<lambda>h. case h of HF_Subscription v \<Rightarrow> Some v | _ \<Rightarrow> None) hs"

lemma pushed_simps [simp]:
  "pushed [] = []"
  "pushed (h # hs) = (case h of HF_Subscription v \<Rightarrow> v # pushed hs | _ \<Rightarrow> pushed hs)"
  by (simp_all add: pushed_def List.map_filter_simps split: host_frame.split)

definition responds_to :: "string \<Rightarrow> host_frame \<Rightarrow> bool" where
  "responds_to rid h = (case h of HF_Response r \<Rightarrow> rs_request_id r = rid | _ \<Rightarrow> False)"

abbreviation sent_frames :: "host_frame list \<Rightarrow> (json, protocol_error) result list" where
  "sent_frames hs \<equiv> map (\<lambda>h. Ok (host_frame_json h)) hs"

lemma await_skips:
  assumes "list_all host_frame_ok hs" and "\<not> list_ex (responds_to rid) hs"
  shows "await_response rid p st (sent_frames hs @ fs) = await_response rid p (st @ pushed hs) fs"
  using assms
proof (induction hs arbitrary: st)
  case (Cons h hs)
  then have d: "decode_host_frame (host_frame_json h) = Ok h" by (intro host_round) simp
  from Cons show ?case
    by (simp add: d responds_to_def[of rid h] del: host_frame_json.simps host_frame_ok.simps split: host_frame.splits)
qed simp

lemma response_ok_fields: "rs_ok (response_ok i p v)" "rs_request_id (response_ok i p v) = i"
  by (simp_all add: response_ok_def)

text \<open>
  A request takes the response that carries its id, with every pushed frame before it kept
  in order and everything after it left unread; the result is the host's, save that an
  answer of null is reported as a failed handshake.
\<close>

lemma request_takes_its_response:
  assumes "list_all host_frame_ok hs" and "\<not> list_ex (responds_to (uuid (cl_ids c))) hs"
    and "cl_in c = sent_frames hs @ Ok (response_json (outcome_response req res)) # rest"
    and "rq_request_id req = uuid (cl_ids c)" and "rq_operation req = operation"
  shows "\<exists>r c'. client_request uuid operation input c = (r, c') \<and>
    cl_in c' = rest \<and> cl_streamed c' = cl_streamed c @ pushed hs \<and>
    cl_out c' = cl_out c @ [request_json \<lparr>rq_request_id = uuid (cl_ids c), rq_operation = operation, rq_input = input\<rparr>] \<and>
    (case res of
       Outcome_Ok v \<Rightarrow> r = (if v = JNull then Err (CE_Handshake ''ok response without result'') else Ok v)
     | Outcome_Err code msg \<Rightarrow> r = Err (CE_Operation operation code (oe_message (operation_error_new code msg))))"
proof -
  define resp where "resp = outcome_response req res"
  have id: "rs_request_id resp = uuid (cl_ids c)"
    by (simp add: resp_def outcome_response_def response_ok_def response_err_def assms(4) split: outcome.split)
  have a: "await_response (uuid (cl_ids c)) operation (cl_streamed c) (cl_in c) =
      await_response (uuid (cl_ids c)) operation (cl_streamed c @ pushed hs) (Ok (response_json resp) # rest)"
    using await_skips[OF assms(1,2)] assms(3) by (simp add: resp_def)
  have "\<exists>r. decode_host_frame (response_json resp) = Ok (HF_Response r) \<and> rs_request_id r = uuid (cl_ids c) \<and>
    response_result operation r = (case res of
       Outcome_Ok v \<Rightarrow> (if v = JNull then Err (CE_Handshake ''ok response without result'') else Ok v)
     | Outcome_Err code msg \<Rightarrow> Err (CE_Operation operation code (oe_message (operation_error_new code msg))))"
  proof (cases "res = Outcome_Ok JNull")
    case True
    then show ?thesis
      using null_result_is_lost id by (auto simp: resp_def outcome_response_def response_result_def response_ok_fields)
  next
    case False
    then have "host_frame_ok (HF_Response resp)"
      by (auto simp: resp_def outcome_response_def response_ok_def response_err_def response_validate_def split: outcome.split)
    from host_round[OF this] have "decode_host_frame (response_json resp) = Ok (HF_Response resp)" by simp
    moreover have "oe_code (operation_error_new code m) = code" for code m by (simp add: operation_error_new_def Let_def)
    ultimately show ?thesis using False id
      by (auto simp: resp_def outcome_response_def response_result_def response_ok_def response_err_def Let_def split: outcome.split)
  qed
  then show ?thesis by (elim exE conjE) (simp add: client_request_def a Let_def split: outcome.split)
qed

subsection \<open>What a chat shows\<close>

fun shown_text :: "subscription_frame \<Rightarrow> string" where
  "shown_text (SF_SessionDelta _ _ _ _ _ _ _ _ body) = body"
| "shown_text _ = []"

fun frame_status :: "subscription_frame \<Rightarrow> string option" where
  "frame_status (SF_SessionProjection _ _ _ v) = terminal_status v"
| "frame_status _ = None"

fun frame_prompt :: "subscription_frame \<Rightarrow> json option" where
  "frame_prompt (SF_SessionProjection _ _ _ v) = first_pending v"
| "frame_prompt _ = None"

definition first_status :: "subscription_frame list \<Rightarrow> string option" where
  "first_status fs = (case List.map_filter frame_status fs of [] \<Rightarrow> None | s # _ \<Rightarrow> Some s)"

definition until_status :: "subscription_frame list \<Rightarrow> subscription_frame list" where
  "until_status fs = takeWhile (\<lambda>f. frame_status f = None) fs"

lemma status_simps [simp]:
  "first_status [] = None" "until_status [] = []"
  "first_status (f # fs) = (case frame_status f of Some s \<Rightarrow> Some s | None \<Rightarrow> first_status fs)"
  "until_status (f # fs) = (if frame_status f = None then f # until_status fs else [])"
  by (simp_all add: first_status_def until_status_def List.map_filter_simps split: option.split)

abbreviation pushes :: "subscription_frame list \<Rightarrow> (json, protocol_error) result list" where
  "pushes fs \<equiv> map (\<lambda>f. Ok (frame_json f)) fs"

lemma drive_one:
  assumes "cl_in c = Ok (frame_json f) # rest" and "frame_prompt f = None"
  shows "chat_drive uuid log stdin c =
    (case frame_status f of
       Some st \<Rightarrow> (log\<lparr>cg_status := Some st\<rparr>, stdin, c\<lparr>cl_in := rest\<rparr>)
     | None \<Rightarrow> chat_drive uuid (log\<lparr>cg_printed := cg_printed log @ shown_text f\<rparr>) stdin (c\<lparr>cl_in := rest\<rparr>))"
proof -
  have n: "next_streamed c = (Some (frame_json f), c\<lparr>cl_in := rest\<rparr>)"
    using assms(1) by (simp add: next_streamed_def del: frame_json.simps)
  have k: "kind_of (frame_json f) = Some (frame_kind f)" by (cases f) (simp_all add: kind_of_def get_str_def str_of_def)
  show ?thesis
    using assms(2) k by (subst chat_drive.simps, unfold n, cases f) (simp_all add: get_str_def str_of_def split: option.split)
qed

lemma drive_end: "cl_in c = [] \<Longrightarrow> chat_drive uuid log stdin c = (log, stdin, c)"
  by (subst chat_drive.simps) (simp add: next_streamed_def)

lemma drive_pushes:
  assumes "cl_in c = pushes fs" and "\<forall>f \<in> set fs. frame_prompt f = None" and "cg_status log = None"
  shows "\<exists>rest. chat_drive uuid log stdin c =
    (\<lparr>cg_printed = cg_printed log @ concat (map shown_text (until_status fs)), cg_answers = cg_answers log,
      cg_status = first_status fs\<rparr>, stdin, c\<lparr>cl_in := rest\<rparr>)"
  using assms
proof (induction fs arbitrary: log c)
  case Nil
  then show ?case by (intro exI[of _ "[]"]) (simp add: drive_end)
next
  case (Cons f fs)
  have step: "cl_in c = Ok (frame_json f) # pushes fs" "frame_prompt f = None" using Cons.prems by simp_all
  show ?case
  proof (cases "frame_status f")
    case None
    have "\<exists>rest. chat_drive uuid (log\<lparr>cg_printed := cg_printed log @ shown_text f\<rparr>) stdin (c\<lparr>cl_in := pushes fs\<rparr>) =
      (\<lparr>cg_printed = cg_printed log @ shown_text f @ concat (map shown_text (until_status fs)), cg_answers = cg_answers log,
        cg_status = first_status fs\<rparr>, stdin, c\<lparr>cl_in := rest\<rparr>)"
      using Cons.IH[of "c\<lparr>cl_in := pushes fs\<rparr>" "log\<lparr>cg_printed := cg_printed log @ shown_text f\<rparr>"] Cons.prems by simp
    with None show ?thesis by (simp add: drive_one[OF step])
  next
    case (Some st)
    with Cons.prems show ?thesis by (intro exI[of _ "pushes fs"]) (simp add: drive_one[OF step])
  qed
qed

lemma pushes_sent: "pushes fs = sent_frames (map (\<lambda>f. HF_Subscription (frame_json f)) fs)"
  by simp

lemma pushed_ok: "host_frame_ok (HF_Subscription (frame_json f))"
  using decoded_host_ok[OF frame_is_subscription] .

lemma pushed_early: "pushed (map (\<lambda>f. HF_Subscription (frame_json f)) fs) = map frame_json fs"
  by (induction fs) simp_all


subsection \<open>Witnesses\<close>

definition sample_text :: subscription_frame where
  "sample_text = SF_SessionDelta ''e'' ''sub'' 1 ''turn-1'' ''run-1'' ''m'' Delta_Text 0 ''hello''"

definition sample_done :: subscription_frame where
  "sample_done = SF_SessionProjection ''e'' ''sub'' 2 (JObj [(''rootTurn'', JObj [(''status'', JStr ''completed'')])])"

definition sample_client :: "subscription_frame list \<Rightarrow> subscription_frame list \<Rightarrow> host_client" where
  "sample_client early late = \<lparr>cl_in = pushes early @ Ok (response_json (response_ok (show_nat 0) ''turn.start'' (JObj []))) # pushes late,
     cl_out = [], cl_streamed = [], cl_ids = 0\<rparr>"

lemma sample_frames_simps: "frame_prompt sample_text = None" "frame_prompt sample_done = None" "shown_text sample_text = ''hello''"
  "frame_status sample_text = None" "frame_status sample_done = Some ''completed''"
  by (simp_all add: sample_text_def sample_done_def first_pending_def terminal_status_def pointer_str_def)


lemma request_takes_its_response_witness:
  "\<exists>c'. client_request show_nat ''turn.start'' (JObj []) (sample_client [sample_text] []) = (Ok (JObj []), c') \<and>
     cl_streamed c' = [frame_json sample_text]"
proof -
  let ?req = "\<lparr>rq_request_id = show_nat 0, rq_operation = ''turn.start'', rq_input = JNull\<rparr>"
  let ?hs = "[HF_Subscription (frame_json sample_text)]"
  have p3: "cl_in (sample_client [sample_text] []) = sent_frames ?hs @ Ok (response_json (outcome_response ?req (Outcome_Ok (JObj [])))) # []"
    by (simp add: sample_client_def outcome_response_def)
  have p1: "list_all host_frame_ok ?hs" by (simp only: list.pred_inject pushed_ok simp_thms)
  have p2: "\<not> list_ex (responds_to (show_nat (cl_ids (sample_client [sample_text] [])))) ?hs" by (simp add: responds_to_def)
  have p4: "rq_request_id ?req = show_nat (cl_ids (sample_client [sample_text] []))" "rq_operation ?req = ''turn.start''"
    by (simp_all add: sample_client_def)
  obtain r c' where "client_request show_nat ''turn.start'' (JObj []) (sample_client [sample_text] []) = (r, c')"
    "cl_streamed c' = cl_streamed (sample_client [sample_text] []) @ pushed ?hs" "r = Ok (JObj [])"
    using request_takes_its_response[where uuid = show_nat and c = "sample_client [sample_text] []" and hs = ?hs and req = ?req
        and res = "Outcome_Ok (JObj [])" and rest = "[]" and operation = "''turn.start''" and input = "JObj []", OF p1 p2 p3 p4]
    by auto
  then show ?thesis by (simp add: sample_client_def)
qed

end
