(* ===== verification/Sandbox.thy ===== *)
theory Sandbox
  imports Prelude
begin

text \<open>
  The sandbox (\<^verbatim>\<open>meepo-sandbox/src/profile.rs\<close>, \<^verbatim>\<open>manager.rs\<close>,
  \<^verbatim>\<open>macos.rs\<close>): profiles, the choice of a backend, and the macOS backend, which
  writes a policy text and the command line of \<^verbatim>\<open>sandbox-exec\<close>.

  A backend is a record of its methods; whether the macOS backend is available is the argument
  \<open>here\<close>.  What the operating system does with a policy is not modelled; what the text says is.
\<close>

subsection \<open>Profiles\<close>

datatype file_system_policy = FS_Restricted "string list" "string list" | FS_Unrestricted
datatype network_policy = Net_Denied | Net_Allowed
datatype permission_profile = Managed file_system_policy network_policy | Profile_Unrestricted | Profile_Disabled

record sandbox_path_context =
  pc_workspace_roots :: "string list"
  pc_tmpdir :: "string option"
  pc_runtime_readable_roots :: "string list"
  pc_runtime_writable_roots :: "string list"

definition path_context_default :: sandbox_path_context where
  "path_context_default = \<lparr>pc_workspace_roots = [], pc_tmpdir = None, pc_runtime_readable_roots = [],
     pc_runtime_writable_roots = []\<rparr>"

fun requires_sandbox :: "permission_profile \<Rightarrow> bool" where
  "requires_sandbox (Managed fs net) = ((case fs of FS_Restricted _ _ \<Rightarrow> True | FS_Unrestricted \<Rightarrow> False) \<or> net = Net_Denied)"
| "requires_sandbox _ = False"

definition workspace_managed_profile :: "string \<Rightarrow> permission_profile" where
  "workspace_managed_profile root = Managed (FS_Restricted [root] [root]) Net_Denied"

subsection \<open>The manager\<close>

datatype sandbox_type = Sandbox_None | MacosSeatbelt | Sandbox_Linux

record sandbox_command =
  sx_program :: string
  sx_args :: "string list"
  sx_cwd :: string
  sx_env :: "(string \<times> string) list"
  sx_profile :: permission_profile
  sx_path_context :: sandbox_path_context

record sandbox_exec_request =
  se_argv :: "string list"
  se_cwd :: string
  se_env :: "(string \<times> string) list"
  se_sandbox_type :: sandbox_type

datatype transform_result = Transformed sandbox_exec_request | Transform_Failed string string

record sandbox_backend =
  bk_sandbox_type :: sandbox_type
  bk_is_available :: bool
  bk_transform :: "sandbox_command \<Rightarrow> transform_result"

definition sandbox_transform :: "sandbox_backend list \<Rightarrow> sandbox_command \<Rightarrow> transform_result" where
  "sandbox_transform backends command =
     (if \<not> requires_sandbox (sx_profile command) then
        Transformed \<lparr>se_argv = sx_program command # sx_args command, se_cwd = sx_cwd command, se_env = sx_env command,
          se_sandbox_type = Sandbox_None\<rparr>
      else (case find bk_is_available backends of
              Some b \<Rightarrow> bk_transform b command
            | None \<Rightarrow> Transform_Failed ''backend_not_available'' ''Sandbox is required but no platform backend is available.''))"

subsection \<open>The macOS policy text\<close>

definition SANDBOX_EXEC :: string where "SANDBOX_EXEC = ''/usr/bin/sandbox-exec''"

abbreviation newline :: char where "newline \<equiv> CHR 0x0A"

definition text_lines :: "string list \<Rightarrow> string" where "text_lines ls = str_join [newline] ls"

definition BASE_POLICY :: string where
  "BASE_POLICY = text_lines [
     ''(version 1)'',
     ''(deny default)'',
     '''',
     ''(allow process*)'',
     ''(allow signal (target same-sandbox))'',
     ''(allow sysctl*)'',
     ''(allow file-read-metadata)'',
     ''(allow file-read*'',
     ''  (subpath \"/System\")'',
     ''  (subpath \"/usr\")'',
     ''  (subpath \"/bin\")'',
     ''  (subpath \"/sbin\")'',
     ''  (subpath \"/Library/Apple\")'',
     ''  (literal \"/dev/null\")'',
     ''  (literal \"/dev/zero\"))'']"

definition PLATFORM_DEFAULTS_POLICY :: string where
  "PLATFORM_DEFAULTS_POLICY = text_lines [
     ''; macOS platform defaults for launching standard system tools.'',
     ''(allow file-read* file-test-existence'',
     ''  (subpath \"/Library/Apple\")'',
     ''  (subpath \"/Library/Filesystems/NetFSPlugins\")'',
     ''  (subpath \"/Library/Preferences\")'',
     ''  (subpath \"/Library/Preferences/Logging\")'',
     ''  (subpath \"/private/var/db\")'',
     ''  (subpath \"/private/var/db/DarwinDirectory/local/recordStore.data\")'',
     ''  (subpath \"/private/var/db/timezone\")'',
     ''  (subpath \"/usr/lib\")'',
     ''  (subpath \"/usr/share\")'',
     ''  (subpath \"/var/db\"))'',
     '''',
     ''(allow file-map-executable'',
     ''  (subpath \"/Library/Apple/System/Library/Frameworks\")'',
     ''  (subpath \"/Library/Apple/System/Library/PrivateFrameworks\")'',
     ''  (subpath \"/Library/Apple/usr/lib\")'',
     ''  (subpath \"/System/Library/Extensions\")'',
     ''  (subpath \"/System/Library/Frameworks\")'',
     ''  (subpath \"/System/Library/PrivateFrameworks\")'',
     ''  (subpath \"/System/Library/SubFrameworks\")'',
     ''  (subpath \"/System/iOSSupport/System/Library/Frameworks\")'',
     ''  (subpath \"/System/iOSSupport/System/Library/PrivateFrameworks\")'',
     ''  (subpath \"/System/iOSSupport/System/Library/SubFrameworks\")'',
     ''  (subpath \"/usr/lib\"))'',
     '''',
     ''(allow file-read* file-test-existence'',
     ''  (subpath \"/Library/Apple/System/Library/Frameworks\")'',
     ''  (subpath \"/Library/Apple/System/Library/PrivateFrameworks\")'',
     ''  (subpath \"/Library/Apple/usr/lib\")'',
     ''  (subpath \"/System/Library/Frameworks\")'',
     ''  (subpath \"/System/Library/PrivateFrameworks\")'',
     ''  (subpath \"/System/Library/SubFrameworks\")'',
     ''  (subpath \"/System/iOSSupport/System/Library/Frameworks\")'',
     ''  (subpath \"/System/iOSSupport/System/Library/PrivateFrameworks\")'',
     ''  (subpath \"/System/iOSSupport/System/Library/SubFrameworks\")'',
     ''  (subpath \"/usr/lib\"))'',
     '''',
     ''(allow system-mac-syscall (mac-policy-name \"vnguard\"))'',
     ''(allow system-mac-syscall'',
     ''  (require-all'',
     ''    (mac-policy-name \"Sandbox\")'',
     ''    (mac-syscall-number 67)))'',
     '''',
     ''(allow file-read-metadata file-test-existence'',
     ''  (literal \"/etc\")'',
     ''  (literal \"/tmp\")'',
     ''  (literal \"/var\")'',
     ''  (literal \"/private/etc/localtime\"))'',
     '''',
     ''(allow file-read-metadata file-test-existence'',
     ''  (path-ancestors \"/System/Volumes/Data/private\"))'',
     '''',
     ''(allow file-read* file-test-existence'',
     ''  (literal \"/\"))'',
     '''',
     ''(allow system-fsctl (fsctl-command FSIOC_CAS_BSDFLAGS))'',
     '''',
     ''(allow file-read* file-test-existence'',
     ''  (literal \"/dev/autofs_nowait\")'',
     ''  (literal \"/dev/random\")'',
     ''  (literal \"/dev/urandom\")'',
     ''  (literal \"/private/etc/master.passwd\")'',
     ''  (literal \"/private/etc/passwd\")'',
     ''  (literal \"/private/etc/protocols\")'',
     ''  (literal \"/private/etc/services\"))'',
     '''',
     ''(allow file-read* file-test-existence file-write-data'',
     ''  (literal \"/dev/null\")'',
     ''  (literal \"/dev/zero\"))'',
     '''',
     ''(allow file-read-data file-test-existence file-write-data'',
     ''  (subpath \"/dev/fd\"))'',
     '''',
     ''(allow file-read* file-test-existence file-write-data file-ioctl'',
     ''  (literal \"/dev/dtracehelper\"))'',
     '''',
     ''(allow file-read* (subpath \"/etc\"))'',
     ''(allow file-read* (subpath \"/private/etc\"))'',
     '''',
     ''(allow file-read* file-test-existence'',
     ''  (literal \"/System/Library/CoreServices\")'',
     ''  (literal \"/System/Library/CoreServices/.SystemVersionPlatform.plist\")'',
     ''  (literal \"/System/Library/CoreServices/SystemVersion.plist\"))'',
     '''',
     ''(allow file-read-metadata (subpath \"/var\"))'',
     ''(allow file-read-metadata (subpath \"/private/var\"))'',
     '''',
     ''(allow mach-lookup'',
     ''  (global-name \"com.apple.analyticsd\")'',
     ''  (global-name \"com.apple.analyticsd.messagetracer\")'',
     ''  (global-name \"com.apple.appsleep\")'',
     ''  (global-name \"com.apple.bsd.dirhelper\")'',
     ''  (global-name \"com.apple.cfprefsd.agent\")'',
     ''  (global-name \"com.apple.cfprefsd.daemon\")'',
     ''  (global-name \"com.apple.diagnosticd\")'',
     ''  (global-name \"com.apple.dt.automationmode.reader\")'',
     ''  (global-name \"com.apple.espd\")'',
     ''  (global-name \"com.apple.logd\")'',
     ''  (global-name \"com.apple.logd.events\")'',
     ''  (global-name \"com.apple.runningboard\")'',
     ''  (global-name \"com.apple.secinitd\")'',
     ''  (global-name \"com.apple.system.DirectoryService.libinfo_v1\")'',
     ''  (global-name \"com.apple.system.logger\")'',
     ''  (global-name \"com.apple.system.notification_center\")'',
     ''  (global-name \"com.apple.system.opendirectoryd.membership\")'',
     ''  (global-name \"com.apple.trustd\")'',
     ''  (global-name \"com.apple.trustd.agent\")'',
     ''  (global-name \"com.apple.xpc.activity.unmanaged\")'',
     ''  (local-name \"com.apple.cfprefsd.agent\"))'',
     '''',
     ''(allow ipc-posix-shm-read*'',
     ''  (ipc-posix-name \"apple.shm.notification_center\"))'',
     '''',
     ''(allow file-read*'',
     ''  (literal \"/private/var/db/eligibilityd/eligibility.plist\"))'',
     '''',
     ''(allow mach-lookup (global-name \"com.apple.audio.audiohald\"))'',
     ''(allow mach-lookup (global-name \"com.apple.audio.AudioComponentRegistrar\"))'',
     '''',
     ''(allow file-read-data (subpath \"/bin\"))'',
     ''(allow file-read-metadata (subpath \"/bin\"))'',
     ''(allow file-read-data (subpath \"/sbin\"))'',
     ''(allow file-read-metadata (subpath \"/sbin\"))'',
     ''(allow file-read-data (subpath \"/usr/bin\"))'',
     ''(allow file-read-metadata (subpath \"/usr/bin\"))'',
     ''(allow file-read-data (subpath \"/usr/sbin\"))'',
     ''(allow file-read-metadata (subpath \"/usr/sbin\"))'',
     ''(allow file-read-data (subpath \"/usr/libexec\"))'',
     ''(allow file-read-metadata (subpath \"/usr/libexec\"))'',
     '''',
     ''(allow file-read* (subpath \"/opt/homebrew/lib\"))'',
     ''(allow file-read* (subpath \"/usr/local/lib\"))'',
     '''',
     ''(allow file-read* (regex \"^/dev/fd/(0|1|2)$\"))'',
     ''(allow file-write* (regex \"^/dev/fd/(1|2)$\"))'',
     ''(allow file-read* file-write* (literal \"/dev/null\"))'',
     ''(allow file-read* file-write* (literal \"/dev/tty\"))'',
     ''(allow file-read-metadata (literal \"/dev\"))'',
     ''(allow file-read-metadata (regex \"^/dev/.*$\"))'',
     ''(allow file-read-metadata (literal \"/dev/stdin\"))'',
     ''(allow file-read-metadata (literal \"/dev/stdout\"))'',
     ''(allow file-read-metadata (literal \"/dev/stderr\"))'',
     ''(allow file-read-metadata (regex \"^/dev/tty[^/]*$\"))'',
     ''(allow file-read-metadata (regex \"^/dev/pty[^/]*$\"))'',
     ''(allow file-read* file-write* (regex \"^/dev/ttys[0-9]+$\"))'',
     ''(allow file-read* file-write* (literal \"/dev/ptmx\"))'',
     ''(allow file-ioctl (regex \"^/dev/ttys[0-9]+$\"))'',
     '''',
     ''(allow file-read-metadata (literal \"/System/Volumes\") (vnode-type DIRECTORY))'',
     ''(allow file-read-metadata (literal \"/System/Volumes/Data\") (vnode-type DIRECTORY))'',
     ''(allow file-read-metadata (literal \"/System/Volumes/Data/Users\") (vnode-type DIRECTORY))'',
     '''',
     ''(allow file-read* (extension \"com.apple.app-sandbox.read\"))'',
     ''(allow file-read* file-write* (extension \"com.apple.app-sandbox.read-write\"))'']"

text \<open>A root is named in the text and bound to its path on the command line.\<close>

definition root_names :: "string \<Rightarrow> string list \<Rightarrow> string list" where
  "root_names stem roots = map (\<lambda>i. stem @ show_nat i) [0..<length roots]"

definition root_clause :: "string \<Rightarrow> string" where
  "root_clause name = ''  (subpath (param '' @ [CHR 0x22] @ name @ [CHR 0x22] @ ''))''"

definition allow_roots :: "string \<Rightarrow> string list \<Rightarrow> string" where
  "allow_roots head names = head @ [newline] @ text_lines (map root_clause names) @ '')''"

definition build_readable_roots :: "string list \<Rightarrow> string \<times> (string \<times> string) list" where
  "build_readable_roots readable =
     (if readable = [] then ([], [])
      else (let names = root_names ''READABLE_ROOT_'' readable
            in (allow_roots ''(allow file-read*'' names, zip names readable)))"

definition build_writable_roots :: "string list \<Rightarrow> string \<times> (string \<times> string) list" where
  "build_writable_roots writable =
     (if writable = [] then ([], [])
      else (let names = root_names ''WRITABLE_ROOT_'' writable
            in (allow_roots ''(allow file-write*'' names, zip names writable)))"

definition build_runtime_roots :: "sandbox_path_context \<Rightarrow> string \<times> (string \<times> string) list" where
  "build_runtime_roots ctx =
     (let rn = root_names ''RUNTIME_READABLE_ROOT_'' (pc_runtime_readable_roots ctx);
          wn = root_names ''RUNTIME_WRITABLE_ROOT_'' (pc_runtime_writable_roots ctx);
          sections = (if pc_runtime_readable_roots ctx = [] then [] else [allow_roots ''(allow file-read* file-test-existence'' rn]) @
                     (if pc_runtime_writable_roots ctx = [] then [] else [allow_roots ''(allow file-write*'' wn])
      in (str_join [newline, newline] sections, zip rn (pc_runtime_readable_roots ctx) @ zip wn (pc_runtime_writable_roots ctx)))"

fun build_network_policy :: "permission_profile \<Rightarrow> string" where
  "build_network_policy (Managed _ Net_Allowed) = ''(allow network*)''"
| "build_network_policy _ = ''(deny network*)''"

fun profile_roots :: "permission_profile \<Rightarrow> string list \<times> string list" where
  "profile_roots (Managed (FS_Restricted readable writable) _) = (readable, writable)"
| "profile_roots _ = ([], [])"

text \<open>\<^verbatim>\<open>dedup\<close> drops a root equal to the one before it.\<close>

definition readable_roots :: "permission_profile \<Rightarrow> sandbox_path_context \<Rightarrow> string list" where
  "readable_roots profile ctx = remdups_adj (fst (profile_roots profile) @ pc_workspace_roots ctx @
     (case pc_tmpdir ctx of None \<Rightarrow> [] | Some t \<Rightarrow> [t]))"

definition build_seatbelt_policy ::
    "permission_profile \<Rightarrow> sandbox_path_context \<Rightarrow> string \<times> (string \<times> string) list" where
  "build_seatbelt_policy profile ctx =
     (let (readable_policy, readable_params) = build_readable_roots (readable_roots profile ctx);
          (writable_policy, writable_params) = build_writable_roots (snd (profile_roots profile));
          (runtime_policy, runtime_params) = build_runtime_roots ctx;
          sections = [readable_policy, writable_policy, runtime_policy, build_network_policy profile];
          dynamic = str_join [newline, newline] (filter (\<lambda>s. s \<noteq> []) sections)
      in (BASE_POLICY @ [newline, newline] @ PLATFORM_DEFAULTS_POLICY @ [newline, newline] @ dynamic @ [newline],
          readable_params @ writable_params @ runtime_params))"

definition create_exec_args ::
    "permission_profile \<Rightarrow> sandbox_path_context \<Rightarrow> string \<Rightarrow> string list \<Rightarrow> string list" where
  "create_exec_args profile ctx program args =
     (let (policy, params) = build_seatbelt_policy profile ctx
      in [SANDBOX_EXEC, ''-p'', policy] @ map (\<lambda>(name, path). ''-D'' @ name @ ''='' @ path) params @ [''--'', program] @ args)"

fun macos_transform :: "sandbox_command \<Rightarrow> transform_result" where
  "macos_transform command =
     (case sx_profile command of
        Managed (FS_Restricted _ _) _ \<Rightarrow>
          Transformed \<lparr>se_argv = create_exec_args (sx_profile command) (sx_path_context command) (sx_program command) (sx_args command),
            se_cwd = sx_cwd command, se_env = sx_env command, se_sandbox_type = MacosSeatbelt\<rparr>
      | _ \<Rightarrow> Transform_Failed ''invalid_profile'' ''macOS Seatbelt backend only accepts managed restricted profiles.'')"

definition macos_backend :: "bool \<Rightarrow> sandbox_backend" where
  "macos_backend here = \<lparr>bk_sandbox_type = MacosSeatbelt, bk_is_available = here, bk_transform = macos_transform\<rparr>"

subsection \<open>What a backend promises\<close>

text \<open>
  A backend wraps a command or fails: what it returns runs under its own kind of
  enforcement, in the same directory and environment, and its command line ends with the
  separator and the command as it was.
\<close>

definition wraps :: "sandbox_command \<Rightarrow> string list \<Rightarrow> bool" where
  "wraps c argv \<longleftrightarrow> takeWhile (\<lambda>a. a \<noteq> ''--'') argv \<noteq> [] \<and> dropWhile (\<lambda>a. a \<noteq> ''--'') argv = ''--'' # sx_program c # sx_args c"

locale sandbox_contract =
  fixes transform :: "sandbox_command \<Rightarrow> transform_result" and sort :: sandbox_type
  assumes enforced: "sort \<noteq> Sandbox_None"
    and wrapped: "transform c = Transformed r \<Longrightarrow>
      se_sandbox_type r = sort \<and> se_cwd r = sx_cwd c \<and> se_env r = sx_env c \<and> wraps c (se_argv r)"
begin

lemma manager_confines:
  assumes "requires_sandbox (sx_profile c)" and "bk_transform b = transform"
  shows "sandbox_transform [b] c = Transformed r \<Longrightarrow>
    bk_is_available b \<and> se_sandbox_type r = sort \<and> sort \<noteq> Sandbox_None \<and> se_cwd r = sx_cwd c \<and> se_env r = sx_env c \<and> wraps c (se_argv r)"
  using assms enforced wrapped[of c r] by (auto simp: sandbox_transform_def split: if_splits)

end

lemma root_names_length [simp]: "length (root_names stem roots) = length roots"
  by (simp add: root_names_def)

lemma root_names_cong: "length roots = length roots' \<Longrightarrow> root_names stem roots = root_names stem roots'"
  by (simp add: root_names_def)

lemma root_names_distinct: "distinct (root_names stem roots)"
  by (simp add: root_names_def distinct_map inj_on_def)

lemma root_names_mem: "n \<in> set (root_names stem roots) \<Longrightarrow> \<exists>i. n = stem @ show_nat i"
  by (auto simp: root_names_def)

lemma policy_params:
  "snd (build_seatbelt_policy profile ctx) =
     zip (root_names ''READABLE_ROOT_'' (readable_roots profile ctx)) (readable_roots profile ctx)
     @ zip (root_names ''WRITABLE_ROOT_'' (snd (profile_roots profile))) (snd (profile_roots profile))
     @ zip (root_names ''RUNTIME_READABLE_ROOT_'' (pc_runtime_readable_roots ctx)) (pc_runtime_readable_roots ctx)
     @ zip (root_names ''RUNTIME_WRITABLE_ROOT_'' (pc_runtime_writable_roots ctx)) (pc_runtime_writable_roots ctx)"
  by (simp add: build_seatbelt_policy_def build_readable_roots_def build_writable_roots_def build_runtime_roots_def
      root_names_def Let_def)

lemma root_names_disjoint:
  assumes "\<And>i j. s @ show_nat i \<noteq> t @ show_nat j"
  shows "set (root_names s xs) \<inter> set (root_names t ys) = {}"
  using assms by (auto simp: root_names_def)

lemma params_distinct: "distinct (map fst (snd (build_seatbelt_policy profile ctx)))"
proof -
  have d: "set (root_names ''READABLE_ROOT_'' xs) \<inter> set (root_names ''WRITABLE_ROOT_'' ys) = {}"
    "set (root_names ''READABLE_ROOT_'' xs) \<inter> set (root_names ''RUNTIME_READABLE_ROOT_'' ys) = {}"
    "set (root_names ''READABLE_ROOT_'' xs) \<inter> set (root_names ''RUNTIME_WRITABLE_ROOT_'' ys) = {}"
    "set (root_names ''WRITABLE_ROOT_'' xs) \<inter> set (root_names ''RUNTIME_READABLE_ROOT_'' ys) = {}"
    "set (root_names ''WRITABLE_ROOT_'' xs) \<inter> set (root_names ''RUNTIME_WRITABLE_ROOT_'' ys) = {}"
    "set (root_names ''RUNTIME_READABLE_ROOT_'' xs) \<inter> set (root_names ''RUNTIME_WRITABLE_ROOT_'' ys) = {}" for xs ys
    by (rule root_names_disjoint, simp)+
  show ?thesis unfolding policy_params by (simp add: root_names_distinct d Int_Un_distrib del: disjoint_iff)
qed

lemma params_paths:
  "map snd (snd (build_seatbelt_policy profile ctx)) = readable_roots profile ctx @ snd (profile_roots profile)
     @ pc_runtime_readable_roots ctx @ pc_runtime_writable_roots ctx"
  by (simp add: policy_params)

lemma policy_text_shape:
  assumes "length (readable_roots p ctx) = length (readable_roots p' ctx')"
    and "length (snd (profile_roots p)) = length (snd (profile_roots p'))"
    and "length (pc_runtime_readable_roots ctx) = length (pc_runtime_readable_roots ctx')"
    and "length (pc_runtime_writable_roots ctx) = length (pc_runtime_writable_roots ctx')"
    and "build_network_policy p = build_network_policy p'"
  shows "fst (build_seatbelt_policy p ctx) = fst (build_seatbelt_policy p' ctx')"
proof -
  have nil: "(xs = []) = (ys = [])" if "length xs = length ys" for xs ys :: "string list" using that by auto
  have "fst (build_readable_roots (readable_roots p ctx)) = fst (build_readable_roots (readable_roots p' ctx'))"
    using assms(1) by (simp add: build_readable_roots_def Let_def root_names_def nil[OF assms(1)])
  moreover have "fst (build_writable_roots (snd (profile_roots p))) = fst (build_writable_roots (snd (profile_roots p')))"
    using assms(2) by (simp add: build_writable_roots_def Let_def root_names_def nil[OF assms(2)])
  moreover have "fst (build_runtime_roots ctx) = fst (build_runtime_roots ctx')"
    using assms(3,4) by (simp add: build_runtime_roots_def Let_def root_names_def nil[OF assms(3)] nil[OF assms(4)])
  ultimately show ?thesis using assms(5) by (simp add: build_seatbelt_policy_def Let_def split_beta)
qed

text \<open>A definition on the command line is read back: the name ends at the first equals sign.\<close>

definition read_definition :: "string \<Rightarrow> string \<times> string" where
  "read_definition arg = (let a = drop 2 arg in (takeWhile (\<lambda>c. c \<noteq> CHR ''='') a, drop 1 (dropWhile (\<lambda>c. c \<noteq> CHR ''='') a)))"

lemma read_definition_param:
  assumes "n \<in> set (root_names stem roots)" and "CHR ''='' \<notin> set stem"
  shows "read_definition (''-D'' @ n @ ''='' @ path) = (n, path)"
proof -
  obtain i where "n = stem @ show_nat i" using root_names_mem[OF assms(1)] by blast
  moreover have "CHR ''='' \<notin> set (show_nat i)" using show_nat_digits[of "CHR ''=''" i] by auto
  ultimately have "\<forall>c \<in> set n. c \<noteq> CHR ''=''" using assms(2) by auto
  then show ?thesis by (simp add: read_definition_def takeWhile_append2 dropWhile_append2)
qed

lemma read_definitions:
  "map read_definition (map (\<lambda>(name, path). ''-D'' @ name @ ''='' @ path) (snd (build_seatbelt_policy profile ctx))) =
     snd (build_seatbelt_policy profile ctx)"
proof -
  have "read_definition (''-D'' @ n @ ''='' @ path) = (n, path)" if "(n, path) \<in> set (snd (build_seatbelt_policy profile ctx))" for n path
    using that unfolding policy_params set_append
    by (elim UnE) (drule set_zip_leftD, erule read_definition_param, simp)+
  then show ?thesis unfolding map_map by (intro map_idI) (auto simp: split_beta)
qed

lemma split_at_mark:
  "\<forall>a \<in> set pre. a \<noteq> m \<Longrightarrow> takeWhile (\<lambda>a. a \<noteq> m) (pre @ m # rest) = pre \<and> dropWhile (\<lambda>a. a \<noteq> m) (pre @ m # rest) = m # rest"
  by (simp add: takeWhile_append2 dropWhile_append2)

lemma exec_args_wrap: "wraps c (create_exec_args profile ctx (sx_program c) (sx_args c))"
proof -
  let ?defs = "map (\<lambda>(name, path). ''-D'' @ name @ ''='' @ path) (snd (build_seatbelt_policy profile ctx))"
  let ?pre = "[SANDBOX_EXEC, ''-p'', fst (build_seatbelt_policy profile ctx)] @ ?defs"
  have body: "fst (build_seatbelt_policy profile ctx) \<noteq> ''--''"
  proof -
    have "prefix ''(version 1)'' BASE_POLICY" by (simp add: BASE_POLICY_def text_lines_def)
    then show ?thesis by (auto simp: build_seatbelt_policy_def Let_def split_beta prefix_def)
  qed
  have "\<forall>a \<in> set ?pre. a \<noteq> ''--''" using body by (auto simp: SANDBOX_EXEC_def)
  moreover have "create_exec_args profile ctx (sx_program c) (sx_args c) = ?pre @ ''--'' # sx_program c # sx_args c"
    by (simp add: create_exec_args_def split_beta)
  ultimately show ?thesis using split_at_mark[of ?pre "''--''" "sx_program c # sx_args c"] unfolding wraps_def by (metis append_is_Nil_conv list.distinct(1))
qed

interpretation macos: sandbox_contract macos_transform MacosSeatbelt
  by unfold_locales (auto simp: exec_args_wrap split: permission_profile.splits file_system_policy.splits)

lemma transform_macos:
  assumes "requires_sandbox (sx_profile c)"
  shows "sandbox_transform [macos_backend here] c = (if here then macos_transform c
     else Transform_Failed ''backend_not_available'' ''Sandbox is required but no platform backend is available.'')"
  using assms by (simp add: sandbox_transform_def macos_backend_def)

text \<open>
  C26. A command whose profile needs a sandbox never runs without one: it fails, or its command
  line is a wrapper that ends with the command as it was, in the same directory and environment.
  The wrapper's policy text depends on the number of roots and the network policy only, so no
  path can change what the policy says; the paths are bound on the command line, each to a name
  of its own, and are exactly the profile's roots, the workspace's and the runtime's.
\<close>

theorem sandbox_confines:
  assumes "requires_sandbox (sx_profile c)" and "sandbox_transform [macos_backend here] c = Transformed r"
  shows "here \<and> se_sandbox_type r \<noteq> Sandbox_None \<and> se_cwd r = sx_cwd c \<and> se_env r = sx_env c \<and> wraps c (se_argv r) \<and>
    (\<exists>reads writes net. sx_profile c = Managed (FS_Restricted reads writes) net \<and>
      (\<exists>text defs. se_argv r = [SANDBOX_EXEC, ''-p'', text] @ defs @ [''--'', sx_program c] @ sx_args c \<and>
        distinct (map (\<lambda>d. fst (read_definition d)) defs) \<and>
        map (\<lambda>d. snd (read_definition d)) defs =
          remdups_adj (reads @ pc_workspace_roots (sx_path_context c) @ (case pc_tmpdir (sx_path_context c) of None \<Rightarrow> [] | Some t \<Rightarrow> [t]))
          @ writes @ pc_runtime_readable_roots (sx_path_context c) @ pc_runtime_writable_roots (sx_path_context c) \<and>
        (\<forall>reads' writes' ctx'. length (readable_roots (Managed (FS_Restricted reads' writes') net) ctx') =
              length (readable_roots (sx_profile c) (sx_path_context c)) \<and> length writes' = length writes \<and>
            length (pc_runtime_readable_roots ctx') = length (pc_runtime_readable_roots (sx_path_context c)) \<and>
            length (pc_runtime_writable_roots ctx') = length (pc_runtime_writable_roots (sx_path_context c)) \<longrightarrow>
          fst (build_seatbelt_policy (Managed (FS_Restricted reads' writes') net) ctx') = text)))"
proof -
  let ?ctx = "sx_path_context c"
  have m: "bk_transform (macos_backend here) = macos_transform" by (simp add: macos_backend_def)
  note conf = macos.manager_confines[OF assms(1) m assms(2)]
  have t: "macos_transform c = Transformed r" using assms transform_macos[OF assms(1), of here] by (simp split: if_splits)
  then obtain reads writes net where p: "sx_profile c = Managed (FS_Restricted reads writes) net"
    by (auto split: permission_profile.splits file_system_policy.splits)
  let ?b = "build_seatbelt_policy (sx_profile c) ?ctx"
  let ?defs = "map (\<lambda>(name, path). ''-D'' @ name @ ''='' @ path) (snd ?b)"
  have argv: "se_argv r = [SANDBOX_EXEC, ''-p'', fst ?b] @ ?defs @ [''--'', sx_program c] @ sx_args c"
    using t p by (auto simp: create_exec_args_def split_beta)
  have "map (\<lambda>d. fst (read_definition d)) ds = map fst (map read_definition ds)"
    "map (\<lambda>d. snd (read_definition d)) ds = map snd (map read_definition ds)" for ds by simp_all
  note rd = this[of ?defs, unfolded read_definitions]
  have d: "distinct (map (\<lambda>d. fst (read_definition d)) ?defs)"
    "map (\<lambda>d. snd (read_definition d)) ?defs = remdups_adj (reads @ pc_workspace_roots ?ctx @ (case pc_tmpdir ?ctx of None \<Rightarrow> [] | Some t \<Rightarrow> [t]))
          @ writes @ pc_runtime_readable_roots ?ctx @ pc_runtime_writable_roots ?ctx"
    using params_distinct[of "sx_profile c" ?ctx] params_paths[of "sx_profile c" ?ctx] unfolding rd by (simp_all add: p readable_roots_def)
  have n: "build_network_policy (Managed f net) = build_network_policy (sx_profile c)" for f by (cases net) (simp_all add: p)
  have s: "fst (build_seatbelt_policy (Managed (FS_Restricted reads' writes') net) ctx') = fst ?b"
    if "length (readable_roots (Managed (FS_Restricted reads' writes') net) ctx') = length (readable_roots (sx_profile c) ?ctx)"
      "length writes' = length writes" "length (pc_runtime_readable_roots ctx') = length (pc_runtime_readable_roots ?ctx)"
      "length (pc_runtime_writable_roots ctx') = length (pc_runtime_writable_roots ?ctx)" for reads' writes' ctx'
    by (rule policy_text_shape) (use that n in \<open>simp_all add: p\<close>)
  have here: "here" using conf by (simp add: macos_backend_def)
  have s': "\<forall>reads' writes' ctx'. length (readable_roots (Managed (FS_Restricted reads' writes') net) ctx') =
              length (readable_roots (sx_profile c) ?ctx) \<and> length writes' = length writes \<and>
            length (pc_runtime_readable_roots ctx') = length (pc_runtime_readable_roots ?ctx) \<and>
            length (pc_runtime_writable_roots ctx') = length (pc_runtime_writable_roots ?ctx) \<longrightarrow>
          fst (build_seatbelt_policy (Managed (FS_Restricted reads' writes') net) ctx') = fst ?b" using s by blast
  have k: "se_sandbox_type r \<noteq> Sandbox_None" "se_cwd r = sx_cwd c" "se_env r = sx_env c" "wraps c (se_argv r)"
    using conf by auto
  show ?thesis
    by (rule conjI[OF here], rule conjI[OF k(1)], rule conjI[OF k(2)], rule conjI[OF k(3)], rule conjI[OF k(4)],
        rule exI[of _ reads], rule exI[of _ writes], rule exI[of _ net], rule conjI[OF p],
        rule exI[of _ "fst ?b"], rule exI[of _ ?defs], rule conjI[OF argv], rule conjI[OF d(1)], rule conjI[OF d(2)], rule s')
qed

definition sample_command :: sandbox_command where
  "sample_command = \<lparr>sx_program = ''sh'', sx_args = [''-c'', ''ls''], sx_cwd = ''/w'', sx_env = [],
     sx_profile = workspace_managed_profile ''/w'',
     sx_path_context = path_context_default\<lparr>pc_workspace_roots := [''/w''], pc_tmpdir := Some ''/tmp''\<rparr>\<rparr>"

theorem sandbox_confines_witness:
  "\<exists>r. sandbox_transform [macos_backend True] sample_command = Transformed r \<and>
     dropWhile (\<lambda>a. a \<noteq> ''--'') (se_argv r) = [''--'', ''sh'', ''-c'', ''ls''] \<and>
     sandbox_transform [macos_backend False] sample_command =
       Transform_Failed ''backend_not_available'' ''Sandbox is required but no platform backend is available.''"
proof -
  have q: "requires_sandbox (sx_profile sample_command)" by (simp add: sample_command_def workspace_managed_profile_def)
  obtain r where r: "sandbox_transform [macos_backend True] sample_command = Transformed r"
    using transform_macos[OF q, of True] by (simp add: sample_command_def workspace_managed_profile_def)
  from sandbox_confines[OF q r] have "wraps sample_command (se_argv r)" by blast
  then have "dropWhile (\<lambda>a. a \<noteq> ''--'') (se_argv r) = [''--'', ''sh'', ''-c'', ''ls'']" by (simp add: wraps_def sample_command_def)
  with r show ?thesis using transform_macos[OF q, of False] by simp
qed

end
