(* ===== verification/Tools.thy ===== *)
theory Tools
  imports Json Sandbox Utf8
begin

text \<open>
  The tools of the agent (\<^verbatim>\<open>meepo-tools/src/lib.rs\<close>, \<^verbatim>\<open>builtin.rs\<close>,
  \<^verbatim>\<open>extra.rs\<close>): the registry, and every tool but those of the web.

  A tool works on \<open>tool_world\<close>: the readable text files by path, what is typed at the terminal,
  and a log of the command lines started.  What the operating system and the libraries answer is
  the record \<open>tool_env\<close>: error texts, which paths can be written, directory listings and walks
  (with the path of an entry relative to the base), compiled patterns, the working directory,
  processes, and the order of a hash map.  A listing may end with an error.
\<close>

subsection \<open>Tools and their registry\<close>

datatype tool_error = Tool_NotFound string | Tool_BadArgs string | Tool_Io string | Tool_Other string

fun tool_error_text :: "tool_error \<Rightarrow> string" where
  "tool_error_text (Tool_NotFound n) = ''tool not found: '' @ n"
| "tool_error_text (Tool_BadArgs m) = ''bad arguments: '' @ m"
| "tool_error_text (Tool_Io m) = ''io error: '' @ m"
| "tool_error_text (Tool_Other m) = m"

record tool_world =
  tw_files :: "string \<Rightarrow> string option"
  tw_stdin :: "(string, string) result list"
  tw_started :: "string list list"

type_synonym tool_result = "(string, tool_error) result \<times> tool_world"

record tool =
  tl_name :: string
  tl_description :: string
  tl_parameters :: json
  tl_execute :: "json \<Rightarrow> tool_world \<Rightarrow> tool_result"

definition openai_function :: "tool \<Rightarrow> json" where
  "openai_function t = JObj [(''function'', JObj [(''description'', JStr (tl_description t)), (''name'', JStr (tl_name t)),
     (''parameters'', tl_parameters t)]), (''type'', JStr ''function'')]"

type_synonym tool_registry = "(string \<times> tool) list"

definition registry_new :: tool_registry where "registry_new = []"

definition register_tool :: "tool \<Rightarrow> tool_registry \<Rightarrow> tool_registry" where
  "register_tool t r = assoc_set (tl_name t) t r"

definition registry_execute :: "tool_registry \<Rightarrow> string \<Rightarrow> json \<Rightarrow> tool_world \<Rightarrow> tool_result" where
  "registry_execute r name args w =
     (case map_of r name of
        None \<Rightarrow> (Err (Tool_NotFound name), w)
      | Some t \<Rightarrow> tl_execute t args w)"

text \<open>The registry as the executor of a backend: errors as their text.\<close>

definition executor_execute :: "tool_registry \<Rightarrow> string \<Rightarrow> json \<Rightarrow> tool_world \<Rightarrow> (string, string) result \<times> tool_world" where
  "executor_execute r name args w =
     (case registry_execute r name args w of
        (Err e, w') \<Rightarrow> (Err (tool_error_text e), w')
      | (Ok s, w') \<Rightarrow> (Ok s, w'))"

definition openai_functions :: "(string list \<Rightarrow> string list) \<Rightarrow> tool_registry \<Rightarrow> json list" where
  "openai_functions order r = List.map_filter (\<lambda>k. map_option openai_function (map_of r k)) (order (map fst r))"

subsection \<open>What the tools rely on\<close>

datatype entry_kind = Entry_Dir | Entry_Symlink | Entry_Other

record walk_entry =
  we_path :: string
  we_rel :: string
  we_name :: string
  we_is_file :: bool

record process_output =
  po_stdout :: string
  po_stderr :: string
  po_code :: "int option"

record tool_env =
  te_os_error :: "string \<Rightarrow> string"
  te_can_write :: "string \<Rightarrow> bool"
  te_list_dir :: "string \<Rightarrow> ((string \<times> entry_kind) list \<times> string option) option"
  te_walk :: "string \<Rightarrow> walk_entry list"
  te_glob :: "string \<Rightarrow> (string \<Rightarrow> bool, string) result"
  te_regex :: "string \<Rightarrow> (string \<Rightarrow> bool, string) result"
  te_cwd :: string
  te_run :: "string list \<Rightarrow> (process_output, string) result"
  te_order :: "string list \<Rightarrow> string list"
  te_sandbox :: "sandbox_backend list option"

definition read_text :: "tool_env \<Rightarrow> string \<Rightarrow> tool_world \<Rightarrow> (string, tool_error) result" where
  "read_text env path w =
     (case tw_files w path of Some s \<Rightarrow> Ok s | None \<Rightarrow> Err (Tool_Io (path @ '': '' @ te_os_error env path)))"

definition write_text :: "tool_env \<Rightarrow> string \<Rightarrow> string \<Rightarrow> tool_world \<Rightarrow> (unit, tool_error) result \<times> tool_world" where
  "write_text env path content w =
     (if te_can_write env path then (Ok (), w\<lparr>tw_files := (tw_files w)(path \<mapsto> content)\<rparr>)
      else (Err (Tool_Io (path @ '': '' @ te_os_error env path)), w))"

definition need_str :: "json \<Rightarrow> string \<Rightarrow> string \<Rightarrow> (string \<Rightarrow> tool_world \<Rightarrow> tool_result) \<Rightarrow> tool_world \<Rightarrow> tool_result" where
  "need_str args k message f w = (case get_str args k of None \<Rightarrow> (Err (Tool_BadArgs message), w) | Some s \<Rightarrow> f s w)"

definition string_property :: json where "string_property = JObj [(''type'', JStr ''string'')]"

definition described :: "string \<Rightarrow> json" where
  "described d = JObj [(''description'', JStr d), (''type'', JStr ''string'')]"

definition object_schema :: "(string \<times> json) list \<Rightarrow> string list \<Rightarrow> json" where
  "object_schema props required = JObj [(''properties'', JObj props), (''required'', JArr (map JStr required)), (''type'', JStr ''object'')]"

definition in_quotes :: "string \<Rightarrow> string" where "in_quotes s = CHR 0x27 # s @ [CHR 0x27]"

subsection \<open>Reading and writing a file\<close>

definition read_file_execute :: "tool_env \<Rightarrow> json \<Rightarrow> tool_world \<Rightarrow> tool_result" where
  "read_file_execute env args =
     need_str args ''path'' (''missing or non-string '' @ in_quotes ''path'') (\<lambda>path w. (read_text env path w, w))"

definition read_file :: "tool_env \<Rightarrow> tool" where
  "read_file env = \<lparr>tl_name = ''read_file'', tl_description = ''Read the UTF-8 text content of a file at the given path.'',
     tl_parameters = object_schema [(''path'', described ''Absolute or relative path.'')] [''path''],
     tl_execute = read_file_execute env\<rparr>"

definition write_file_execute :: "tool_env \<Rightarrow> json \<Rightarrow> tool_world \<Rightarrow> tool_result" where
  "write_file_execute env args =
     need_str args ''path'' (''missing '' @ in_quotes ''path'') (\<lambda>path.
     need_str args ''content'' (''missing '' @ in_quotes ''content'') (\<lambda>content w.
       let n = length content in
       case write_text env path content w of
         (Err e, w') \<Rightarrow> (Err e, w')
       | (Ok _, w') \<Rightarrow> (Ok (''wrote '' @ show_nat n @ '' bytes to '' @ path), w')))"

definition write_file :: "tool_env \<Rightarrow> tool" where
  "write_file env = \<lparr>tl_name = ''write_file'',
     tl_description = ''Write UTF-8 text content to a file, creating or overwriting it.'',
     tl_parameters = object_schema [(''content'', string_property), (''path'', string_property)] [''path'', ''content''],
     tl_execute = write_file_execute env\<rparr>"

subsection \<open>Editing\<close>

text \<open>
  \<^verbatim>\<open>s.matches(p).count()\<close>: the matches from the left that do not overlap; the empty
  pattern matches at every character boundary.  \<^verbatim>\<open>s.replacen(p, t, 1)\<close> replaces the
  first of them.
\<close>

function occurrences :: "string \<Rightarrow> string \<Rightarrow> nat" where
  "occurrences p s =
     (if p = [] \<or> s = [] then 0
      else if prefix p s then 1 + occurrences p (drop (length p) s) else occurrences p (tl s))"
  by pat_completeness auto
termination by (relation "measure (\<lambda>(p, s). length s)") auto

declare occurrences.simps [simp del]

definition count_matches :: "string \<Rightarrow> string \<Rightarrow> nat" where
  "count_matches p s = (if p = [] then char_count s + 1 else occurrences p s)"

fun replace_first :: "string \<Rightarrow> string \<Rightarrow> string \<Rightarrow> string" where
  "replace_first p t [] = (if p = [] then t else [])"
| "replace_first p t (c # s) = (if prefix p (c # s) then t @ drop (length p) (c # s) else c # replace_first p t s)"

definition edit_execute :: "tool_env \<Rightarrow> json \<Rightarrow> tool_world \<Rightarrow> tool_result" where
  "edit_execute env args =
     need_str args ''path'' (''missing '' @ in_quotes ''path'') (\<lambda>path.
     need_str args ''old_string'' (''missing '' @ in_quotes ''old_string'') (\<lambda>old_string.
     need_str args ''new_string'' (''missing '' @ in_quotes ''new_string'') (\<lambda>new_string w.
       case read_text env path w of
         Err e \<Rightarrow> (Err e, w)
       | Ok content \<Rightarrow>
           (let n = count_matches old_string content in
            if n = 0 then (Err (Tool_Other ''old_string not found''), w)
            else if n = 1 then
              (case write_text env path (replace_first old_string new_string content) w of
                 (Err e, w') \<Rightarrow> (Err e, w')
               | (Ok _, w') \<Rightarrow> (Ok (''edited '' @ path), w'))
            else (Err (Tool_Other (''old_string matches '' @ show_nat n @ '' times; must be unique'')), w)))))"

definition edit :: "tool_env \<Rightarrow> tool" where
  "edit env = \<lparr>tl_name = ''edit'',
     tl_description = ''Replace exactly one occurrence of old_string with new_string in a file. Errors if old_string is absent or not unique.'',
     tl_parameters = object_schema [(''new_string'', string_property), (''old_string'', string_property), (''path'', string_property)]
       [''path'', ''old_string'', ''new_string''],
     tl_execute = edit_execute env\<rparr>"

subsection \<open>Editing many files\<close>

text \<open>An edit's path, old and new string.\<close>

type_synonym edit_request = "string \<times> string \<times> string"

fun parse_edits :: "json list \<Rightarrow> (edit_request list, tool_error) result" where
  "parse_edits [] = Ok []"
| "parse_edits (e # es) =
     (case get_str e ''path'' of
        None \<Rightarrow> Err (Tool_BadArgs (''each edit needs '' @ in_quotes ''path''))
      | Some path \<Rightarrow>
          (case get_str e ''old_string'' of
             None \<Rightarrow> Err (Tool_BadArgs (''each edit needs '' @ in_quotes ''old_string''))
           | Some old \<Rightarrow>
               (case get_str e ''new_string'' of
                  None \<Rightarrow> Err (Tool_BadArgs (''each edit needs '' @ in_quotes ''new_string''))
                | Some new \<Rightarrow> map_sum id (\<lambda>rs. (path, old, new) # rs) (parse_edits es))))"

definition edits_of :: "string \<Rightarrow> edit_request list \<Rightarrow> (string \<times> string) list" where
  "edits_of path es = map snd (filter (\<lambda>e. fst e = path) es)"

text \<open>The keys of the grouping, each once, in the order the hash map gives.\<close>

definition edit_paths :: "tool_env \<Rightarrow> edit_request list \<Rightarrow> string list" where
  "edit_paths env es = te_order env (remdups (map fst es))"

fun check_edits :: "string \<Rightarrow> (string \<times> string) list \<Rightarrow> nat \<Rightarrow> string \<Rightarrow> (unit, tool_error) result" where
  "check_edits path [] i current = Ok ()"
| "check_edits path ((old, new) # es) i current =
     (let n = count_matches old current in
      if n = 0 then Err (Tool_Other (path @ '' edit '' @ show_nat (i + 1) @ '': old_string not found''))
      else if n = 1 then check_edits path es (i + 1) (replace_first old ''PLACEHOLDER'' current)
      else Err (Tool_Other (path @ '' edit '' @ show_nat (i + 1) @ '': old_string matches '' @ show_nat n @ '' times'')))"

fun validate_paths :: "tool_env \<Rightarrow> edit_request list \<Rightarrow> string list \<Rightarrow> tool_world \<Rightarrow> ((string \<times> string) list, tool_error) result" where
  "validate_paths env es [] w = Ok []"
| "validate_paths env es (path # paths) w =
     (case read_text env path w of
        Err e \<Rightarrow> Err e
      | Ok content \<Rightarrow>
          (case check_edits path (edits_of path es) 0 content of
             Err e \<Rightarrow> Err e
           | Ok _ \<Rightarrow> map_sum id (\<lambda>cs. (path, content) # cs) (validate_paths env es paths w)))"

definition apply_edits :: "(string \<times> string) list \<Rightarrow> string \<Rightarrow> string" where
  "apply_edits es content = foldl (\<lambda>c (old, new). replace_first old new c) content es"

fun apply_paths :: "tool_env \<Rightarrow> edit_request list \<Rightarrow> (string \<times> string) list \<Rightarrow> tool_world \<Rightarrow> (unit, tool_error) result \<times> tool_world" where
  "apply_paths env es [] w = (Ok (), w)"
| "apply_paths env es ((path, content) # cs) w =
     (case write_text env path (apply_edits (edits_of path es) content) w of
        (Err e, w') \<Rightarrow> (Err e, w')
      | (Ok _, w') \<Rightarrow> apply_paths env es cs w')"

definition multi_edit_execute :: "tool_env \<Rightarrow> json \<Rightarrow> tool_world \<Rightarrow> tool_result" where
  "multi_edit_execute env args w =
     (case Option.bind (json_get args ''edits'') as_array of
        None \<Rightarrow> (Err (Tool_BadArgs (''missing '' @ in_quotes ''edits'' @ '' array'')), w)
      | Some [] \<Rightarrow> (Err (Tool_BadArgs ''edits must have 1+ items''), w)
      | Some js \<Rightarrow>
          (case parse_edits js of
             Err e \<Rightarrow> (Err e, w)
           | Ok es \<Rightarrow>
               (case validate_paths env es (edit_paths env es) w of
                  Err e \<Rightarrow> (Err e, w)
                | Ok contents \<Rightarrow>
                    (case apply_paths env es contents w of
                       (Err e, w') \<Rightarrow> (Err e, w')
                     | (Ok _, w') \<Rightarrow>
                         (Ok (''Applied '' @ show_nat (length js) @ '' edit(s) across '' @ show_nat (length contents) @ '' file(s).''), w')))))"

definition multi_edit :: "tool_env \<Rightarrow> tool" where
  "multi_edit env = \<lparr>tl_name = ''multi_edit'',
     tl_description = ''Apply multiple file edits in one call. All edits are validated before any write '' @ [CHR 0xE2, CHR 0x80, CHR 0x94] @
       '' if any edit fails, no files are changed. Each edit: {path, old_string, new_string}.'',
     tl_parameters = object_schema [(''edits'', JObj [(''items'', object_schema [(''new_string'', string_property),
        (''old_string'', string_property), (''path'', string_property)] [''path'', ''old_string'', ''new_string'']),
        (''type'', JStr ''array'')])] [''edits''],
     tl_execute = multi_edit_execute env\<rparr>"

subsection \<open>Asking the user\<close>

text \<open>\<^verbatim>\<open>parse::<usize>()\<close>: an optional plus, digits, a value of 64 bits.\<close>

fun digits_value :: "string \<Rightarrow> nat \<Rightarrow> nat option" where
  "digits_value [] acc = Some acc"
| "digits_value (c # cs) acc =
     (if 48 \<le> (of_char c :: nat) \<and> (of_char c :: nat) < 58 then digits_value cs (acc * 10 + (of_char c - 48)) else None)"

definition parse_usize :: "string \<Rightarrow> nat option" where
  "parse_usize s =
     (let ds = (case s of CHR ''+'' # r \<Rightarrow> r | _ \<Rightarrow> s) in
      if ds = [] then None
      else (case digits_value ds 0 of Some n \<Rightarrow> (if n < 2 ^ 64 then Some n else None) | None \<Rightarrow> None))"

definition read_stdin_line :: "tool_world \<Rightarrow> tool_result" where
  "read_stdin_line w =
     (case tw_stdin w of
        [] \<Rightarrow> (Ok [], w)
      | l # ls \<Rightarrow> ((case l of Ok s \<Rightarrow> Ok s | Err e \<Rightarrow> Err (Tool_Other (''stdin read: '' @ e))), w\<lparr>tw_stdin := ls\<rparr>))"

definition resolve_answer :: "json list \<Rightarrow> string \<Rightarrow> string" where
  "resolve_answer options answer =
     (case parse_usize (str_trim answer) of
        Some n \<Rightarrow> (if 1 \<le> n \<and> n \<le> length options then unwrap_or [] (as_str (options ! (n - 1))) else str_trim answer)
      | None \<Rightarrow> str_trim answer)"

fun ask_questions :: "json list \<Rightarrow> nat \<Rightarrow> string list \<Rightarrow> tool_world \<Rightarrow> tool_result" where
  "ask_questions [] i answers w = (Ok (str_join [CHR 0x0A] answers), w)"
| "ask_questions (q # qs) i answers w =
     (case Option.bind (json_get q ''options'') as_array of
        None \<Rightarrow> (Err (Tool_BadArgs (''each question needs '' @ in_quotes ''options'')), w)
      | Some options \<Rightarrow>
          (if length options < 2 then (Err (Tool_BadArgs ''each question needs 2+ options''), w)
           else
             (case read_stdin_line w of
                (Err e, w') \<Rightarrow> (Err e, w')
              | (Ok answer, w') \<Rightarrow>
                  (let line = ''Q'' @ show_nat (i + 1) @ '' ['' @ unwrap_or [] (get_str q ''header'') @ '']: '' @ resolve_answer options answer
                   in ask_questions qs (i + 1) (answers @ [line]) w'))))"

definition ask_user_question_execute :: "json \<Rightarrow> tool_world \<Rightarrow> tool_result" where
  "ask_user_question_execute args w =
     (case Option.bind (json_get args ''questions'') as_array of
        None \<Rightarrow> (Err (Tool_BadArgs (''missing '' @ in_quotes ''questions'' @ '' array'')), w)
      | Some qs \<Rightarrow>
          (if qs = [] \<or> 4 < length qs then (Err (Tool_BadArgs ''questions must have 1-4 items''), w)
           else ask_questions qs 0 [] w))"

definition at_most_sign :: string where "at_most_sign = [CHR 0xE2, CHR 0x89, CHR 0xA4]"

definition ask_user_question :: tool where
  "ask_user_question = \<lparr>tl_name = ''ask_user_question'',
     tl_description = ''Ask the user 1-4 structured questions with labeled options. Each question has a header ('' @ at_most_sign @
       ''12 chars), a question, and 2-4 options. Use when you need a decision or clarification before proceeding.'',
     tl_parameters = object_schema [(''questions'', JObj [
        (''items'', object_schema [(''header'', described (''Short label ('' @ at_most_sign @ ''12 chars).'')),
           (''options'', JObj [(''items'', string_property), (''maxItems'', JInt 4), (''minItems'', JInt 2), (''type'', JStr ''array'')]),
           (''question'', string_property)] [''header'', ''question'', ''options'']),
        (''maxItems'', JInt 4), (''minItems'', JInt 1), (''type'', JStr ''array'')])] [''questions''],
     tl_execute = ask_user_question_execute\<rparr>"

subsection \<open>Listing and searching\<close>

fun entry_line :: "string \<times> entry_kind \<Rightarrow> string" where
  "entry_line (name, Entry_Dir) = ''/'' @ name"
| "entry_line (name, Entry_Symlink) = ''@'' @ name"
| "entry_line (name, Entry_Other) = '' '' @ name"

definition list_dir_execute :: "tool_env \<Rightarrow> json \<Rightarrow> tool_world \<Rightarrow> tool_result" where
  "list_dir_execute env args w =
     (let path = unwrap_or ''.'' (get_str args ''path'') in
      case te_list_dir env path of
        None \<Rightarrow> (Err (Tool_Io (path @ '': '' @ te_os_error env path)), w)
      | Some (_, Some e) \<Rightarrow> (Err (Tool_Io (''read entry: '' @ e)), w)
      | Some (entries, None) \<Rightarrow>
          (let lines = sort (map entry_line entries)
           in (Ok (if lines = [] then ''(empty directory)'' else str_join [CHR 0x0A] lines), w)))"

definition list_dir :: "tool_env \<Rightarrow> tool" where
  "list_dir env = \<lparr>tl_name = ''list_dir'',
     tl_description = ''List the contents of a directory. Returns entries with type indicators (d=file, /=dir, @=symlink). Default: current directory.'',
     tl_parameters = JObj [(''properties'', JObj [(''path'', described (''Directory to list (default: '' @ in_quotes ''.'' @ '').''))]),
       (''type'', JStr ''object'')],
     tl_execute = list_dir_execute env\<rparr>"

definition join_hits :: "string list \<Rightarrow> string" where
  "join_hits hits = (if hits = [] then ''(no matches)'' else str_join [CHR 0x0A] hits)"

fun glob_hits :: "(string \<Rightarrow> bool) \<Rightarrow> walk_entry list \<Rightarrow> string list \<Rightarrow> string list" where
  "glob_hits matches [] hits = hits"
| "glob_hits matches (e # es) hits =
     (let hits' = (if we_rel e \<noteq> [] \<and> matches (we_rel e) then hits @ [we_path e] else hits)
      in if 1000 \<le> length hits' then hits' else glob_hits matches es hits')"

definition glob_execute :: "tool_env \<Rightarrow> json \<Rightarrow> tool_world \<Rightarrow> tool_result" where
  "glob_execute env args =
     need_str args ''pattern'' (''missing '' @ in_quotes ''pattern'') (\<lambda>pattern w.
       case te_glob env pattern of
         Err e \<Rightarrow> (Err (Tool_BadArgs (''bad pattern: '' @ e)), w)
       | Ok matches \<Rightarrow> (Ok (join_hits (glob_hits matches (te_walk env (unwrap_or ''.'' (get_str args ''path''))) [])), w))"

definition glob :: "tool_env \<Rightarrow> tool" where
  "glob env = \<lparr>tl_name = ''glob'',
     tl_description = ''Find files whose path (relative to `path`, default cwd) matches a glob pattern, e.g. **/*.rs.'',
     tl_parameters = object_schema [(''path'', described ''Base directory (default cwd).''), (''pattern'', string_property)] [''pattern''],
     tl_execute = glob_execute env\<rparr>"

text \<open>
  \<^verbatim>\<open>s.lines()\<close>: a line ends at a newline, with the carriage return before it; an
  empty rest is no line.
\<close>

fun chomp :: "string \<Rightarrow> string" where
  "chomp s = (if s \<noteq> [] \<and> last s = CHR 0x0D then butlast s else s)"

definition str_lines :: "string \<Rightarrow> string list" where
  "str_lines s = (let ps = split_on (\<lambda>c. c = CHR 0x0A) s in map chomp (butlast ps) @ (if last ps = [] then [] else [last ps]))"

fun grep_lines :: "(string \<Rightarrow> bool) \<Rightarrow> string \<Rightarrow> nat \<Rightarrow> string list \<Rightarrow> string list \<Rightarrow> string list" where
  "grep_lines matches path i [] hits = hits"
| "grep_lines matches path i (l # ls) hits =
     (if matches l then
        (let hits' = hits @ [path @ '':'' @ show_nat (i + 1) @ '': '' @ str_trim l]
         in if 200 \<le> length hits' then hits' else grep_lines matches path (i + 1) ls hits')
      else grep_lines matches path (i + 1) ls hits)"

fun grep_hits ::
    "(string \<Rightarrow> bool) \<Rightarrow> (string \<Rightarrow> bool) option \<Rightarrow> tool_world \<Rightarrow> walk_entry list \<Rightarrow> string list \<Rightarrow> string list" where
  "grep_hits matches inc w [] hits = hits"
| "grep_hits matches inc w (e # es) hits =
     (if \<not> we_is_file e \<or> (case inc of None \<Rightarrow> False | Some m \<Rightarrow> \<not> m (we_name e)) then grep_hits matches inc w es hits
      else (case tw_files w (we_path e) of
              None \<Rightarrow> grep_hits matches inc w es hits
            | Some content \<Rightarrow>
                (let hits' = grep_lines matches (we_path e) 0 (str_lines content) hits
                 in if 200 \<le> length hits' then hits' else grep_hits matches inc w es hits')))"

definition grep_execute :: "tool_env \<Rightarrow> json \<Rightarrow> tool_world \<Rightarrow> tool_result" where
  "grep_execute env args =
     need_str args ''pattern'' (''missing '' @ in_quotes ''pattern'') (\<lambda>pattern w.
       case te_regex env pattern of
         Err e \<Rightarrow> (Err (Tool_BadArgs (''bad regex: '' @ e)), w)
       | Ok matches \<Rightarrow>
           (case (case get_str args ''include'' of None \<Rightarrow> Ok None | Some i \<Rightarrow> map_sum id Some (te_glob env i)) of
              Err e \<Rightarrow> (Err (Tool_BadArgs (''bad include: '' @ e)), w)
            | Ok inc \<Rightarrow> (Ok (join_hits (grep_hits matches inc w (te_walk env (unwrap_or ''.'' (get_str args ''path''))) [])), w)))"

definition grep :: "tool_env \<Rightarrow> tool" where
  "grep env = \<lparr>tl_name = ''grep'',
     tl_description = ''Search file contents under `path` (default cwd) for a regex. Optional `include` glob filters filenames (e.g. *.rs).'',
     tl_parameters = object_schema [(''include'', described ''Filename glob to include (e.g. *.rs).''),
       (''path'', described ''Base directory (default cwd).''), (''pattern'', string_property)] [''pattern''],
     tl_execute = grep_execute env\<rparr>"

subsection \<open>Running a shell command\<close>

definition bash_sandbox_command :: "string \<Rightarrow> string \<Rightarrow> sandbox_command" where
  "bash_sandbox_command cwd command = \<lparr>sx_program = ''sh'', sx_args = [''-c'', command], sx_cwd = cwd, sx_env = [],
     sx_profile = workspace_managed_profile cwd,
     sx_path_context = path_context_default\<lparr>pc_workspace_roots := [cwd], pc_tmpdir := Some ''/tmp''\<rparr>\<rparr>"

definition bash_argv :: "tool_env \<Rightarrow> string \<Rightarrow> (string list, tool_error) result" where
  "bash_argv env command =
     (case te_sandbox env of
        None \<Rightarrow> Ok [''sh'', ''-c'', command]
      | Some backends \<Rightarrow>
          (case sandbox_transform backends (bash_sandbox_command (te_cwd env) command) of
             Transformed req \<Rightarrow> Ok (se_argv req)
           | Transform_Failed _ message \<Rightarrow> Err (Tool_Other (''sandbox denied: '' @ message))))"

definition bash_execute :: "tool_env \<Rightarrow> json \<Rightarrow> tool_world \<Rightarrow> tool_result" where
  "bash_execute env args =
     need_str args ''command'' (''missing '' @ in_quotes ''command'') (\<lambda>command w.
       case bash_argv env command of
         Err e \<Rightarrow> (Err e, w)
       | Ok argv \<Rightarrow>
           (let w' = w\<lparr>tw_started := tw_started w @ [argv]\<rparr> in
            case te_run env argv of
              Err e \<Rightarrow> (Err (Tool_Other (''spawn failed: '' @ e)), w')
            | Ok out \<Rightarrow>
                (Ok (''exit '' @ show_int (unwrap_or (-1) (po_code out)) @ [CHR 0x0A] @ ''stdout:'' @ [CHR 0x0A] @ utf8_lossy (po_stdout out)
                   @ ''stderr:'' @ [CHR 0x0A] @ utf8_lossy (po_stderr out)), w')))"

definition bash :: "tool_env \<Rightarrow> tool" where
  "bash env = \<lparr>tl_name = ''bash'',
     tl_description = ''Run a shell command via `sh -c` and return stdout, stderr, and exit code.'',
     tl_parameters = object_schema [(''command'', string_property)] [''command''],
     tl_execute = bash_execute env\<rparr>"

subsection \<open>What an edit does\<close>

lemma occurrences_first:
  assumes "p \<noteq> []" and "sublist p s"
  shows "\<exists>pre post. s = pre @ p @ post \<and> (\<forall>pre' post'. s = pre' @ p @ post' \<longrightarrow> length pre \<le> length pre') \<and>
    occurrences p s = 1 + occurrences p post \<and> (\<forall>t. replace_first p t s = pre @ t @ post)"
  using assms
proof (induction s)
  case (Cons c s)
  show ?case
  proof (cases "prefix p (c # s)")
    case True
    then obtain post where post: "c # s = p @ post" unfolding prefix_def by blast
    have "occurrences p (c # s) = 1 + occurrences p post"
      using Cons.prems(1) True by (subst occurrences.simps) (simp add: post)
    moreover have "replace_first p t (c # s) = t @ post" for t
      using replace_first.simps(2)[of p t c s] True unfolding post by simp
    ultimately show ?thesis using post by (intro exI[of _ "[]"] exI[of _ post]) auto
  next
    case False
    then have "sublist p s" using Cons.prems(2) by (simp add: sublist_Cons_right)
    then obtain pre post where ih: "s = pre @ p @ post" "\<forall>pre' post'. s = pre' @ p @ post' \<longrightarrow> length pre \<le> length pre'"
      "occurrences p s = 1 + occurrences p post" "\<forall>t. replace_first p t s = pre @ t @ post"
      using Cons.IH[OF Cons.prems(1)] by blast
    have "length (c # pre) \<le> length pre'" if "c # s = pre' @ p @ post'" for pre' post'
      using that ih(2) False by (cases pre') (auto simp: prefix_def)
    moreover have "occurrences p (c # s) = 1 + occurrences p post"
      using Cons.prems(1) False ih(3) by (subst occurrences.simps) simp
    moreover have "replace_first p t (c # s) = (c # pre) @ t @ post" for t using False ih(4) by simp
    ultimately show ?thesis using ih(1) by (intro exI[of _ "c # pre"] exI[of _ post]) auto
  qed
qed simp

lemma occurrences_none: "p \<noteq> [] \<Longrightarrow> occurrences p s = 0 \<longleftrightarrow> \<not> sublist p s"
proof (induction s)
  case (Cons c s)
  then show ?case by (subst occurrences.simps) (auto simp: sublist_Cons_right)
qed (simp add: occurrences.simps)

lemma occurrences_two:
  assumes "p \<noteq> []"
  shows "2 \<le> occurrences p s \<longleftrightarrow> (\<exists>a b c. s = a @ p @ b @ p @ c)"
proof
  assume two: "2 \<le> occurrences p s"
  then have "sublist p s" using occurrences_none[OF assms, of s] by auto
  then obtain pre post where s: "s = pre @ p @ post" "occurrences p s = 1 + occurrences p post"
    using occurrences_first[OF assms] by blast
  with two have "sublist p post" using occurrences_none[OF assms, of post] by auto
  then show "\<exists>a b c. s = a @ p @ b @ p @ c" using s(1) unfolding sublist_def by blast
next
  assume "\<exists>a b c. s = a @ p @ b @ p @ c"
  then obtain a b c where abc: "s = a @ p @ b @ p @ c" by blast
  then have "sublist p s" unfolding sublist_def by blast
  then obtain pre post where s: "s = pre @ p @ post" "length pre \<le> length a" "occurrences p s = 1 + occurrences p post"
    using occurrences_first[OF assms] abc by blast
  have "post = drop (length pre + length p) s" by (simp add: s(1))
  moreover have "b @ p @ c = drop (length a + length p) s" by (simp add: abc)
  ultimately have "b @ p @ c = drop (length a - length pre) post" using s(2) by simp
  then have "sublist (b @ p @ c) post" by simp
  moreover have "sublist p (b @ p @ c)" unfolding sublist_def by blast
  ultimately have "sublist p post" by (rule sublist_order.order_trans[rotated])
  then show "2 \<le> occurrences p s" using s(3) occurrences_none[OF assms, of post] by auto
qed


subsection \<open>Many edits at once\<close>

lemma map_sum_Ok: "map_sum id f r = Ok y \<longleftrightarrow> (\<exists>x. r = Ok x \<and> y = f x)"
  by (cases r) auto

lemma validate_paths_ok:
  assumes "validate_paths env es paths w = Ok contents"
  shows "map fst contents = paths \<and> (\<forall>(path, s) \<in> set contents. tw_files w path = Some s \<and> check_edits path (edits_of path es) 0 s = Ok ())"
  using assms by (induction paths arbitrary: contents) (auto simp: read_text_def map_sum_Ok split: sum.splits option.splits)

lemma apply_paths_ok:
  assumes "apply_paths env es contents w = (Ok u, w')" and "distinct (map fst contents)"
  shows "w' = w\<lparr>tw_files := \<lambda>p. case map_of contents p of Some s \<Rightarrow> Some (apply_edits (edits_of p es) s) | None \<Rightarrow> tw_files w p\<rparr>"
  using assms
proof (induction contents arbitrary: w)
  case (Cons c cs)
  obtain path s where c: "c = (path, s)" by force
  let ?w = "w\<lparr>tw_files := (tw_files w)(path \<mapsto> apply_edits (edits_of path es) s)\<rparr>"
  have "apply_paths env es cs ?w = (Ok u, w')" and "map_of cs path = None"
    using Cons.prems by (auto simp: c write_text_def map_of_eq_None_iff split: if_splits)
  with Cons.IH[of ?w] Cons.prems(2) show ?case by (auto simp: c fun_eq_iff split: option.splits)
qed simp

lemma apply_paths_err:
  assumes "apply_paths env es contents w = (Err e, w')"
  shows "\<exists>path \<in> set (map fst contents). \<not> te_can_write env path"
  using assms by (induction env es contents w rule: apply_paths.induct) (auto simp: write_text_def split: if_splits)

lemma multi_edit_cases:
  assumes "multi_edit_execute env args w = (r, w')"
  shows "(\<exists>e. r = Err e \<and> w' = w) \<or>
    (\<exists>js es contents. Option.bind (json_get args ''edits'') as_array = Some js \<and> parse_edits js = Ok es \<and>
       validate_paths env es (edit_paths env es) w = Ok contents \<and>
       ((\<exists>e. r = Err e \<and> apply_paths env es contents w = (Err e, w')) \<or>
        (\<exists>m. r = Ok m \<and> apply_paths env es contents w = (Ok (), w'))))"
  using assms by (auto simp: multi_edit_execute_def split: option.splits list.splits sum.splits prod.splits)

text \<open>
  C35. Whatever order the files are taken in, a call that edits many files either changes every
  file it names, each by all of its edits in order and nothing else, after each passed its check;
  or it fails.  If all its files can be written, a call that fails has changed nothing.
\<close>

theorem multi_edit_all_or_nothing:
  assumes "\<And>ks. set (te_order env ks) = set ks" and "\<And>ks. distinct ks \<Longrightarrow> distinct (te_order env ks)"
    and "multi_edit_execute env args w = (r, w')"
  shows "(\<forall>m. r = Ok m \<longrightarrow>
      (\<exists>js es. Option.bind (json_get args ''edits'') as_array = Some js \<and> parse_edits js = Ok es \<and>
        (\<forall>path. if path \<in> fst ` set es
           then (\<exists>s. tw_files w path = Some s \<and> check_edits path (edits_of path es) 0 s = Ok () \<and>
             tw_files w' path = Some (apply_edits (edits_of path es) s))
           else tw_files w' path = tw_files w path) \<and>
        tw_stdin w' = tw_stdin w \<and> tw_started w' = tw_started w)) \<and>
    (\<forall>e. r = Err e \<longrightarrow> w' = w \<or> (\<exists>js es. Option.bind (json_get args ''edits'') as_array = Some js \<and> parse_edits js = Ok es \<and>
        (\<exists>path \<in> fst ` set es. \<not> te_can_write env path)))"
  using multi_edit_cases[OF assms(3)]
proof (elim disjE exE conjE)
  fix js es contents m
  assume r: "r = Ok m" and js: "Option.bind (json_get args ''edits'') as_array = Some js" "parse_edits js = Ok es"
    and v: "validate_paths env es (edit_paths env es) w = Ok contents" and a: "apply_paths env es contents w = (Ok (), w')"
  have keys: "map fst contents = edit_paths env es" "distinct (map fst contents)" "set (map fst contents) = fst ` set es"
    using validate_paths_ok[OF v] assms(1,2) by (simp_all add: edit_paths_def)
  note w' = apply_paths_ok[OF a keys(2)]
  have "if path \<in> fst ` set es
      then (\<exists>s. tw_files w path = Some s \<and> check_edits path (edits_of path es) 0 s = Ok () \<and>
             tw_files w' path = Some (apply_edits (edits_of path es) s))
      else tw_files w' path = tw_files w path" for path
  proof (cases "map_of contents path")
    case None
    then have "path \<notin> fst ` set es" using keys(3) by (auto simp: map_of_eq_None_iff)
    with None show ?thesis by (simp add: w')
  next
    case (Some s)
    then have s: "(path, s) \<in> set contents" by (rule map_of_SomeD)
    then have "path \<in> fst ` set es" using keys(3) by force
    with Some s validate_paths_ok[OF v] show ?thesis by (auto simp: w')
  qed
  moreover have "tw_stdin w' = tw_stdin w" "tw_started w' = tw_started w" by (simp_all add: w')
  ultimately show ?thesis using r js by auto
next
  fix js es contents e
  assume r: "r = Err e" and js: "Option.bind (json_get args ''edits'') as_array = Some js" "parse_edits js = Ok es"
    and v: "validate_paths env es (edit_paths env es) w = Ok contents" and a: "apply_paths env es contents w = (Err e, w')"
  have "set (map fst contents) = fst ` set es" using validate_paths_ok[OF v] assms(1) by (simp add: edit_paths_def)
  then have locked: "\<exists>path \<in> fst ` set es. \<not> te_can_write env path" using apply_paths_err[OF a] by (simp only:)
  show ?thesis
  proof (rule conjI)
    show "\<forall>e. r = Err e \<longrightarrow> w' = w \<or> (\<exists>js es. Option.bind (json_get args ''edits'') as_array = Some js \<and> parse_edits js = Ok es \<and>
        (\<exists>path \<in> fst ` set es. \<not> te_can_write env path))" using js locked by blast
  qed (simp add: r)
qed auto

text \<open>
  The check of a file replaces each old text by a placeholder, the application by the new text:
  they disagree as soon as an edit's new text contains a later edit's old text.
\<close>

lemma checked_edits_go_astray:
  "let es = [(''a'', ''b''), (''b'', ''c'')]
   in check_edits ''f'' es 0 ''a b'' = Ok () \<and> apply_edits es ''a b'' = ''c b''"
  by (simp add: count_matches_def occurrences.simps apply_edits_def)

subsection \<open>What a search finds\<close>

lemma take_stopped: "length xs \<le> n \<Longrightarrow> (if n \<le> length xs then xs else take n (xs @ ys)) = take n (xs @ ys)"
  by auto

lemma glob_hits_eq:
  "length hits < 1000 \<Longrightarrow>
     glob_hits matches es hits = take 1000 (hits @ map we_path (filter (\<lambda>e. we_rel e \<noteq> [] \<and> matches (we_rel e)) es))"
proof (induction es arbitrary: hits)
  case (Cons e es)
  let ?hits = "if we_rel e \<noteq> [] \<and> matches (we_rel e) then hits @ [we_path e] else hits"
  let ?rest = "map we_path (filter (\<lambda>e. we_rel e \<noteq> [] \<and> matches (we_rel e)) es)"
  have "glob_hits matches (e # es) hits = (if 1000 \<le> length ?hits then ?hits else take 1000 (?hits @ ?rest))"
    using Cons.IH[of ?hits] by (simp add: Let_def)
  also have "\<dots> = take 1000 (?hits @ ?rest)" by (rule take_stopped) (use Cons.prems in simp)
  finally show ?case by (simp del: take_append glob_hits.simps)
qed simp

text \<open>The matching lines of a file from line \<open>i\<close> on, and those of an entry that is searched.\<close>

definition matching_lines :: "(string \<Rightarrow> bool) \<Rightarrow> string \<Rightarrow> nat \<Rightarrow> string list \<Rightarrow> string list" where
  "matching_lines matches path i ls =
     map (\<lambda>(k, l). path @ '':'' @ show_nat (k + 1) @ '': '' @ str_trim l) (filter (\<lambda>(k, l). matches l) (enumerate i ls))"

definition entry_hits :: "(string \<Rightarrow> bool) \<Rightarrow> (string \<Rightarrow> bool) option \<Rightarrow> tool_world \<Rightarrow> walk_entry \<Rightarrow> string list" where
  "entry_hits matches inc w e =
     (if we_is_file e \<and> (case inc of None \<Rightarrow> True | Some m \<Rightarrow> m (we_name e))
      then (case tw_files w (we_path e) of None \<Rightarrow> [] | Some content \<Rightarrow> matching_lines matches (we_path e) 0 (str_lines content))
      else [])"

lemma grep_lines_eq:
  "length hits < 200 \<Longrightarrow> grep_lines matches path i ls hits = take 200 (hits @ matching_lines matches path i ls)"
proof (induction ls arbitrary: i hits)
  case (Cons l ls)
  let ?line = "path @ '':'' @ show_nat (i + 1) @ '': '' @ str_trim l"
  let ?hits = "hits @ [?line]"
  have m: "matching_lines matches path i (l # ls) = (if matches l then [?line] else []) @ matching_lines matches path (i + 1) ls"
    by (simp add: matching_lines_def)
  show ?case
  proof (cases "matches l")
    case True
    have "grep_lines matches path i (l # ls) hits = (if 200 \<le> length ?hits then ?hits else take 200 (?hits @ matching_lines matches path (i + 1) ls))"
      using Cons.IH[of ?hits "i + 1"] True by (simp add: Let_def)
    also have "\<dots> = take 200 (?hits @ matching_lines matches path (i + 1) ls)" by (rule take_stopped) (use Cons.prems in simp)
    finally show ?thesis using True unfolding m by (simp del: take_append grep_lines.simps)
  next
    case False
    then show ?thesis using Cons.IH[OF Cons.prems, of "i + 1"] unfolding m by simp
  qed
qed (simp add: matching_lines_def)

lemma grep_hits_eq:
  "length hits < 200 \<Longrightarrow> grep_hits matches inc w es hits = take 200 (hits @ concat (map (entry_hits matches inc w) es))"
proof (induction es arbitrary: hits)
  case (Cons e es)
  let ?skip = "\<not> we_is_file e \<or> (case inc of None \<Rightarrow> False | Some m \<Rightarrow> \<not> m (we_name e))"
  show ?case
  proof (cases "?skip \<or> tw_files w (we_path e) = None")
    case True
    then have "entry_hits matches inc w e = []" by (auto simp: entry_hits_def split: option.splits)
    moreover have "grep_hits matches inc w (e # es) hits = grep_hits matches inc w es hits" using True by auto
    ultimately show ?thesis using Cons by simp
  next
    case False
    then obtain content where c: "tw_files w (we_path e) = Some content" by auto
    let ?hits = "grep_lines matches (we_path e) 0 (str_lines content) hits"
    have h: "?hits = take 200 (hits @ entry_hits matches inc w e)"
      using False c grep_lines_eq[OF Cons.prems] by (auto simp: entry_hits_def split: option.splits)
    have "grep_hits matches inc w (e # es) hits = (if 200 \<le> length ?hits then ?hits else grep_hits matches inc w es ?hits)"
      using False c by (simp add: Let_def)
    also have "\<dots> = (if 200 \<le> length ?hits then ?hits else take 200 (?hits @ concat (map (entry_hits matches inc w) es)))"
      using Cons.IH[of ?hits] by simp
    also have "\<dots> = take 200 (?hits @ concat (map (entry_hits matches inc w) es))" by (rule take_stopped) (simp add: h)
    also have "\<dots> = take 200 ((hits @ entry_hits matches inc w e) @ concat (map (entry_hits matches inc w) es))"
      unfolding h by (simp add: min_def)
    finally show ?thesis by (simp del: take_append grep_hits.simps)
  qed
qed simp

lemma join_hits_nonempty: "hits \<noteq> [] \<Longrightarrow> join_hits hits = str_join [CHR 0x0A] hits"
  by (simp add: join_hits_def)

text \<open>
  C36. A search of file names returns the first 1000 entries of the walk that match, a search of
  contents the first 200 matching lines of the readable files its name filter lets through, with
  their line numbers; a bad pattern or filter is an error, and no search changes anything.
\<close>

theorem search_finds_first_matches:
  fixes env :: tool_env
  assumes "get_str args ''pattern'' = Some pattern"
  defines "entries \<equiv> te_walk env (unwrap_or ''.'' (get_str args ''path''))"
  shows "glob_execute env args w =
      ((case te_glob env pattern of Err e \<Rightarrow> Err (Tool_BadArgs (''bad pattern: '' @ e))
        | Ok matches \<Rightarrow> Ok (join_hits (take 1000 (map we_path (filter (\<lambda>e. we_rel e \<noteq> [] \<and> matches (we_rel e)) entries))))), w) \<and>
    snd (grep_execute env args w) = w \<and>
    (case te_regex env pattern of
       Err e \<Rightarrow> fst (grep_execute env args w) = Err (Tool_BadArgs (''bad regex: '' @ e))
     | Ok matches \<Rightarrow>
         (case get_str args ''include'' of
            None \<Rightarrow> fst (grep_execute env args w) = Ok (join_hits (take 200 (concat (map (entry_hits matches None w) entries))))
          | Some i \<Rightarrow> fst (grep_execute env args w) =
              (case te_glob env i of Err e \<Rightarrow> Err (Tool_BadArgs (''bad include: '' @ e))
               | Ok m \<Rightarrow> Ok (join_hits (take 200 (concat (map (entry_hits matches (Some m) w) entries)))))))"
  using assms(1) unfolding entries_def
  by (simp add: glob_execute_def grep_execute_def need_str_def glob_hits_eq grep_hits_eq split: sum.splits option.splits)

subsection \<open>What a shell command may start\<close>

lemma bash_argv_wraps:
  assumes "te_sandbox env = Some [macos_backend here]" and "bash_argv env command = Ok argv"
  shows "here \<and> wraps (bash_sandbox_command (te_cwd env) command) argv"
proof -
  let ?c = "bash_sandbox_command (te_cwd env) command"
  have q: "requires_sandbox (sx_profile ?c)" by (simp add: bash_sandbox_command_def workspace_managed_profile_def)
  obtain req where req: "sandbox_transform [macos_backend here] ?c = Transformed req" "argv = se_argv req"
    using assms by (auto simp: bash_argv_def split: transform_result.splits)
  have "bk_transform (macos_backend here) = macos_transform" by (simp add: macos_backend_def)
  from macos.manager_confines[OF q this req(1)] req(2) show ?thesis by (simp add: macos_backend_def)
qed

subsection \<open>Sample runs\<close>

definition blank_world :: tool_world where "blank_world = \<lparr>tw_files = \<lambda>_. None, tw_stdin = [], tw_started = []\<rparr>"

definition sample_tools :: tool_env where
  "sample_tools = \<lparr>te_os_error = \<lambda>_. ''denied'', te_can_write = \<lambda>_. True, te_list_dir = \<lambda>_. None,
     te_walk = \<lambda>_. [\<lparr>we_path = ''./f'', we_rel = ''f'', we_name = ''f'', we_is_file = True\<rparr>],
     te_glob = \<lambda>_. Ok (\<lambda>_. True), te_regex = \<lambda>_. Ok (\<lambda>_. True), te_cwd = ''/w'',
     te_run = \<lambda>_. Ok \<lparr>po_stdout = [], po_stderr = [], po_code = Some 0\<rparr>, te_order = id, te_sandbox = None\<rparr>"

definition sample_files :: tool_world where "sample_files = blank_world\<lparr>tw_files := [''f'' \<mapsto> ''a b'']\<rparr>"

definition edit_args :: "string \<Rightarrow> string \<Rightarrow> string \<Rightarrow> json" where
  "edit_args path old new = JObj [(''path'', JStr path), (''old_string'', JStr old), (''new_string'', JStr new)]"

lemma edit_args_simps: "get_str (edit_args p old new) ''path'' = Some p" "get_str (edit_args p old new) ''old_string'' = Some old"
  "get_str (edit_args p old new) ''new_string'' = Some new"
  by (simp_all add: edit_args_def get_str_def str_of_def)


definition two_edits :: json where
  "two_edits = JObj [(''edits'', JArr [edit_args ''f'' ''a'' ''x'', edit_args ''f'' ''b'' ''y''])]"

theorem multi_edit_all_or_nothing_witness:
  "tw_files (snd (multi_edit_execute sample_tools two_edits sample_files)) ''f'' = Some ''x y''"
proof -
  have js: "Option.bind (json_get two_edits ''edits'') as_array = Some [edit_args ''f'' ''a'' ''x'', edit_args ''f'' ''b'' ''y'']"
    by (simp add: two_edits_def)
  have es: "parse_edits [edit_args ''f'' ''a'' ''x'', edit_args ''f'' ''b'' ''y''] = Ok [(''f'', ''a'', ''x''), (''f'', ''b'', ''y'')]"
    by (simp add: edit_args_simps)
  obtain r w' where m: "multi_edit_execute sample_tools two_edits sample_files = (r, w')" by force
  have n: "count_matches ''a'' ''a b'' = 1" "count_matches ''b'' ''PLACEHOLDER b'' = 1"
    by (simp_all add: count_matches_def occurrences.simps)
  have ok: "\<exists>m. r = Ok m"
    using m js es n by (auto simp: multi_edit_execute_def edit_paths_def edits_of_def sample_tools_def sample_files_def read_text_def
        write_text_def edit_args_simps split: option.splits)
  then show ?thesis
    using multi_edit_all_or_nothing[OF _ _ m] m js es
    by (auto simp: sample_tools_def sample_files_def edits_of_def apply_edits_def dest!: spec[of _ "''f''"])
qed

theorem search_finds_first_matches_witness:
  "glob_execute sample_tools (JObj [(''pattern'', JStr ''*'')]) sample_files = (Ok ''./f'', sample_files)"
  using search_finds_first_matches[where args = "JObj [(''pattern'', JStr ''*'')]" and pattern = "''*''" and env = sample_tools and w = sample_files]
  by (simp add: get_str_def str_of_def sample_tools_def join_hits_def)

end
