(* ===== verification/Web.thy ===== *)
theory Web
  imports Tools
begin

text \<open>
  The web tools (\<^verbatim>\<open>meepo-tools/src/web.rs\<close>): fetching a page as text, and searching,
  with the encoding of the query and the reading of the result page.

  The HTTP client and the regular expression engine are libraries: the record \<open>web_env\<close> holds
  what they answer, and which characters outside ASCII the standard library's Unicode table
  counts as alphanumeric.
\<close>

subsection \<open>Characters\<close>

text \<open>The code point of a character, and the character of a byte.\<close>

fun code_point :: "string \<Rightarrow> nat" where
  "code_point [a] = of_char a"
| "code_point [a, b] = (of_char a mod 32) * 64 + of_char b mod 64"
| "code_point [a, b, c] = (of_char a mod 16) * 4096 + (of_char b mod 64) * 64 + of_char c mod 64"
| "code_point [a, b, c, d] = (of_char a mod 8) * 262144 + (of_char b mod 64) * 4096 + (of_char c mod 64) * 64 + of_char d mod 64"
| "code_point _ = 0"

definition char_of_byte :: "nat \<Rightarrow> string" where
  "char_of_byte n = (if n < 128 then [char_of n] else [char_of (192 + n div 64), char_of (128 + n mod 64)])"

text \<open>\<^verbatim>\<open>s.replace(p, t)\<close> for a pattern that is not empty.\<close>

function replace_all :: "string \<Rightarrow> string \<Rightarrow> string \<Rightarrow> string" where
  "replace_all p t s =
     (if p = [] \<or> s = [] then s
      else if prefix p s then t @ replace_all p t (drop (length p) s) else hd s # replace_all p t (tl s))"
  by pat_completeness auto
termination by (relation "measure (\<lambda>(p, t, s). length s)") auto

declare replace_all.simps [simp del]

subsection \<open>What the tools rely on\<close>

record http_response =
  ht_success :: bool
  ht_status :: string
  ht_content_type :: "string option"
  ht_body :: "(string, string) result"
  ht_text :: "(string, string) result"

record web_env =
  wb_client_error :: "string option"
  wb_get :: "string \<Rightarrow> (http_response, string) result"
  wb_replace :: "string \<Rightarrow> string \<Rightarrow> string \<Rightarrow> string"
  wb_captures :: "string \<Rightarrow> string \<Rightarrow> string option list list"
  wb_alphanumeric :: "string \<Rightarrow> bool"

definition MAX_FETCH_BYTES :: nat where "MAX_FETCH_BYTES = 64000"

subsection \<open>Reading pages\<close>

definition strip_tags :: "web_env \<Rightarrow> string \<Rightarrow> string" where
  "strip_tags wb s = wb_replace wb ''<[^>]+>'' s []"

definition decode_entities :: "string \<Rightarrow> string" where
  "decode_entities s = replace_all ''&nbsp;'' '' '' (replace_all ''&#39;'' [CHR 0x27] (replace_all ''&quot;'' [CHR 0x22]
     (replace_all ''&gt;'' ''>'' (replace_all ''&lt;'' ''<'' (replace_all ''&amp;'' ''&'' s)))))"

definition html_to_text :: "web_env \<Rightarrow> string \<Rightarrow> string" where
  "html_to_text wb html =
     (let no_scripts = wb_replace wb ''(?is)<script[^>]*>.*?</script>'' html [];
          no_style = wb_replace wb ''(?is)<style[^>]*>.*?</style>'' no_scripts [];
          with_newlines = wb_replace wb ''(?i)</?(p|div|br|h[1-6]|li|tr|hr)[^>]*>'' no_style [CHR 0x0A];
          no_tags = wb_replace wb ''<[^>]+>'' with_newlines []
      in str_join [CHR 0x0A] (filter (\<lambda>l. l \<noteq> []) (map str_trim (str_lines (decode_entities no_tags)))))"

definition web_fetch_execute :: "web_env \<Rightarrow> json \<Rightarrow> tool_world \<Rightarrow> tool_result" where
  "web_fetch_execute wb args =
     need_str args ''url'' (''missing '' @ in_quotes ''url'') (\<lambda>url w.
       if \<not> starts_with url ''http://'' \<and> \<not> starts_with url ''https://''
       then (Err (Tool_BadArgs ''url must start with http:// or https://''), w)
       else (case wb_client_error wb of
           Some e \<Rightarrow> (Err (Tool_Other (''http client: '' @ e)), w)
         | None \<Rightarrow>
             (case wb_get wb url of
                Err e \<Rightarrow> (Err (Tool_Other (''fetch failed: '' @ e)), w)
              | Ok resp \<Rightarrow>
                  (if \<not> ht_success resp then (Err (Tool_Other (''HTTP '' @ ht_status resp)), w)
                   else (case ht_body resp of
                       Err e \<Rightarrow> (Err (Tool_Other (''read body: '' @ e)), w)
                     | Ok body \<Rightarrow>
                         (let body_str = utf8_lossy (take MAX_FETCH_BYTES body);
                              result = (if sublist ''text/html'' (unwrap_or [] (ht_content_type resp)) then html_to_text wb body_str
                                      else body_str);
                              n = char_count result
                          in if 8000 < n
                             then (Ok (chars_take 8000 result @ [CHR 0x0A, CHR 0x0A, CHR 0xE2, CHR 0x80, CHR 0xA6] @ ''['' @
                                 show_nat n @ '' chars total]''), w)
                             else (Ok result, w)))))))"

definition web_fetch :: "web_env \<Rightarrow> tool" where
  "web_fetch wb = \<lparr>tl_name = ''web_fetch'',
     tl_description = ''Fetch a URL and return its text content. HTML pages are converted to readable text. Useful for reading documentation, APIs, articles.'',
     tl_parameters = object_schema [(''url'', described ''The URL to fetch (must include http:// or https://).'')] [''url''],
     tl_execute = web_fetch_execute wb\<rparr>"

subsection \<open>Encoding and decoding a query\<close>

definition hex_upper :: "nat \<Rightarrow> char" where
  "hex_upper d = char_of (if d < 10 then 48 + d else 55 + d)"

definition ascii_alphanumeric :: "char \<Rightarrow> bool" where
  "ascii_alphanumeric c \<longleftrightarrow> CHR ''0'' \<le> c \<and> c \<le> CHR ''9'' \<or> CHR ''A'' \<le> c \<and> c \<le> CHR ''Z'' \<or> CHR ''a'' \<le> c \<and> c \<le> CHR ''z''"

definition is_alphanumeric :: "web_env \<Rightarrow> string \<Rightarrow> bool" where
  "is_alphanumeric wb c = (case c of [a] \<Rightarrow> ascii_alphanumeric a | _ \<Rightarrow> wb_alphanumeric wb c)"

definition encode_char :: "web_env \<Rightarrow> string \<Rightarrow> string" where
  "encode_char wb c =
     (if c = '' '' then ''+''
      else if is_alphanumeric wb c \<or> c \<in> set [''-'', ''_'', ''.'', [CHR 0x7E]] then c
      else (let b = code_point c mod 256 in [CHR ''%'', hex_upper (b div 16), hex_upper (b mod 16)]))"

definition urlencoding :: "web_env \<Rightarrow> string \<Rightarrow> string" where
  "urlencoding wb s = concat (map (encode_char wb) (str_chars s))"

definition hex_value :: "char \<Rightarrow> nat option" where
  "hex_value c = (if CHR ''0'' \<le> c \<and> c \<le> CHR ''9'' then Some (of_char c - 48)
     else if CHR ''A'' \<le> c \<and> c \<le> CHR ''F'' then Some (of_char c - 55)
     else if CHR ''a'' \<le> c \<and> c \<le> CHR ''f'' then Some (of_char c - 87) else None)"

text \<open>\<^verbatim>\<open>u8::from_str_radix(s, 16)\<close> of two characters, the first of which may be a plus.\<close>

definition parse_hex :: "string \<Rightarrow> nat option" where
  "parse_hex s =
     (case s of
        [a, b] \<Rightarrow> (if a = CHR ''+'' then hex_value b
                    else Option.bind (hex_value a) (\<lambda>x. map_option (\<lambda>y. x * 16 + y) (hex_value b)))
      | _ \<Rightarrow> None)"

fun decode_chars :: "string list \<Rightarrow> string" where
  "decode_chars [] = []"
| "decode_chars (c # cs) =
     (if c = ''%'' then
        (case cs of
           a # b # rest \<Rightarrow> (case parse_hex (a @ b) of Some n \<Rightarrow> char_of_byte n @ decode_chars rest | None \<Rightarrow> c @ decode_chars rest)
         | _ \<Rightarrow> c)
      else if c = ''+'' then '' '' @ decode_chars cs
      else c @ decode_chars cs)"

definition url_decode :: "string \<Rightarrow> string" where "url_decode s = decode_chars (str_chars s)"

subsection \<open>Searching\<close>

text \<open>What follows the first occurrence of a pattern.\<close>

fun after_first :: "string \<Rightarrow> string \<Rightarrow> string option" where
  "after_first p [] = (if p = [] then Some [] else None)"
| "after_first p (c # s) = (if prefix p (c # s) then Some (drop (length p) (c # s)) else after_first p s)"

definition extract_ddg_url :: "string \<Rightarrow> string" where
  "extract_ddg_url raw =
     (case after_first ''uddg='' raw of
        Some rest \<Rightarrow> url_decode (takeWhile (\<lambda>c. c \<noteq> CHR ''&'') rest)
      | None \<Rightarrow> (if starts_with raw ''http'' then raw else []))"

record search_result =
  sr_title :: string
  sr_url :: string
  sr_snippet :: string

definition capture :: "string option list \<Rightarrow> nat \<Rightarrow> string" where
  "capture cap i = (if i < length cap then unwrap_or [] (cap ! i) else [])"

fun take_links :: "web_env \<Rightarrow> nat \<Rightarrow> string option list list \<Rightarrow> search_result list \<Rightarrow> search_result list" where
  "take_links wb m [] results = results"
| "take_links wb m (cap # caps) results =
     (if m \<le> length results then results
      else (let url = extract_ddg_url (capture cap 1);
                title = str_trim (strip_tags wb (capture cap 2))
            in take_links wb m caps (if title \<noteq> [] \<and> url \<noteq> []
                 then results @ [\<lparr>sr_title = title, sr_url = url, sr_snippet = []\<rparr>] else results)))"

fun put_snippets :: "web_env \<Rightarrow> nat \<Rightarrow> string option list list \<Rightarrow> search_result list \<Rightarrow> search_result list" where
  "put_snippets wb i [] results = results"
| "put_snippets wb i (cap # caps) results =
     (if length results \<le> i then results
      else put_snippets wb (i + 1) caps (results[i := (results ! i)\<lparr>sr_snippet := str_trim (strip_tags wb (capture cap 1))\<rparr>]))"

definition parse_ddg_results :: "web_env \<Rightarrow> string \<Rightarrow> nat \<Rightarrow> search_result list" where
  "parse_ddg_results wb html m =
     put_snippets wb 0 (wb_captures wb ''class=\"result__snippet\"[^>]*>(.*?)</a>'' html)
       (take_links wb m (wb_captures wb ''class=\"result__a\"[^>]*href=\"([^\"]*)\"[^>]*>(.*?)</a>'' html) [])"

definition format_result :: "nat \<Rightarrow> search_result \<Rightarrow> string" where
  "format_result i r = show_nat (i + 1) @ ''. '' @ sr_title r @ [CHR 0x0A] @ ''   '' @ sr_url r @ [CHR 0x0A] @ ''   '' @ sr_snippet r"

definition as_u64 :: "json \<Rightarrow> nat option" where
  "as_u64 v = (case v of JInt i \<Rightarrow> (if 0 \<le> i \<and> i < 2 ^ 64 then Some (nat i) else None) | _ \<Rightarrow> None)"

definition web_search_execute :: "web_env \<Rightarrow> json \<Rightarrow> tool_world \<Rightarrow> tool_result" where
  "web_search_execute wb args =
     need_str args ''query'' (''missing '' @ in_quotes ''query'') (\<lambda>query w.
       let max_results = unwrap_or 5 (Option.bind (json_get args ''max_results'') as_u64) in
       case wb_client_error wb of
         Some e \<Rightarrow> (Err (Tool_Other (''http client: '' @ e)), w)
       | None \<Rightarrow>
           (case wb_get wb (''https://html.duckduckgo.com/html/?q='' @ urlencoding wb query) of
              Err e \<Rightarrow> (Err (Tool_Other (''search failed: '' @ e)), w)
            | Ok resp \<Rightarrow>
                (if \<not> ht_success resp then (Err (Tool_Other (''HTTP '' @ ht_status resp)), w)
                 else (case ht_text resp of
                     Err e \<Rightarrow> (Err (Tool_Other (''read body: '' @ e)), w)
                   | Ok html \<Rightarrow>
                       (let results = parse_ddg_results wb html max_results in
                        if results = [] then (Ok ''No results found.'', w)
                        else (Ok (str_join [CHR 0x0A, CHR 0x0A] (map (\<lambda>(i, r). format_result i r) (enumerate 0 results))), w))))))"

definition web_search :: "web_env \<Rightarrow> tool" where
  "web_search wb = \<lparr>tl_name = ''web_search'',
     tl_description = ''Search the web and return result titles, URLs, and snippets. Uses DuckDuckGo (no API key needed). Useful for finding documentation, APIs, examples, or answers.'',
     tl_parameters = object_schema [(''max_results'', JObj [(''description'', JStr ''Maximum results to return (default 5).''),
       (''type'', JStr ''integer'')]), (''query'', described ''The search query.'')] [''query''],
     tl_execute = web_search_execute wb\<rparr>"

subsection \<open>The text of a page\<close>


subsection \<open>The text of a query\<close>

lemma str_chars_ascii: "\<forall>c \<in> set s. (of_char c :: nat) < 128 \<Longrightarrow> str_chars s = map (\<lambda>c. [c]) s"
proof (induction s)
  case (Cons c s)
  then have "takeWhile is_cont s = []" "dropWhile is_cont s = s" by (cases s; auto simp: is_cont_def)+
  with Cons show ?case by simp
qed simp

lemma hex_round: "d < 16 \<Longrightarrow> hex_value (hex_upper d) = Some d \<and> ascii_alphanumeric (hex_upper d) \<and> (of_char (hex_upper d) :: nat) < 128"
proof -
  have "\<forall>d \<in> set [0..<16]. hex_value (hex_upper d) = Some d \<and> ascii_alphanumeric (hex_upper d) \<and> (of_char (hex_upper d) :: nat) < 128"
    by code_simp
  then show "d < 16 \<Longrightarrow> ?thesis" by simp
qed

definition query_safe :: "char \<Rightarrow> bool" where
  "query_safe c \<longleftrightarrow> ascii_alphanumeric c \<or> c \<in> set ''-_.+%'' \<or> c = CHR 0x7E"

lemma ascii_alphanumeric_plain: "ascii_alphanumeric c \<Longrightarrow> c \<noteq> CHR ''%'' \<and> c \<noteq> CHR ''+'' \<and> (of_char c :: nat) < 128"
  by (auto simp: ascii_alphanumeric_def less_eq_char_def)

lemma query_safe_ascii: "query_safe c \<Longrightarrow> (of_char c :: nat) < 128"
  by (auto simp: query_safe_def dest: ascii_alphanumeric_plain)

lemma encode_ascii:
  assumes "(of_char c :: nat) < 128"
  shows "decode_chars (map (\<lambda>c. [c]) (encode_char wb [c]) @ rest) = c # decode_chars rest" and "list_all query_safe (encode_char wb [c])"
proof -
  let ?n = "of_char c :: nat"
  note h = hex_round[of "?n div 16"] hex_round[of "?n mod 16"]
  have n: "?n div 16 < 16" "?n mod 16 < 16" using assms by auto
  have plus: "hex_upper (?n div 16) \<noteq> CHR ''+''" using h(1) n(1) ascii_alphanumeric_plain by auto
  have c: "char_of_byte ?n = [c]" using assms by (simp add: char_of_byte_def)
  show "decode_chars (map (\<lambda>c. [c]) (encode_char wb [c]) @ rest) = c # decode_chars rest"
    using assms n h plus c ascii_alphanumeric_plain[of c]
    by (auto simp: encode_char_def is_alphanumeric_def Let_def parse_hex_def)
  show "list_all query_safe (encode_char wb [c])"
    using n h by (auto simp: encode_char_def is_alphanumeric_def Let_def query_safe_def)
qed

text \<open>
  An ASCII query survives its encoding: decoding gives it back, and the encoded text holds nothing
  that ends or splits a query parameter.
\<close>

lemma query_roundtrip:
  assumes "\<forall>c \<in> set s. (of_char c :: nat) < 128"
  shows "url_decode (urlencoding wb s) = s \<and> list_all query_safe (urlencoding wb s)"
proof -
  let ?e = "concat (map (\<lambda>c. encode_char wb [c]) s)"
  have e: "urlencoding wb s = ?e" using assms by (simp add: urlencoding_def str_chars_ascii comp_def)
  have safe: "list_all query_safe ?e" using assms encode_ascii(2)[of _ wb] by (induction s) auto
  then have "\<forall>c \<in> set ?e. (of_char c :: nat) < 128"
    using query_safe_ascii unfolding list_all_iff by blast
  then have "str_chars ?e = map (\<lambda>c. [c]) ?e" by (rule str_chars_ascii)
  moreover have "decode_chars (map (\<lambda>c. [c]) ?e) = s" using assms by (induction s) (simp_all add: encode_ascii(1))
  ultimately show ?thesis using safe by (simp add: e url_decode_def)
qed

text \<open>
  Outside ASCII a character is cut to the low byte of its code point: the ellipsis becomes an
  ampersand.  A decoded byte is taken for a character, so a letter a page has encoded as two
  bytes is read as two letters.
\<close>

lemma encoding_truncates:
  "\<not> wb_alphanumeric wb [CHR 0xE2, CHR 0x80, CHR 0xA6] \<Longrightarrow> urlencoding wb [CHR 0xE2, CHR 0x80, CHR 0xA6] = ''%26''"
  "url_decode ''%26'' = ''&''"
  "url_decode ''%C3%A9'' = [CHR 0xC3, CHR 0x83, CHR 0xC2, CHR 0xA9]"
proof -
  show "urlencoding wb [CHR 0xE2, CHR 0x80, CHR 0xA6] = ''%26''" if "\<not> wb_alphanumeric wb [CHR 0xE2, CHR 0x80, CHR 0xA6]"
    using that by (simp add: urlencoding_def is_cont_def encode_char_def is_alphanumeric_def Let_def hex_upper_def char_of_eq_iff)
qed code_simp+

definition sample_response :: http_response where
  "sample_response = \<lparr>ht_success = True, ht_status = ''200 OK'', ht_content_type = Some ''text/plain'', ht_body = Ok ''hello'', ht_text = Ok ''hello''\<rparr>"

definition sample_web :: web_env where
  "sample_web = \<lparr>wb_client_error = None, wb_get = \<lambda>_. Ok sample_response, wb_replace = \<lambda>_ s _. s, wb_captures = \<lambda>_ _. [],
     wb_alphanumeric = \<lambda>_. False\<rparr>"


lemma query_roundtrip_witness: "url_decode (urlencoding sample_web ''a b&c'') = ''a b&c''"
  using query_roundtrip[of "''a b&c''" sample_web] by simp

end
