(* ===== verification/Toolbox.thy ===== *)
theory Toolbox
  imports Web Gate
begin

text \<open>
  The catalogue of tools (\<^verbatim>\<open>all\<close>, \<^verbatim>\<open>all_with_sandbox\<close> of
  \<^verbatim>\<open>meepo-tools/src/builtin.rs\<close>) behind the permission gate: the execution boundary of
  \<^verbatim>\<open>aimux_backend.rs\<close> with the registry as its executor, and what a run of tool
  calls can do to the world.
\<close>

subsection \<open>The catalogue\<close>

definition catalogue :: "tool_env \<Rightarrow> web_env \<Rightarrow> tool list" where
  "catalogue env wb = [read_file env, write_file env, edit env, bash env, glob env, grep env, web_fetch wb, web_search wb,
     ask_user_question, multi_edit env, list_dir env]"

definition all_tools :: "tool_env \<Rightarrow> web_env \<Rightarrow> tool list" where
  "all_tools env wb = catalogue (env\<lparr>te_sandbox := None\<rparr>) wb"

definition all_with_sandbox :: "sandbox_backend list \<Rightarrow> tool_env \<Rightarrow> web_env \<Rightarrow> tool list" where
  "all_with_sandbox backends env wb = catalogue (env\<lparr>te_sandbox := Some backends\<rparr>) wb"

definition registry_of :: "tool list \<Rightarrow> tool_registry" where
  "registry_of ts = foldl (\<lambda>r t. register_tool t r) registry_new ts"

text \<open>The platform's sandbox: the macOS backend is registered on macOS only.\<close>

definition platform_sandbox :: "bool \<Rightarrow> bool \<Rightarrow> sandbox_backend list" where
  "platform_sandbox macos here = (if macos then [macos_backend here] else [])"

definition platform_tools :: "bool \<Rightarrow> bool \<Rightarrow> tool_env \<Rightarrow> web_env \<Rightarrow> tool_registry" where
  "platform_tools macos here env wb = registry_of (all_with_sandbox (platform_sandbox macos here) env wb)"

lemmas tool_records = read_file_def write_file_def edit_def bash_def glob_def grep_def web_fetch_def web_search_def
  ask_user_question_def multi_edit_def list_dir_def

lemma tool_names:
  "tl_name (read_file env) = ''read_file''"
  "tl_name (write_file env) = ''write_file''"
  "tl_name (edit env) = ''edit''"
  "tl_name (bash env) = ''bash''"
  "tl_name (glob env) = ''glob''"
  "tl_name (grep env) = ''grep''"
  "tl_name (web_fetch wb) = ''web_fetch''"
  "tl_name (web_search wb) = ''web_search''"
  "tl_name ask_user_question = ''ask_user_question''"
  "tl_name (multi_edit env) = ''multi_edit''"
  "tl_name (list_dir env) = ''list_dir''"
  by (simp_all add: tool_records)

lemma tool_executes:
  "tl_execute (read_file env) = read_file_execute env"
  "tl_execute (write_file env) = write_file_execute env"
  "tl_execute (edit env) = edit_execute env"
  "tl_execute (bash env) = bash_execute env"
  "tl_execute (glob env) = glob_execute env"
  "tl_execute (grep env) = grep_execute env"
  "tl_execute (web_fetch wb) = web_fetch_execute wb"
  "tl_execute (web_search wb) = web_search_execute wb"
  "tl_execute ask_user_question = ask_user_question_execute"
  "tl_execute (multi_edit env) = multi_edit_execute env"
  "tl_execute (list_dir env) = list_dir_execute env"
  by (simp_all add: tool_records)

lemma catalogue_names:
  "map tl_name (catalogue env wb) = [''read_file'', ''write_file'', ''edit'', ''bash'', ''glob'', ''grep'', ''web_fetch'',
     ''web_search'', ''ask_user_question'', ''multi_edit'', ''list_dir'']"
  by (simp add: catalogue_def tool_names)

lemma assoc_new: "k \<notin> fst ` set m \<Longrightarrow> assoc_set k v m = m @ [(k, v)]"
  by (induction m) auto

lemma register_all: "distinct (map tl_name ts) \<Longrightarrow> (\<forall>t \<in> set ts. tl_name t \<notin> fst ` set r) \<Longrightarrow>
   foldl (\<lambda>r t. register_tool t r) r ts = r @ map (\<lambda>t. (tl_name t, t)) ts"
proof (induction ts arbitrary: r)
  case (Cons t ts)
  have "register_tool t r = r @ [(tl_name t, t)]" using Cons.prems(2) assoc_new[of "tl_name t" r t] by (simp add: register_tool_def)
  moreover have "\<forall>t' \<in> set ts. tl_name t' \<noteq> tl_name t" using Cons.prems(1) by (auto simp: image_def)
  ultimately show ?case using Cons.IH[of "r @ [(tl_name t, t)]"] Cons.prems by simp
qed simp

lemma registry_catalogue: "registry_of (catalogue env wb) = map (\<lambda>t. (tl_name t, t)) (catalogue env wb)"
  by (simp add: registry_of_def registry_new_def register_all catalogue_names)

subsection \<open>Schemas are guarded\<close>

text \<open>A schema's required members, and whether a member has the type its schema names.\<close>

definition schema_required :: "json \<Rightarrow> string list" where
  "schema_required schema = (case json_get schema ''required'' of Some (JArr ks) \<Rightarrow> List.map_filter as_str ks | _ \<Rightarrow> [])"

definition member_typed :: "json \<Rightarrow> json \<Rightarrow> string \<Rightarrow> bool" where
  "member_typed schema args k =
     (case Option.bind (Option.bind (json_get schema ''properties'') (\<lambda>ps. json_get ps k)) (\<lambda>p. get_str p ''type'') of
        Some t \<Rightarrow> (if t = ''string'' then get_str args k \<noteq> None
                   else if t = ''array'' then Option.bind (json_get args k) as_array \<noteq> None else True)
      | None \<Rightarrow> True)"

lemmas tool_bodies = read_file_execute_def write_file_execute_def edit_execute_def bash_execute_def glob_execute_def
  grep_execute_def web_fetch_execute_def web_search_execute_def ask_user_question_execute_def multi_edit_execute_def
  list_dir_execute_def need_str_def

text \<open>
  C39. Every tool checks what its schema requires: a call that lacks a required argument, or has it
  with another type than the schema names, is refused as bad arguments before anything else
  happens.
\<close>

theorem schemas_guarded:
  assumes "t \<in> set (catalogue env wb)" and "k \<in> set (schema_required (tl_parameters t))"
    and "\<not> member_typed (tl_parameters t) args k"
  shows "\<exists>m. tl_execute t args w = (Err (Tool_BadArgs m), w)"
  using assms unfolding catalogue_def
  by (auto simp: tool_records tool_bodies schema_required_def member_typed_def object_schema_def string_property_def described_def
      get_str_def str_of_def List.map_filter_def Let_def split: option.splits)

subsection \<open>Calls through the gate\<close>

text \<open>
  One tool call of a turn: the boundary asks the gate, and the registry runs when the boundary
  has reached its executor.  A run of calls starts from the worlds the calls before have left.
\<close>

record tool_call =
  tc_id :: string
  tc_name :: string
  tc_args :: json
  tc_at :: int

definition gated_call :: "string \<Rightarrow> string \<Rightarrow> gate_check option \<Rightarrow> tool_registry \<Rightarrow> tool_call \<Rightarrow> gate_world \<times> tool_world \<Rightarrow> gate_world \<times> tool_world" where
  "gated_call tmp sid gate r c ws =
     (let (_, gw) = dispatch_tool_call tmp gate True (Some (\<lambda>n a. fst (executor_execute r n a (snd ws)))) sid [] []
            (tc_at c) (tc_id c) (tc_name c) (tc_args c) (fst ws)
      in (gw, if gw_executed gw = gw_executed (fst ws) then snd ws else snd (executor_execute r (tc_name c) (tc_args c) (snd ws))))"

definition gated_calls :: "string \<Rightarrow> string \<Rightarrow> gate_check option \<Rightarrow> tool_registry \<Rightarrow> tool_call list \<Rightarrow> gate_world \<times> tool_world \<Rightarrow> gate_world \<times> tool_world" where
  "gated_calls tmp sid gate r cs ws = foldl (\<lambda>ws c. gated_call tmp sid gate r c ws) ws cs"

lemma executed_world: "snd (executor_execute r n a w) = snd (registry_execute r n a w)"
  by (simp add: executor_execute_def split: prod.splits sum.splits)

text \<open>What a call can have done: nothing, or what the tool of its name does.\<close>

lemma gated_call_cases:
  "snd (gated_call tmp sid gate r c ws) = snd ws \<or>
    gw_executed (fst (gated_call tmp sid gate r c ws)) \<noteq> gw_executed (fst ws) \<and>
    (\<exists>t. map_of r (tc_name c) = Some t \<and> snd (gated_call tmp sid gate r c ws) = snd (tl_execute t (tc_args c) (snd ws)))"
  by (auto simp: gated_call_def executed_world registry_execute_def Let_def split: prod.splits option.splits)

lemma catalogue_lookup:
  assumes "map_of (registry_of (catalogue env wb)) n = Some t"
  shows "t \<in> set (catalogue env wb) \<and> tl_name t = n"
  using map_of_SomeD[OF assms] by (auto simp: registry_catalogue)

lemma catalogue_bash: "map_of (registry_of (catalogue env wb)) ''bash'' = Some (bash env)"
  unfolding registry_catalogue by (simp add: catalogue_def tool_names)

lemma reading_tool_quiet:
  assumes "t \<in> set (catalogue env wb)" and "tl_name t \<in> set (read_tools @ web_tools)"
  shows "snd (tl_execute t args w) = w"
  using assms unfolding catalogue_def
  by (auto simp: tool_names tool_executes tool_bodies read_tools_def web_tools_def Let_def split: option.splits sum.splits prod.splits)

lemma ask_questions_frame:
  "ask_questions qs i answers w = (r, w') \<Longrightarrow> tw_files w' = tw_files w \<and> tw_started w' = tw_started w"
  by (induction qs i answers w rule: ask_questions.induct)
    (auto simp: Let_def read_stdin_line_def split: option.splits if_splits prod.splits list.splits sum.splits)

lemma apply_paths_started: "apply_paths env es cs w = (r, w') \<Longrightarrow> tw_started w' = tw_started w"
  by (induction env es cs w rule: apply_paths.induct) (auto simp: write_text_def split: if_splits)

lemma multi_edit_started: "multi_edit_execute env args w = (r, w') \<Longrightarrow> tw_started w' = tw_started w"
  by (drule multi_edit_cases) (auto dest: apply_paths_started)

lemma bash_argv_none: "te_sandbox env = Some [] \<Longrightarrow> \<exists>e. bash_argv env command = Err e"
  by (simp add: bash_argv_def sandbox_transform_def bash_sandbox_command_def workspace_managed_profile_def)

lemma quiet_tool:
  assumes "t \<in> set (catalogue env wb)" and "tl_name t \<noteq> ''bash''"
  shows "tw_started (snd (tl_execute t args w)) = tw_started w"
proof -
  obtain r w' where e: "tl_execute t args w = (r, w')" by force
  show ?thesis using assms e unfolding catalogue_def
    by (auto simp: tool_names tool_executes multi_edit_started)
      (auto simp: tool_bodies Let_def write_text_def dest: ask_questions_frame
        split: option.splits sum.splits prod.splits if_splits)
qed

lemma reading_tool:
  assumes "t \<in> set (catalogue env wb)" and "tl_name t \<notin> {''write_file'', ''edit'', ''multi_edit''}"
  shows "tw_files (snd (tl_execute t args w)) = tw_files w"
proof -
  obtain r w' where e: "tl_execute t args w = (r, w')" by force
  show ?thesis using assms e unfolding catalogue_def
    by (auto simp: tool_names tool_executes tool_bodies Let_def dest: ask_questions_frame
        split: option.splits sum.splits prod.splits if_splits)
qed

lemma bash_starts:
  assumes "te_sandbox env = Some (platform_sandbox macos here)"
  shows "\<exists>argvs. tw_started (snd (bash_execute env args w)) = tw_started w @ argvs \<and>
    (\<forall>argv \<in> set argvs. macos \<and> here \<and> (\<exists>command. wraps (bash_sandbox_command (te_cwd env) command) argv))"
proof (cases "\<exists>command argv. get_str args ''command'' = Some command \<and> bash_argv env command = Ok argv")
  case True
  then obtain command argv where c: "get_str args ''command'' = Some command" "bash_argv env command = Ok argv" by blast
  then have macos: "macos" using bash_argv_none[of env command] assms by (auto simp: platform_sandbox_def split: if_splits)
  then have "here \<and> wraps (bash_sandbox_command (te_cwd env) command) argv"
    using bash_argv_wraps[OF _ c(2), of here] assms by (simp add: platform_sandbox_def)
  moreover have "tw_started (snd (bash_execute env args w)) = tw_started w @ [argv]"
    using c by (simp add: bash_execute_def need_str_def Let_def split: sum.splits)
  ultimately show ?thesis using macos by (intro exI[of _ "[argv]"]) auto
next
  case False
  then have "tw_started (snd (bash_execute env args w)) = tw_started w"
    by (auto simp: bash_execute_def need_str_def split: option.splits sum.splits)
  then show ?thesis by (intro exI[of _ "[]"]) simp
qed

text \<open>What the gate lets a run execute.\<close>

lemma prune_asked: "prune_result tmp sid t c v = (b, x) \<Longrightarrow> gw_asked x = gw_asked v"
  using prune_world(1)[of tmp sid t c v] by simp

lemma dispatch_asked:
  assumes "dispatch_tool_call tmp (Some check) has_store (Some exec) sid run_id turn_id z t n a w = (b, w')"
    and "check t n a w = (res, w1)"
  shows "gw_asked w' = gw_asked w1"
proof (cases "pz_verdict res")
  case Verdict_Allow
  then show ?thesis using assms
    by (cases "exec n a") (auto simp: dispatch_tool_call_def Let_def dest!: prune_asked split: prod.splits)
next
  case Verdict_Deny
  then show ?thesis using assms by (auto simp: dispatch_tool_call_def Let_def)
qed

lemma gated_call_gate:
  assumes "gated_call tmp sid (Some (default_gate_check re_match re_group Mode_Explore ask)) r c ws = (gw', tw')"
  shows "gw_asked gw' = gw_asked (fst ws) \<and>
    (gw_executed gw' = gw_executed (fst ws) \<or>
     tc_name c \<in> set (read_tools @ web_tools) \<and> gw_executed gw' = gw_executed (fst ws) @ [(tc_name c, tc_args c)])"
proof -
  let ?check = "default_gate_check re_match re_group Mode_Explore ask"
  obtain body is_err where d: "dispatch_tool_call tmp (Some ?check) True (Some (\<lambda>n a. fst (executor_execute r n a (snd ws)))) sid [] []
      (tc_at c) (tc_id c) (tc_name c) (tc_args c) (fst ws) = ((body, is_err), gw')"
    using assms by (auto simp: gated_call_def Let_def split: prod.splits)
  show ?thesis
  proof (cases "tc_name c \<in> set (read_tools @ web_tools)")
    case True
    let ?k = "classify_tool_use re_match re_group (tc_name c) (tc_args c)"
    have "?k \<in> {Cat_Read, Cat_WebRead}" using True classify_reads[of re_match re_group "tc_name c" "tc_args c"] by blast
    then have "decide_policy Mode_Explore ?k = Policy_Allow" by (cases ?k) (auto simp: decide_policy_def)
    then obtain res where ck: "?check (tc_id c) (tc_name c) (tc_args c) (fst ws) = (res, fst ws)" "pz_verdict res = Verdict_Allow"
      by (simp add: default_gate_check_def Let_def)
    have "gw_asked gw' = gw_asked (fst ws)" by (rule dispatch_asked[OF d ck(1)])
    with default_gate.gated_dispatch(1)[OF d ck(1)] ck(2) True show ?thesis by simp
  next
    case False
    with explore_never_runs_writes[OF False d] show ?thesis by blast
  qed
qed



lemma ungated_call: "snd (gated_call tmp sid None r c ws) = snd (registry_execute r (tc_name c) (tc_args c) (snd ws))"
proof -
  let ?e = "fst (executor_execute r (tc_name c) (tc_args c) (snd ws))"
  have "gw_executed (snd (dispatch_tool_call tmp None True (Some (\<lambda>n a. fst (executor_execute r n a (snd ws)))) sid [] []
      (tc_at c) (tc_id c) (tc_name c) (tc_args c) (fst ws))) = gw_executed (fst ws) @ [(tc_name c, tc_args c)]"
    by (cases ?e) (simp_all add: dispatch_tool_call_def Let_def split_beta)
  then show ?thesis by (simp add: gated_call_def Let_def split_beta executed_world)
qed

definition ls_call :: tool_call where
  "ls_call = \<lparr>tc_id = ''call'', tc_name = ''bash'', tc_args = JObj [(''command'', JStr ''ls'')], tc_at = 0\<rparr>"

theorem schemas_guarded_witness:
  "\<exists>m. tl_execute (grep sample_tools) (JObj [(''pattern'', JInt 1)]) blank_world = (Err (Tool_BadArgs m), blank_world)"
  by (rule schemas_guarded[of "grep sample_tools" sample_tools sample_web "''pattern''"])
    (simp_all add: catalogue_def schema_required_def member_typed_def grep_def object_schema_def string_property_def
      get_str_def str_of_def List.map_filter_def)


end
