(* ===== verification/Launch.thy ===== *)
theory Launch
  imports Election Toolbox Runner
begin

text \<open>
  How the programs start: the command line of \<^verbatim>\<open>meepo\<close>
  (\<^verbatim>\<open>meepo-cli/src/main.rs\<close>), the command line of the daemon
  (\<^verbatim>\<open>meepo-host/src/bin/host.rs\<close>) and the one the chat starts it with, and the two
  places that build an agent backend from the settings (the CLI's \<^verbatim>\<open>build_backend\<close>, the
  daemon's \<^verbatim>\<open>provider_factory.rs\<close>).

  Environment variables are a map.  A backend is described by its settings: the endpoint it talks
  to, its permission mode, and which stores it writes.  Where the code exits with status 2 the
  model answers \<open>Err\<close> with the message printed.
\<close>

subsection \<open>Permission modes on the command line\<close>

fun mode_text :: "permission_mode \<Rightarrow> string" where
  "mode_text Mode_Explore = ''explore''"
| "mode_text Mode_Ask = ''ask''"
| "mode_text Mode_Execute = ''execute''"
| "mode_text Mode_Bypass = ''bypass''"

definition mode_of_text :: "string \<Rightarrow> permission_mode option" where
  "mode_of_text s = (if s = ''explore'' then Some Mode_Explore else if s = ''ask'' then Some Mode_Ask
     else if s = ''execute'' then Some Mode_Execute else if s = ''bypass'' then Some Mode_Bypass else None)"

definition parse_u32 :: "string \<Rightarrow> nat option" where
  "parse_u32 s = (case parse_usize s of Some n \<Rightarrow> (if n < 2 ^ 32 then Some n else None) | None \<Rightarrow> None)"

subsection \<open>The command line of meepo\<close>

datatype cli_mode = Cli_Run | Cli_Chat | Cli_Headless

record cli =
  cl_mode :: cli_mode
  cl_provider :: string
  cl_model :: "string option"
  cl_base_url :: "string option"
  cl_session :: "string option"
  cl_db :: "string option"
  cl_system :: "string option"
  cl_permission_mode :: permission_mode
  cl_max_attempts :: "nat option"
  cl_self_check :: bool
  cl_positional :: "string list"

definition cli_default :: cli where
  "cli_default = \<lparr>cl_mode = Cli_Run, cl_provider = ''fake'', cl_model = None, cl_base_url = None, cl_session = None, cl_db = None,
     cl_system = None, cl_permission_mode = Mode_Ask, cl_max_attempts = None, cl_self_check = False, cl_positional = []\<rparr>"

definition cl_prompt :: "cli \<Rightarrow> string option" where
  "cl_prompt c = (case cl_positional c of [] \<Rightarrow> None | p # _ \<Rightarrow> Some p)"

text \<open>A flag with a value takes the next argument whatever it is; the last argument is no flag.\<close>

fun parse_args :: "string list \<Rightarrow> cli \<Rightarrow> (cli, string) result" where
  "parse_args [] c = Ok c"
| "parse_args (a # rest) c =
     (if a = ''run'' then parse_args rest (c\<lparr>cl_mode := Cli_Run\<rparr>)
      else if a = ''chat'' then parse_args rest (c\<lparr>cl_mode := Cli_Chat\<rparr>)
      else if a = ''headless'' then parse_args rest (c\<lparr>cl_mode := Cli_Headless\<rparr>)
      else if a = ''--self-check'' then parse_args rest (c\<lparr>cl_self_check := True\<rparr>)
      else (case rest of
          [] \<Rightarrow> parse_args rest (c\<lparr>cl_positional := cl_positional c @ [a]\<rparr>)
        | v # vs \<Rightarrow>
            (if a = ''--provider'' then parse_args vs (c\<lparr>cl_provider := v\<rparr>)
             else if a = ''--model'' then parse_args vs (c\<lparr>cl_model := Some v\<rparr>)
             else if a = ''--base-url'' then parse_args vs (c\<lparr>cl_base_url := Some v\<rparr>)
             else if a = ''--session'' then parse_args vs (c\<lparr>cl_session := Some v\<rparr>)
             else if a = ''--db'' then parse_args vs (c\<lparr>cl_db := Some v\<rparr>)
             else if a = ''--system'' then parse_args vs (c\<lparr>cl_system := Some v\<rparr>)
             else if a = ''--mode'' then
               (case mode_of_text v of
                  Some m \<Rightarrow> parse_args vs (c\<lparr>cl_permission_mode := m\<rparr>)
                | None \<Rightarrow> Err (''unknown --mode '' @ in_quotes v @ ''; use explore|ask|execute|bypass''))
             else if a = ''--max-attempts'' then parse_args vs (c\<lparr>cl_max_attempts := parse_u32 v\<rparr>)
             else parse_args rest (c\<lparr>cl_positional := cl_positional c @ [a]\<rparr>))))"

definition parse_cli :: "string list \<Rightarrow> (cli, string) result" where
  "parse_cli args = parse_args args cli_default"

text \<open>What \<^verbatim>\<open>main\<close> does with it: the session id, and the command with its input.\<close>

datatype cli_command = Command_Run string | Command_Chat string | Command_Headless string string

definition cli_session_id :: "cli \<Rightarrow> string" where
  "cli_session_id c = unwrap_or ''cli-session'' (cl_session c)"

definition default_db :: "(string \<Rightarrow> string option) \<Rightarrow> string" where
  "default_db vars = unwrap_or ''.'' (vars ''HOME'') @ ''/.meepo/runtime.sqlite''"

definition cli_command_of :: "(string \<Rightarrow> string option) \<Rightarrow> cli \<Rightarrow> (cli_command, string) result" where
  "cli_command_of vars c =
     (let db = unwrap_or (default_db vars) (cl_db c) in
      case cl_mode c of
        Cli_Chat \<Rightarrow> Ok (Command_Chat db)
      | Cli_Headless \<Rightarrow>
          (case cl_prompt c of
             None \<Rightarrow> Err ''usage: meepo headless [--provider ...] [--max-attempts N] <instruction>''
           | Some p \<Rightarrow> Ok (Command_Headless db p))
      | Cli_Run \<Rightarrow>
          (case cl_prompt c of
             None \<Rightarrow> Err ''usage: meepo run [--provider fake|openai] [--model M] [--base-url U] [--system S] <prompt>''
           | Some p \<Rightarrow> Ok (Command_Run p)))"

subsection \<open>The command line of the daemon\<close>

record host_args =
  ha_root :: "string option"
  ha_idle_grace_ms :: "nat option"
  ha_provider :: string
  ha_model :: "string option"
  ha_base_url :: "string option"
  ha_mode :: permission_mode
  ha_system :: "string option"

definition host_args_default :: host_args where
  "host_args_default = \<lparr>ha_root = None, ha_idle_grace_ms = None, ha_provider = ''fake'', ha_model = None, ha_base_url = None,
     ha_mode = Mode_Ask, ha_system = None\<rparr>"

fun parse_host :: "string list \<Rightarrow> host_args \<Rightarrow> (host_args, string) result" where
  "parse_host [] h = Ok h"
| "parse_host (a # rest) h =
     (if a = ''--root'' then (case rest of [] \<Rightarrow> Err ''--root needs a value'' | v # vs \<Rightarrow> parse_host vs (h\<lparr>ha_root := Some v\<rparr>))
      else if a = ''--provider'' then
        (case rest of [] \<Rightarrow> Err ''--provider needs a value'' | v # vs \<Rightarrow> parse_host vs (h\<lparr>ha_provider := v\<rparr>))
      else if a = ''--model'' then
        (case rest of [] \<Rightarrow> Err ''--model needs a value'' | v # vs \<Rightarrow> parse_host vs (h\<lparr>ha_model := Some v\<rparr>))
      else if a = ''--base-url'' then
        (case rest of [] \<Rightarrow> Err ''--base-url needs a value'' | v # vs \<Rightarrow> parse_host vs (h\<lparr>ha_base_url := Some v\<rparr>))
      else if a = ''--system'' then
        (case rest of [] \<Rightarrow> Err ''--system needs a value'' | v # vs \<Rightarrow> parse_host vs (h\<lparr>ha_system := Some v\<rparr>))
      else if a = ''--idle-grace-ms'' then
        (case rest of
           [] \<Rightarrow> Err ''--idle-grace-ms needs a number''
         | v # vs \<Rightarrow> (case parse_usize v of None \<Rightarrow> Err ''--idle-grace-ms needs a number''
                      | Some n \<Rightarrow> parse_host vs (h\<lparr>ha_idle_grace_ms := Some n\<rparr>)))
      else if a = ''--mode'' then
        (case rest of
           [] \<Rightarrow> Err ''--mode must be explore|ask|execute|bypass''
         | v # vs \<Rightarrow> (case mode_of_text v of None \<Rightarrow> Err ''--mode must be explore|ask|execute|bypass''
                      | Some m \<Rightarrow> parse_host vs (h\<lparr>ha_mode := m\<rparr>)))
      else if a = ''--expected-root-id'' then (case rest of [] \<Rightarrow> Ok h | v # vs \<Rightarrow> parse_host vs h)
      else Err (''unknown argument '' @ in_quotes a))"

definition parse_host_args :: "string list \<Rightarrow> (string \<times> host_args, string) result" where
  "parse_host_args args =
     (case parse_host args host_args_default of
        Err e \<Rightarrow> Err e
      | Ok h \<Rightarrow> (case ha_root h of None \<Rightarrow> Err ''--root is required'' | Some root \<Rightarrow> Ok (root, h)))"

text \<open>The arguments the chat and the default launcher start the daemon with.\<close>

definition flag_value :: "string \<Rightarrow> string option \<Rightarrow> string list" where
  "flag_value flag v = (case v of None \<Rightarrow> [] | Some x \<Rightarrow> [flag, x])"

definition chat_launch_args :: "string \<Rightarrow> cli \<Rightarrow> string list" where
  "chat_launch_args root c =
     [''--root'', root, ''--provider'', cl_provider c, ''--mode'', mode_text (cl_permission_mode c), ''--idle-grace-ms'', ''30000'']
     @ flag_value ''--model'' (cl_model c) @ flag_value ''--base-url'' (cl_base_url c) @ flag_value ''--system'' (cl_system c)"

definition spawn_candidate_args :: "string \<Rightarrow> string list" where
  "spawn_candidate_args root = [''--root'', root]"

subsection \<open>Backends\<close>

datatype endpoint =
  Endpoint_OpenAI string string string
| Endpoint_Anthropic string "string option" string string

record backend_setup =
  bs_endpoint :: endpoint
  bs_gate :: "permission_mode option"
  bs_stores :: bool

definition DEFAULT_OPENAI_MODEL :: string where "DEFAULT_OPENAI_MODEL = ''deepseek-v4-flash''"
definition DEFAULT_ANTHROPIC_MODEL :: string where "DEFAULT_ANTHROPIC_MODEL = ''claude-sonnet-4-20250514''"

definition gate_of_mode :: "permission_mode \<Rightarrow> permission_mode option" where
  "gate_of_mode m = (if m = Mode_Bypass then None else Some m)"

definition or_else :: "'a option \<Rightarrow> 'a option \<Rightarrow> 'a option" where
  "or_else x y = (case x of None \<Rightarrow> y | Some v \<Rightarrow> Some v)"

text \<open>The daemon's factory: \<open>None\<close> is the scripted fake backend.\<close>

definition daemon_backend ::
    "(string \<Rightarrow> string option) \<Rightarrow> string \<Rightarrow> string option \<Rightarrow> string option \<Rightarrow> permission_mode \<Rightarrow> backend_setup option" where
  "daemon_backend vars provider model base_url mode =
     (if provider = ''openai'' then
        (case vars ''OPENAI_API_KEY'' of
           None \<Rightarrow> None
         | Some key \<Rightarrow> Some \<lparr>bs_endpoint = Endpoint_OpenAI key
               (unwrap_or ''https://api.openai.com/v1'' (or_else base_url (vars ''OPENAI_BASE_URL''))) (unwrap_or DEFAULT_OPENAI_MODEL model),
             bs_gate = gate_of_mode mode, bs_stores = True\<rparr>)
      else if provider = ''anthropic'' then
        (let auth_token = vars ''ANTHROPIC_AUTH_TOKEN''; api_key = vars ''ANTHROPIC_API_KEY'' in
         if api_key = None \<and> auth_token = None then None
         else Some \<lparr>bs_endpoint = Endpoint_Anthropic (unwrap_or [] api_key) auth_token
               (unwrap_or ''https://api.anthropic.com'' (or_else base_url (vars ''ANTHROPIC_BASE_URL''))) (unwrap_or DEFAULT_ANTHROPIC_MODEL model),
             bs_gate = gate_of_mode mode, bs_stores = True\<rparr>)
      else None)"

definition build_backend :: "(string \<Rightarrow> string option) \<Rightarrow> cli \<Rightarrow> bool \<Rightarrow> (backend_setup option, string) result" where
  "build_backend vars c store =
     (if cl_provider c = ''aimux'' \<or> cl_provider c = ''openai'' then
        (case vars ''OPENAI_API_KEY'' of
           None \<Rightarrow> Err ''OPENAI_API_KEY is not set''
         | Some key \<Rightarrow> Ok (Some \<lparr>bs_endpoint = Endpoint_OpenAI key
               (unwrap_or ''https://api.openai.com/v1'' (or_else (cl_base_url c) (vars ''OPENAI_BASE_URL'')))
               (unwrap_or DEFAULT_OPENAI_MODEL (cl_model c)),
             bs_gate = gate_of_mode (cl_permission_mode c), bs_stores = store\<rparr>))
      else if cl_provider c = ''anthropic'' then
        (let auth_token = vars ''ANTHROPIC_AUTH_TOKEN''; api_key = vars ''ANTHROPIC_API_KEY'' in
         if api_key = None \<and> auth_token = None then Err ''ANTHROPIC_API_KEY or ANTHROPIC_AUTH_TOKEN is not set''
         else Ok (Some \<lparr>bs_endpoint = Endpoint_Anthropic (unwrap_or [] api_key) auth_token
               (unwrap_or ''https://api.anthropic.com'' (or_else (cl_base_url c) (vars ''ANTHROPIC_BASE_URL'')))
               (unwrap_or DEFAULT_ANTHROPIC_MODEL (cl_model c)),
             bs_gate = gate_of_mode (cl_permission_mode c), bs_stores = store\<rparr>))
      else Ok None)"

subsection \<open>The scripted backend\<close>

text \<open>
  \<^verbatim>\<open>FakeBackend\<close> of \<^verbatim>\<open>meepo-core/src/backend.rs\<close>: the steps it replays, one for
  each \<^verbatim>\<open>send\<close>, and how many have been asked for.
\<close>

record fake_backend =
  fk_session_id :: string
  fk_steps :: "session_event list list"
  fk_calls :: nat

definition fake_new :: "string \<Rightarrow> session_event list \<Rightarrow> fake_backend" where
  "fake_new sid script = \<lparr>fk_session_id = sid, fk_steps = [script], fk_calls = 0\<rparr>"

definition fake_new_stepped :: "string \<Rightarrow> session_event list list \<Rightarrow> fake_backend" where
  "fake_new_stepped sid steps = \<lparr>fk_session_id = sid, fk_steps = steps, fk_calls = 0\<rparr>"

definition fake_send :: "fake_backend \<Rightarrow> session_event list \<times> fake_backend" where
  "fake_send b = ((if fk_calls b < length (fk_steps b) then fk_steps b ! fk_calls b else []), b\<lparr>fk_calls := fk_calls b + 1\<rparr>)"

definition fake_compact_history :: "chat_message list \<Rightarrow> (string, string) result" where
  "fake_compact_history ms = Ok (''[fake compact of '' @ show_nat (length ms) @ '' messages]'')"

text \<open>The scripts of the CLI and of the daemon.\<close>

definition fake_script :: "string \<Rightarrow> session_event list" where
  "fake_script prompt = [SE_TextComplete ''1'' ''t'' 0 ''m'' (''meepo (fake backend): '' @ prompt) None,
     SE_Complete ''2'' ''t'' 1 Stop_EndTurn]"

definition daemon_fake_script :: "session_event list" where
  "daemon_fake_script = [SE_TextComplete ''1'' ''t'' 0 ''m'' ''meepo (fake backend)'' None, SE_Complete ''2'' ''t'' 1 Stop_EndTurn]"

subsection \<open>A single turn\<close>

text \<open>What an event prints: on the output, and on the error stream.\<close>

definition live_output :: "runtime_event \<Rightarrow> string" where
  "live_output e =
     (case ev_content e of
        Some (Content_Text body _ _) \<Rightarrow> (if ev_role e = Role_Model then body else [])
      | _ \<Rightarrow> [])"

definition live_log :: "(json \<Rightarrow> string) \<Rightarrow> runtime_event \<Rightarrow> string list" where
  "live_log json_text e =
     (case ev_content e of
        Some (Content_FunctionResponse _ _ result is_error _ _) \<Rightarrow>
          (if unwrap_or False is_error then [] else [''[tool result] '' @ json_text result])
      | Some (Content_Error message _ _ _) \<Rightarrow> [''[error] '' @ message]
      | _ \<Rightarrow> [])"

text \<open>The loop over the stream: what is printed, and the status, failed if the stream has none.\<close>

fun drive_printed :: "turn_event list \<Rightarrow> string \<times> run_status \<Rightarrow> string \<times> run_status" where
  "drive_printed [] r = r"
| "drive_printed (Turn_Event e # ts) (out, st) = drive_printed ts (out @ live_output e, st)"
| "drive_printed (Turn_Done t st ms c # ts) (out, _) = drive_printed ts (out, st)"

definition resolve_system :: "string \<Rightarrow> cli \<Rightarrow> string" where
  "resolve_system default_prompt c = unwrap_or default_prompt (cl_system c)"

definition single_turn_input :: "string \<Rightarrow> cli \<Rightarrow> string \<Rightarrow> backend_send_input" where
  "single_turn_input default_prompt c prompt = \<lparr>in_turn_id = ''t1'', in_run_id = Some ''r1'', in_invocation_id = Some ''inv1'',
     in_max_steps = None, in_messages = [User_Msg prompt], in_system_prompt = Some (resolve_system default_prompt c), in_tools = []\<rparr>"

definition run_single_turn ::
    "(json \<Rightarrow> string) \<Rightarrow> string \<Rightarrow> (chat_message list \<Rightarrow> (string, string) result) \<Rightarrow> (backend_send_input \<Rightarrow> session_event list) \<Rightarrow>
     string \<Rightarrow> cli \<Rightarrow> string \<Rightarrow> string \<times> run_status" where
  "run_single_turn json_text default_prompt compact send sid c prompt =
     (let ctx = \<lparr>ctx_session_id = sid, ctx_run_id = ''r1'', ctx_invocation_id = ''inv1'', ctx_turn_id = ''t1''\<rparr>;
          (out, st) = drive_printed (run_stream json_text compact send ctx (single_turn_input default_prompt c prompt) None) ([], Run_Failed)
      in (out @ [CHR 0x0A], st))"

text \<open>The fake provider echoes the prompt and completes; a second turn of the same backend has no steps left and fails.\<close>

lemma fake_run_echoes:
  "run_single_turn json_text d fake_compact_history (\<lambda>_. fst (fake_send (fake_new sid (fake_script prompt)))) sid c prompt =
     (''meepo (fake backend): '' @ prompt @ [CHR 0x0A], Run_Completed)"
  "fst (fake_send (snd (fake_send (fake_new sid script)))) = []"
  by (simp_all add: run_single_turn_def single_turn_input_def run_stream_def compact_if_needed_rolling_def compact_if_needed_with_def
      DEFAULT_KEEP_RECENT_def fake_send_def fake_new_def fake_script_def user_turn_def user_event_def live_output_def skeleton_def
      event_base_def end_turn_def run_status_of_def Let_def)

subsection \<open>What is asked for arrives\<close>

lemma mode_round: "mode_of_text (mode_text m) = Some m"
  by (cases m) (simp_all add: mode_of_text_def)

lemma idle_grace_round: "parse_usize ''30000'' = Some 30000"
  by (simp add: parse_usize_def)

lemma chat_args_parsed:
  "parse_host_args (chat_launch_args root c) =
     Ok (root, \<lparr>ha_root = Some root, ha_idle_grace_ms = Some 30000, ha_provider = cl_provider c, ha_model = cl_model c,
       ha_base_url = cl_base_url c, ha_mode = cl_permission_mode c, ha_system = cl_system c\<rparr>)"
  by (cases "cl_model c"; cases "cl_base_url c"; cases "cl_system c")
    (simp_all add: parse_host_args_def chat_launch_args_def flag_value_def host_args_default_def mode_round idle_grace_round)

text \<open>
  The daemon a chat starts reads from its command line exactly the chat's settings, whatever
  the strings in them, and builds from them the backend the CLI would build for itself, with one
  exception: where the CLI refuses to run for want of a key, and for the provider name
  ''aimux'', which only the CLI knows, the daemon answers with the fake backend.
\<close>

lemma chat_daemon_mirrors_cli:
  "\<exists>h. parse_host_args (chat_launch_args root c) = Ok (root, h) \<and> ha_system h = cl_system c \<and> ha_idle_grace_ms h = Some 30000 \<and>
    ha_mode h = cl_permission_mode c \<and>
    daemon_backend vars (ha_provider h) (ha_model h) (ha_base_url h) (ha_mode h) =
      (if cl_provider c = ''aimux'' then None
       else (case build_backend vars c True of Ok b \<Rightarrow> b | Err e \<Rightarrow> None))"
  unfolding chat_args_parsed by (simp add: daemon_backend_def build_backend_def Let_def split: option.splits)

text \<open>
  A chat starts a daemon only when it finds no owner of the root.  Attached to an owner it runs
  under the settings that owner was started with, its permission mode included.
\<close>

definition chat_connects ::
    "string \<Rightarrow> cli \<Rightarrow> nat \<Rightarrow> root_world \<Rightarrow> (nat \<Rightarrow> root_world) \<Rightarrow> (nat \<Rightarrow> nat) \<Rightarrow> (nat, connect_error) result \<times> string list option" where
  "chat_connects root c deadline w obs extra =
     (connect_or_spawn_with deadline w obs extra, (if try_owner w = None then Some (chat_launch_args root c) else None))"

lemma attached_chat_settings_ignored:
  "try_owner w = Some p \<Longrightarrow> chat_connects root c deadline w obs extra = (Ok p, None)"
  by (simp add: chat_connects_def connect_or_spawn_with_def)

text \<open>
  The CLI refuses a command line only for an unknown mode.  A flag that lacks its value is taken
  for the prompt, and a command word anywhere changes the command.
\<close>

lemma if_pick: "(if b then x else y) = z \<Longrightarrow> (b \<Longrightarrow> x = z \<Longrightarrow> P) \<Longrightarrow> (y = z \<Longrightarrow> P) \<Longrightarrow> P"
  by (cases b) simp_all

lemma parse_args_step:
  assumes "parse_args (a # rest) c = Err m"
  shows "(\<exists>c'. parse_args rest c' = Err m) \<or>
    (\<exists>v vs. rest = v # vs \<and> ((\<exists>c'. parse_args vs c' = Err m) \<or> a = ''--mode'' \<and> mode_of_text v = None))"
proof (cases "a \<in> {''run'', ''chat'', ''headless'', ''--self-check''}")
  case True
  then show ?thesis using assms by (auto split: if_splits)
next
  case False
  show ?thesis
  proof (cases rest)
    case (Cons v vs)
    note e = assms[unfolded Cons parse_args.simps(2)[of a "v # vs" c] list.case]
    show ?thesis
    proof (cases "a = ''--mode'' \<and> mode_of_text v = None")
      case other: False
      have "(\<exists>c'. parse_args (v # vs) c' = Err m) \<or> (\<exists>c'. parse_args vs c' = Err m)"
      proof (cases "mode_of_text v")
        case None
        then show ?thesis using e other by (elim if_pick) blast+
      next
        case (Some p)
        then show ?thesis using e[unfolded Some option.case] by (elim if_pick) blast+
      qed
      then show ?thesis unfolding Cons by blast
    qed (use Cons in blast)
  qed (use assms False in simp)
qed

lemma parse_args_refuses:
  "parse_args args c = Err m \<Longrightarrow> \<exists>v. sublist [''--mode'', v] args \<and> mode_of_text v = None"
proof (induction "length args" arbitrary: args c rule: less_induct)
  case less
  show ?case
  proof (cases args)
    case (Cons a rest)
    from parse_args_step[of a rest c m] less.prems Cons
    consider c' where "parse_args rest c' = Err m" | v vs c' where "rest = v # vs" "parse_args vs c' = Err m"
      | v vs where "rest = v # vs" "a = ''--mode''" "mode_of_text v = None" by blast
    then show ?thesis
    proof cases
      case 1
      with less.hyps[of rest c'] Cons show ?thesis by (auto simp: sublist_Cons_right)
    next
      case 2
      with less.hyps[of vs c'] Cons show ?thesis by (auto simp: sublist_Cons_right)
    next
      case 3
      then show ?thesis using Cons by (intro exI[of _ v]) (simp add: sublist_Cons_right)
    qed
  qed (use less.prems in simp)
qed

lemma cli_oddities:
  "map_sum id cl_prompt (parse_cli [''run'', ''--model'']) = Ok (Some ''--model'')"
  "map_sum id cl_mode (parse_cli [''run'', ''chat'']) = Ok Cli_Chat"
  "map_sum id cl_max_attempts (parse_cli [''headless'', ''--max-attempts'', ''many'', ''x'']) = Ok None"
  by (simp_all add: parse_cli_def cl_prompt_def cli_default_def parse_u32_def parse_usize_def)

end
