(* ===== verification/Provider_Wire.thy ===== *)
theory Provider_Wire
  imports Agent_Loop
begin

text \<open>
  What the agent loop sends to the provider: the conversion of a conversation and of the tool
  definitions to the provider library's types, and the summary request of a compaction
  (\<^verbatim>\<open>meepo-providers/src/aimux_backend.rs\<close>).  Of the library's messages the model has
  the parts the conversion fills; the fields it always leaves empty are left out.
\<close>

subsection \<open>Messages\<close>

datatype content_part =
    CP_Reasoning string "string option"
  | CP_Text string
  | CP_ToolCall string string json
  | CP_ToolResult string json

datatype model_role = Speaker_User | Speaker_Assistant | Speaker_Tool

datatype model_message = Model_Text model_role string | Model_Parts model_role "content_part list"

definition assistant_content :: "string option \<Rightarrow> assistant_tool_call list \<Rightarrow> thinking_block list \<Rightarrow> content_part list" where
  "assistant_content c calls thinking =
     map (\<lambda>tb. CP_Reasoning (tb_text tb) (tb_signature tb)) thinking @
     (case c of None \<Rightarrow> [] | Some t \<Rightarrow> [CP_Text t]) @
     map (\<lambda>tc. CP_ToolCall (atc_id tc) (atc_name tc) (atc_args tc)) calls"

fun to_model :: "chat_message \<Rightarrow> model_message" where
  "to_model (User_Msg c) = Model_Text Speaker_User c"
| "to_model (Assistant_Msg c calls thinking) = Model_Parts Speaker_Assistant (assistant_content c calls thinking)"
| "to_model (Tool_Msg i c) = Model_Parts Speaker_Tool [CP_ToolResult i (JStr c)]"

definition chat_to_aimux_messages :: "chat_message list \<Rightarrow> model_message list" where
  "chat_to_aimux_messages ms = map to_model ms"

text \<open>\<^verbatim>\<open>v[k]\<close> is null where there is no such member.\<close>

definition json_index :: "json \<Rightarrow> string \<Rightarrow> json" where
  "json_index v k = unwrap_or JNull (json_get v k)"

definition executor_to_aimux_tools :: "json list \<Rightarrow> (string \<times> string \<times> json) list" where
  "executor_to_aimux_tools functions =
     map (\<lambda>t. (unwrap_or [] (as_str (json_index (json_index t ''function'') ''name'')),
               unwrap_or [] (as_str (json_index (json_index t ''function'') ''description'')),
               json_index (json_index t ''function'') ''parameters'')) functions"

subsection \<open>The summary of a compaction\<close>

definition compact_history ::
    "(model_message list \<Rightarrow> ((part, string) result list, string) result) \<Rightarrow> chat_message list \<Rightarrow> (string, string) result" where
  "compact_history model ms =
     (case model (chat_to_aimux_messages ms) of
        Err e \<Rightarrow> Err e
      | Ok parts \<Rightarrow>
          (let summary = concat (map (\<lambda>p. case p of Ok (Part_TextDelta _ d) \<Rightarrow> d | _ \<Rightarrow> []) parts)
           in Ok (if summary = [] then ''[compact: empty]'' else summary)))"

subsection \<open>Requests a provider accepts\<close>

text \<open>
  The open tool calls after a message, \<open>None\<close> once the conversation breaks the provider's rules:
  every tool call of an assistant message is answered, once, before anyone else speaks; the calls
  of a message have different ids; reasoning comes before everything else in its message.
\<close>

fun part_call :: "content_part \<Rightarrow> string option" where
  "part_call (CP_ToolCall i _ _) = Some i"
| "part_call _ = None"

fun is_reasoning :: "content_part \<Rightarrow> bool" where
  "is_reasoning (CP_Reasoning _ _) = True"
| "is_reasoning _ = False"

definition parts_calls :: "content_part list \<Rightarrow> string list" where
  "parts_calls ps = List.map_filter part_call ps"

definition reasoning_first :: "content_part list \<Rightarrow> bool" where
  "reasoning_first ps \<longleftrightarrow> list_all (\<lambda>p. \<not> is_reasoning p) (dropWhile is_reasoning ps)"

definition pair_step :: "string set option \<Rightarrow> model_message \<Rightarrow> string set option" where
  "pair_step acc m =
     (case acc of
        None \<Rightarrow> None
      | Some open \<Rightarrow>
          (case m of
             Model_Text _ _ \<Rightarrow> (if open = {} then Some {} else None)
           | Model_Parts Speaker_Tool [CP_ToolResult i _] \<Rightarrow> (if i \<in> open then Some (open - {i}) else None)
           | Model_Parts Speaker_Assistant ps \<Rightarrow>
               (if open = {} \<and> distinct (parts_calls ps) \<and> reasoning_first ps then Some (set (parts_calls ps)) else None)
           | _ \<Rightarrow> None))"

definition paired :: "model_message list \<Rightarrow> bool" where
  "paired ms \<longleftrightarrow> foldl pair_step (Some {}) ms = Some {}"

text \<open>A provider that refuses a request that breaks the rules.\<close>

definition strict :: "(nat \<Rightarrow> model_message list \<Rightarrow> provider_answer) \<Rightarrow> nat \<Rightarrow> model_message list \<Rightarrow> provider_answer" where
  "strict provider k ms = (if paired ms then provider k ms else Provider_Failed ''malformed request'')"

fun stream_call :: "(part, string) result \<Rightarrow> string option" where
  "stream_call (Ok (Part_ToolCall i _ _)) = Some i"
| "stream_call _ = None"

definition stream_calls :: "(part, string) result list \<Rightarrow> string list" where
  "stream_calls ps = List.map_filter stream_call ps"

lemma assistant_parts:
  "parts_calls (assistant_content c calls thinking) = map atc_id calls"
  "reasoning_first (assistant_content c calls thinking)"
proof -
  have "List.map_filter part_call (map (\<lambda>tb. CP_Reasoning (tb_text tb) (tb_signature tb)) thinking) = []"
    by (induction thinking) (simp_all add: List.map_filter_def)
  moreover have "List.map_filter part_call (map (\<lambda>tc. CP_ToolCall (atc_id tc) (atc_name tc) (atc_args tc)) calls) = map atc_id calls"
    by (induction calls) (simp_all add: List.map_filter_def)
  ultimately show "parts_calls (assistant_content c calls thinking) = map atc_id calls"
    unfolding parts_calls_def assistant_content_def by (cases c) (simp_all add: List.map_filter_def)
  have "dropWhile is_reasoning (assistant_content c calls thinking) = (case c of None \<Rightarrow> [] | Some t \<Rightarrow> [CP_Text t]) @
      map (\<lambda>tc. CP_ToolCall (atc_id tc) (atc_name tc) (atc_args tc)) calls"
    unfolding assistant_content_def by (induction thinking) (cases calls; cases c; simp)+
  then show "reasoning_first (assistant_content c calls thinking)" by (cases c) (simp_all add: reasoning_first_def list_all_iff)
qed

lemma pair_assistant:
  "distinct (map atc_id calls) \<Longrightarrow> pair_step (Some {}) (to_model (Assistant_Msg c calls thinking)) = Some (set (map atc_id calls))"
  by (simp add: pair_step_def assistant_parts)

lemma pair_tool: "i \<in> open \<Longrightarrow> pair_step (Some open) (to_model (Tool_Msg i body)) = Some (open - {i})"
  by (simp add: pair_step_def)

lemma run_call_message: "\<exists>body. ag_messages (run_call sha256 json_text c s tc) = ag_messages s @ [Tool_Msg (atc_id tc) body]"
  by (simp add: run_call_def Let_def split_beta)

lemma run_calls_pair:
  assumes "foldl pair_step (Some {}) (chat_to_aimux_messages (ag_messages s)) = Some (set (map atc_id tcs))" and "distinct (map atc_id tcs)"
  shows "paired (chat_to_aimux_messages (ag_messages (foldl (run_call sha256 json_text c) s tcs)))"
  using assms
proof (induction tcs arbitrary: s)
  case (Cons tc tcs)
  obtain body where m: "ag_messages (run_call sha256 json_text c s tc) = ag_messages s @ [Tool_Msg (atc_id tc) body]"
    using run_call_message by blast
  have "foldl pair_step (Some {}) (chat_to_aimux_messages (ag_messages (run_call sha256 json_text c s tc))) = Some (set (map atc_id tcs))"
    using Cons.prems pair_tool[of "atc_id tc" "set (map atc_id (tc # tcs))" body] by (simp add: m chat_to_aimux_messages_def)
  with Cons.IH[of "run_call sha256 json_text c s tc"] Cons.prems(2) show ?case by simp
qed (simp add: paired_def)

lemma consume_failed: "st_failed s \<Longrightarrow> st_failed (foldl (consume_part t) s ps)"
  by (induction ps arbitrary: s) (simp_all add: consume_part_def)

lemma consume_part_calls:
  assumes "\<not> st_failed (consume_part t s p)"
  shows "map atc_id (st_tool_calls (consume_part t s p)) = map atc_id (st_tool_calls s) @ stream_calls [p]"
    and "ag_messages (st_agent (consume_part t s p)) = ag_messages (st_agent s)"
  using assms
  by (auto simp: consume_part_def stream_calls_def List.map_filter_def Let_def split: sum.splits part.splits if_splits)

lemma consume_parts_calls:
  assumes "\<not> st_failed (foldl (consume_part t) s ps)"
  shows "map atc_id (st_tool_calls (foldl (consume_part t) s ps)) = map atc_id (st_tool_calls s) @ stream_calls ps \<and>
    ag_messages (st_agent (foldl (consume_part t) s ps)) = ag_messages (st_agent s)"
  using assms
proof (induction ps arbitrary: s)
  case (Cons p ps)
  then have f: "\<not> st_failed (consume_part t s p)" using consume_failed by auto
  have "stream_calls (p # ps) = stream_calls [p] @ stream_calls ps" by (simp add: stream_calls_def List.map_filter_def)
  with Cons.IH[of "consume_part t s p"] Cons.prems consume_part_calls[OF f] show ?case by simp
qed (simp add: stream_calls_def List.map_filter_def)

lemma strict_steps:
  assumes "\<And>k ms ps. provider k ms = Provider_Parts ps \<Longrightarrow> distinct (stream_calls ps)"
  shows "paired (chat_to_aimux_messages (ag_messages s)) \<Longrightarrow>
    agent_steps sha256 json_text cancelled (\<lambda>k ms. strict provider k (chat_to_aimux_messages ms)) c left step s =
    agent_steps sha256 json_text cancelled (\<lambda>k ms. provider k (chat_to_aimux_messages ms)) c left step s"
proof (induction left arbitrary: step s)
  case (Suc left)
  let ?ms = "chat_to_aimux_messages (ag_messages s)"
  have same: "strict provider step ?ms = provider step ?ms" using Suc.prems by (simp add: strict_def)
  show ?case
  proof (cases "\<exists>ps. provider step ?ms = Provider_Parts ps")
    case True
    then obtain ps where ps: "provider step ?ms = Provider_Parts ps" by blast
    let ?t = "consume_parts (ac_turn_id c) s ps"
    let ?a = "st_agent ?t"
    let ?next = "foldl (run_call sha256 json_text c) (?a\<lparr>ag_messages := ag_messages ?a @
        [Assistant_Msg (if st_text ?t = [] then None else Some (st_text ?t)) (st_tool_calls ?t) (st_blocks ?t)]\<rparr>) (st_tool_calls ?t)"
    have "paired (chat_to_aimux_messages (ag_messages ?next))" if "\<not> st_failed ?t"
    proof (rule run_calls_pair)
      have calls: "map atc_id (st_tool_calls ?t) = stream_calls ps" and msgs: "ag_messages ?a = ag_messages s"
        using consume_parts_calls[OF that[unfolded consume_parts_def]] by (simp_all add: consume_parts_def)
      show d: "distinct (map atc_id (st_tool_calls ?t))" using assms[OF ps] calls by simp
      show "foldl pair_step (Some {}) (chat_to_aimux_messages (ag_messages (?a\<lparr>ag_messages := ag_messages ?a @
          [Assistant_Msg (if st_text ?t = [] then None else Some (st_text ?t)) (st_tool_calls ?t) (st_blocks ?t)]\<rparr>))) =
        Some (set (map atc_id (st_tool_calls ?t)))"
        using Suc.prems pair_assistant[OF d] by (simp add: msgs chat_to_aimux_messages_def paired_def)
    qed
    with Suc.IH[of ?next "Suc step"] ps same show ?thesis by (simp add: Let_def)
  qed (use same in \<open>auto split: provider_answer.splits\<close>)
qed simp

text \<open>
  C37. Every request the agent loop sends keeps the provider's rules: tool calls are answered,
  each once, before the conversation goes on, and reasoning leads its message.  A provider that
  refuses every request that breaks them cannot be told from one that never checks, provided the
  conversation the run starts from keeps them and the provider gives the calls of one answer
  different ids.
\<close>

theorem requests_well_formed:
  assumes "paired (chat_to_aimux_messages (in_messages inp))"
    and "\<And>k ms ps. provider k ms = Provider_Parts ps \<Longrightarrow> distinct (stream_calls ps)"
  shows "agent_send sha256 json_text cancelled (\<lambda>k ms. strict provider k (chat_to_aimux_messages ms)) c counter w inp =
    agent_send sha256 json_text cancelled (\<lambda>k ms. provider k (chat_to_aimux_messages ms)) c counter w inp"
  unfolding agent_send_def
  by (rule strict_steps) (use assms in \<open>simp_all only: agent_state.select_convs\<close>)

text \<open>Nothing of a conversation is lost on the way to the provider.\<close>

fun part_blocks :: "content_part list \<Rightarrow> thinking_block list" where
  "part_blocks [] = []"
| "part_blocks (CP_Reasoning t s # ps) = \<lparr>tb_text = t, tb_signature = s\<rparr> # part_blocks ps"
| "part_blocks (p # ps) = part_blocks ps"

fun part_texts :: "content_part list \<Rightarrow> string option" where
  "part_texts [] = None"
| "part_texts (CP_Text t # ps) = Some t"
| "part_texts (p # ps) = part_texts ps"

fun part_tool_calls :: "content_part list \<Rightarrow> assistant_tool_call list" where
  "part_tool_calls [] = []"
| "part_tool_calls (CP_ToolCall i n a # ps) = \<lparr>atc_id = i, atc_name = n, atc_args = a\<rparr> # part_tool_calls ps"
| "part_tool_calls (p # ps) = part_tool_calls ps"

definition of_model :: "model_message \<Rightarrow> chat_message" where
  "of_model m =
     (case m of
        Model_Parts Speaker_Tool [CP_ToolResult i v] \<Rightarrow> Tool_Msg i (unwrap_or [] (as_str v))
      | Model_Parts _ ps \<Rightarrow> Assistant_Msg (part_texts ps) (part_tool_calls ps) (part_blocks ps)
      | Model_Text _ c \<Rightarrow> User_Msg c)"

lemma of_assistant:
  "part_blocks (assistant_content c calls thinking) = thinking"
  "part_texts (assistant_content c calls thinking) = c"
  "part_tool_calls (assistant_content c calls thinking) = calls"
proof -
  let ?calls = "map (\<lambda>tc. CP_ToolCall (atc_id tc) (atc_name tc) (atc_args tc)) calls"
  have "part_blocks ?calls = []" "part_texts ?calls = None" "part_tool_calls ?calls = calls" by (induction calls) auto
  then show "part_blocks (assistant_content c calls thinking) = thinking" "part_texts (assistant_content c calls thinking) = c"
    "part_tool_calls (assistant_content c calls thinking) = calls"
    unfolding assistant_content_def by (induction thinking; cases c; auto)+
qed

lemma of_model_to_model: "of_model (to_model m) = m"
  by (cases m) (simp_all add: of_model_def of_assistant)

definition echo_provider :: "nat \<Rightarrow> model_message list \<Rightarrow> provider_answer" where
  "echo_provider k ms = Provider_Parts (if k = 0 then [Ok (Part_ToolCall ''c'' ''read_file'' (JObj []))] else [Ok (Part_TextDelta ''m'' ''hi'')])"

theorem requests_well_formed_witness:
  "agent_send (\<lambda>_. []) (\<lambda>_. []) (\<lambda>_. False) (\<lambda>k ms. strict echo_provider k (chat_to_aimux_messages ms)) sample_config 0 sample_world sample_input =
   agent_send (\<lambda>_. []) (\<lambda>_. []) (\<lambda>_. False) (\<lambda>k ms. echo_provider k (chat_to_aimux_messages ms)) sample_config 0 sample_world sample_input"
  by (rule requests_well_formed)
    (auto simp: sample_input_def chat_to_aimux_messages_def paired_def pair_step_def echo_provider_def stream_calls_def List.map_filter_def)

end
