(* ===== verification/Remote_Call.thy ===== *)
theory Remote_Call
  imports Client Wire_Codec
begin

text \<open>
  The client and the connection together: a request goes through the client's codec, the bytes
  between them chop anywhere, the host's decoder, the dispatcher, and the same path in reverse, with what
  the host pushes in between.  Nothing here is code of its own; the theory composes \<open>Client\<close>,
  \<open>Connection\<close> and \<open>Wire_Codec\<close> to state what a call over the wire is worth.
\<close>

text \<open>The bytes of frames as the other side receives them: cut by \<open>chop\<close>, decoded; a fault ends them.\<close>

definition over_the_wire ::
    "(json \<Rightarrow> string option) \<Rightarrow> (string \<Rightarrow> json option) \<Rightarrow> (string \<Rightarrow> string list) \<Rightarrow> json list \<Rightarrow> json list \<times> protocol_error option" where
  "over_the_wire to_text of_text chop frames =
     (case encode_all to_text frames [] of
        Err e \<Rightarrow> ([], Some e)
      | Ok bytes \<Rightarrow> (let (vs, _, e) = feed of_text (chop bytes) [] in (vs, e)))"

definition received :: "json list \<times> protocol_error option \<Rightarrow> json option list" where
  "received r = map Some (fst r) @ (case snd r of None \<Rightarrow> [] | Some _ \<Rightarrow> [None])"

definition incoming :: "json list \<times> protocol_error option \<Rightarrow> (json, protocol_error) result list" where
  "incoming r = map Ok (fst r) @ (case snd r of None \<Rightarrow> [] | Some e \<Rightarrow> [Err e])"

definition remote_call ::
    "(json \<Rightarrow> string option) \<Rightarrow> (string \<Rightarrow> json option) \<Rightarrow> (string \<Rightarrow> string list) \<Rightarrow> op_context \<Rightarrow> 's dispatcher \<Rightarrow>
     (nat \<Rightarrow> string) \<Rightarrow> (nat \<Rightarrow> string) \<Rightarrow> string \<Rightarrow> json \<Rightarrow> subscription_frame list \<Rightarrow> host_client \<Rightarrow> 's conn \<Rightarrow>
     (json, client_error) result \<times> host_client \<times> 's conn" where
  "remote_call to_text of_text chop ctx d ids subs operation input pushed_frames c h =
     (let req = request_json \<lparr>rq_request_id = ids (cl_ids c), rq_operation = operation, rq_input = input\<rparr>;
          h' = serve_requests ctx d subs (\<lambda>_. True) (received (over_the_wire to_text of_text chop [req])) h;
          reply = map frame_json pushed_frames @ map response_json (drop (length (cn_written h)) (cn_written h'));
          (r, c') = client_request ids operation input (c\<lparr>cl_in := incoming (over_the_wire to_text of_text chop reply)\<rparr>)
      in (r, c', h'))"

lemma wire_transparent:
  assumes "list_all (sendable to_text of_text) vs" and "\<And>b. concat (chop b) = b"
  shows "over_the_wire to_text of_text chop vs = (vs, None)"
proof -
  have ok: "list_all (text_ok to_text of_text) vs" using assms(1) by (auto simp: list_all_iff sendable_def)
  have e: "encode_all to_text vs [] = Ok (stream_of to_text vs)" using encode_all_stream[OF ok] assms(1) by simp
  have "vs = []" if "chop (stream_of to_text vs) = []"
    using assms(2)[of "stream_of to_text vs"] that by (cases vs) (auto simp: stream_of_def)
  then have "feed of_text (chop (stream_of to_text vs)) [] = (vs, [], None)"
    using feed_stream[OF assms(1), of "[]"] assms(2) by simp
  then show ?thesis by (simp add: over_the_wire_def e)
qed

lemma served_request:
  fixes i :: string
  assumes "operation \<noteq> ''subscription.open''" and "operation \<noteq> ''subscription.close''"
    and "dispatch d operation input ctx (cn_service h) = (res, s)"
  defines "req \<equiv> \<lparr>rq_request_id = i, rq_operation = operation, rq_input = input\<rparr>"
  shows "serve_requests ctx d subs (\<lambda>_. True) [Some (request_json req)] h =
    h\<lparr>cn_service := s, cn_offered := cn_offered h + 1, cn_written := cn_written h @ [outcome_response req res]\<rparr>"
proof -
  have "decode_client_frame (request_json req) = Ok (CF_Request req)" using client_round[of "CF_Request req"] by simp
  then show ?thesis using assms(1-3) by (simp add: answer_request_def enqueue_response_def req_def Let_def)
qed

text \<open>
  C38. A call over the wire is the call itself: wherever the bytes are cut and whatever the host
  pushes before the answer, the client gets what the dispatcher answers for its operation and
  input, the services change exactly as that operation changes them, and the pushed frames wait
  for their reader in order.  Only a null answer is reported as a failed handshake, and an error's
  message is capped.
\<close>

theorem remote_call_is_local:
  fixes ids :: "nat \<Rightarrow> string" and c :: host_client
  assumes "operation \<noteq> ''subscription.open''" and "operation \<noteq> ''subscription.close''"
    and "\<And>b. concat (chop b) = b"
    and "dispatch d operation input ctx (cn_service h) = (res, s)"
  defines "req \<equiv> \<lparr>rq_request_id = ids (cl_ids c), rq_operation = operation, rq_input = input\<rparr>"
  assumes "sendable to_text of_text (request_json req)"
    and "list_all (sendable to_text of_text) (map frame_json pushed_frames @ [response_json (outcome_response req res)])"
  shows "\<exists>r c' h'. remote_call to_text of_text chop ctx d ids subs operation input pushed_frames c h = (r, c', h') \<and>
    cn_service h' = s \<and> cn_continuity h' = cn_continuity h \<and>
    cl_streamed c' = cl_streamed c @ map frame_json pushed_frames \<and> cl_in c' = [] \<and>
    (case res of
       Outcome_Ok v \<Rightarrow> r = (if v = JNull then Err (CE_Handshake ''ok response without result'') else Ok v)
     | Outcome_Err code msg \<Rightarrow> r = Err (CE_Operation operation code (oe_message (operation_error_new code msg))))"
proof -
  let ?h = "h\<lparr>cn_service := s, cn_offered := cn_offered h + 1, cn_written := cn_written h @ [outcome_response req res]\<rparr>"
  let ?reply = "map frame_json pushed_frames @ [response_json (outcome_response req res)]"
  let ?c = "c\<lparr>cl_in := map Ok ?reply\<rparr>"
  let ?hs = "map (\<lambda>f. HF_Subscription (frame_json f)) pushed_frames"
  have up: "over_the_wire to_text of_text chop [request_json req] = ([request_json req], None)"
    by (rule wire_transparent) (use assms(3,6) in simp_all)
  have served: "serve_requests ctx d subs (\<lambda>_. True) [Some (request_json req)] h = ?h"
    unfolding req_def by (rule served_request[OF assms(1,2,4)])
  have down: "over_the_wire to_text of_text chop ?reply = (?reply, None)" by (rule wire_transparent[OF assms(7,3)])
  have call: "remote_call to_text of_text chop ctx d ids subs operation input pushed_frames c h =
      (fst (client_request ids operation input ?c), snd (client_request ids operation input ?c), ?h)"
    using up served down by (simp add: remote_call_def received_def incoming_def req_def[symmetric] Let_def split_beta)
  have "list_all host_frame_ok ?hs" using pushed_ok by (simp add: list_all_iff)
  moreover have "\<not> list_ex (responds_to (ids (cl_ids ?c))) ?hs" by (simp add: list_ex_iff responds_to_def)
  moreover have "cl_in ?c = sent_frames ?hs @ Ok (response_json (outcome_response req res)) # []" by simp
  moreover have "rq_request_id req = ids (cl_ids ?c)" "rq_operation req = operation" by (simp_all add: req_def)
  ultimately obtain r c' where r: "client_request ids operation input ?c = (r, c')" "cl_in c' = []"
    "cl_streamed c' = cl_streamed ?c @ pushed ?hs"
    "case res of Outcome_Ok v \<Rightarrow> r = (if v = JNull then Err (CE_Handshake ''ok response without result'') else Ok v)
     | Outcome_Err code msg \<Rightarrow> r = Err (CE_Operation operation code (oe_message (operation_error_new code msg)))"
    using request_takes_its_response[where uuid = ids and c = ?c and hs = ?hs and req = req and res = res and rest = "[]"
        and operation = operation and input = input] by blast
  show ?thesis
    using r call by (intro exI[of _ r] exI[of _ c'] exI[of _ ?h]) (simp add: pushed_early)
qed

text \<open>A host that answers its status over a wire that delivers byte by byte.\<close>

definition status_request :: request_frame where
  "status_request = \<lparr>rq_request_id = show_nat 0, rq_operation = ''host.status'', rq_input = JObj []\<rparr>"

definition status_context :: op_context where
  "status_context = \<lparr>oc_host_epoch = ''h'', oc_lifecycle = State_Ready\<rparr>"

definition status_answer :: json where
  "status_answer = (case fst (dispatch (register_host dispatcher_new) ''host.status'' (JObj []) status_context ()) of
     Outcome_Ok v \<Rightarrow> v | Outcome_Err _ _ \<Rightarrow> JNull)"

definition status_text :: "json \<Rightarrow> string option" where
  "status_text v = (if v = request_json status_request then Some ''q''
     else if v = response_json (outcome_response status_request (Outcome_Ok status_answer)) then Some ''r'' else None)"

definition status_read :: "string \<Rightarrow> json option" where
  "status_read s = (if s = ''q'' then Some (request_json status_request)
     else if s = ''r'' then Some (response_json (outcome_response status_request (Outcome_Ok status_answer))) else None)"

theorem remote_call_is_local_witness:
  "\<exists>c' h'. remote_call status_text status_read (map (\<lambda>b. [b])) status_context (register_host dispatcher_new) show_nat show_nat
      ''host.status'' (JObj []) [] (sample_client [] []) sample_conn = (Ok status_answer, c', h')"
proof -
  let ?d = "register_host dispatcher_new :: unit dispatcher"
  obtain v where v: "status_outcome ''h'' State_Ready = Outcome_Ok v" "v \<noteq> JNull" by (simp add: status_outcome_def)
  have d: "dispatch ?d ''host.status'' (JObj []) status_context s = (Outcome_Ok v, s)" for s
    by (simp add: register_host_def dispatch_registered host_status_def status_context_def v(1))
  then have a: "status_answer = v" by (simp add: status_answer_def)
  have ne: "response_json (outcome_response status_request (Outcome_Ok v)) \<noteq> request_json status_request"
    by (simp add: response_json_def request_json_def outcome_response_def response_ok_def status_request_def)
  have ok: "sendable status_text status_read (request_json status_request)"
    "sendable status_text status_read (response_json (outcome_response status_request (Outcome_Ok v)))"
    using ne by (simp_all add: sendable_def text_ok_def line_of_def status_text_def status_read_def a MAX_FRAME_BYTES_def)
  have req: "\<lparr>rq_request_id = show_nat (cl_ids (sample_client [] [])), rq_operation = ''host.status'', rq_input = JObj []\<rparr> = status_request"
    by (simp add: status_request_def sample_client_def)
  show ?thesis
    using remote_call_is_local[where operation = "''host.status''" and chop = "map (\<lambda>b. [b])" and d = ?d and input = "JObj []"
        and ctx = status_context and h = sample_conn and res = "Outcome_Ok v" and ids = show_nat and c = "sample_client [] []"
        and to_text = status_text and of_text = status_read and pushed_frames = "[]" and subs = show_nat, unfolded req, OF _ _ _ d ok(1)] ok(2) v(2)
    by (auto simp: a)
qed

end
