(* ===== verification/Commands.thy ===== *)
theory Commands
  imports Launch Client Headless Sqlite_Events
begin

text \<open>
  The commands of \<^verbatim>\<open>meepo-cli/src/main.rs\<close>: the read loop of the chat over the host
  client, the headless command over the task runner and the SQLite store, and \<^verbatim>\<open>main\<close>'s
  choice between them.  Standard input is the list of its lines as \<^verbatim>\<open>read_line\<close> gives them,
  with their newline; an empty list is its end.  What only goes to the terminal (prompts, the
  banner, statuses) is left out.
\<close>

subsection \<open>Answering prompts\<close>

text \<open>The prompter of the commands that run without a daemon.\<close>

definition cli_prompter_ask :: "string list \<Rightarrow> permission_request \<Rightarrow> permission_answer \<times> string list" where
  "cli_prompter_ask stdin request =
     (\<lparr>pa_decision = (if says_yes stdin then Decision_Allow else Decision_Deny), pa_remember_for_turn = False\<rparr>, tl stdin)"

subsection \<open>The read loop of the chat\<close>

definition typed_line :: "string \<Rightarrow> string" where
  "typed_line raw = rev (dropWhile (\<lambda>b. b = CHR 0x0A) (rev raw))"

text \<open>What the drive of a turn does to the input: it takes one line for each prompt.\<close>

fun prompt_answers :: "string list \<Rightarrow> string list \<Rightarrow> (string \<times> bool) list" where
  "prompt_answers [] stdin = []"
| "prompt_answers (i # qs) stdin = (i, says_yes stdin) # prompt_answers qs (tl stdin)"

definition sent_requests :: "(nat \<Rightarrow> string) \<Rightarrow> nat \<Rightarrow> (string \<times> json) list \<Rightarrow> json list" where
  "sent_requests uuid n asks =
     map (\<lambda>(k, operation, input). request_json \<lparr>rq_request_id = uuid k, rq_operation = operation, rq_input = input\<rparr>) (enumerate n asks)"

definition asked :: "(nat \<Rightarrow> string) \<Rightarrow> (string \<times> json) list \<Rightarrow> host_client \<Rightarrow> host_client \<Rightarrow> bool" where
  "asked uuid asks c c' \<longleftrightarrow> cl_out c' = cl_out c @ sent_requests uuid (cl_ids c) asks \<and> cl_ids c' = cl_ids c + length asks"

definition answer_ask :: "string \<times> bool \<Rightarrow> string \<times> json" where
  "answer_ask a = (''interaction.answer'', answer_input (fst a) (snd a))"

definition start_ask :: "string \<Rightarrow> string \<Rightarrow> string \<times> json" where
  "start_ask sid line = (''turn.start'', JObj [(''content'', JStr line), (''sessionId'', JStr sid)])"

lemma asked_none: "cl_out c' = cl_out c \<Longrightarrow> cl_ids c' = cl_ids c \<Longrightarrow> asked uuid [] c c'"
  by (simp add: asked_def sent_requests_def)

lemma asked_trans: "asked uuid xs c c' \<Longrightarrow> asked uuid ys c' c'' \<Longrightarrow> asked uuid (xs @ ys) c c''"
  by (simp add: asked_def sent_requests_def enumerate_append_eq)

lemma asked_request: "client_request uuid operation input c = (r, c') \<Longrightarrow> asked uuid [(operation, input)] c c'"
  by (auto simp: client_request_def asked_def sent_requests_def Let_def split: prod.splits)

lemma next_streamed_keeps: "next_streamed c = (f, c') \<Longrightarrow> cl_out c' = cl_out c \<and> cl_ids c' = cl_ids c"
  by (auto simp: next_streamed_def split: prod.splits)

lemma asked_after_frame: "next_streamed c = (f, c') \<Longrightarrow> asked uuid asks c' c'' \<Longrightarrow> asked uuid asks c c''"
  by (auto simp: asked_def dest!: next_streamed_keeps)

lemma drive_asks:
  "chat_drive uuid log stdin c = (log', stdin', c') \<Longrightarrow>
   \<exists>qs. stdin' = drop (length qs) stdin \<and> cg_answers log' = cg_answers log @ prompt_answers qs stdin \<and>
     asked uuid (map answer_ask (prompt_answers qs stdin)) c c'"
proof (induction "length (cl_in c)" arbitrary: log stdin c rule: less_induct)
  case less
  show ?case
  proof (cases "next_streamed c")
    case (Pair f c1)
    show ?thesis
    proof (cases f)
      case None
      with less.prems Pair next_streamed_keeps[OF Pair] show ?thesis
        by (intro exI[of _ "[]"]) (simp add: chat_drive.simps asked_none)
    next
      case (Some frame)
      let ?snap = "unwrap_or JNull (json_get frame ''snapshot'')"
      have n: "next_streamed c = (Some frame, c1)" using Pair Some by simp
      have short: "length (cl_in c1) < length (cl_in c)" using next_streamed_shorter[OF n] .
      have go: ?thesis if "chat_drive uuid log1 stdin c1 = (log', stdin', c')" "cg_answers log1 = cg_answers log" for log1
        using less.hyps[OF short that(1)] that(2) asked_after_frame[OF n] by metis
      show ?thesis
      proof (cases "kind_of frame = Some ''subscription.session_projection''")
        case False
        then show ?thesis
          using less.prems n by (cases "kind_of frame = Some ''subscription.session_delta''") (auto simp: chat_drive.simps[of uuid log stdin c] intro: go)
      next
        case projection: True
        show ?thesis
        proof (cases "first_pending ?snap")
          case None
          show ?thesis
          proof (cases "terminal_status ?snap")
            case (Some st)
            with None projection less.prems n next_streamed_keeps[OF n] show ?thesis
              by (intro exI[of _ "[]"]) (auto simp: chat_drive.simps[of uuid log stdin c] asked_none)
          qed (use None projection less.prems n in \<open>auto simp: chat_drive.simps[of uuid log stdin c] intro: go\<close>)
        next
          case (Some p)
          define i where "i = unwrap_or [] (get_str p ''interactionId'')"
          obtain r c2 where r: "client_request uuid ''interaction.answer'' (answer_input i (says_yes stdin)) c1 = (r, c2)" by fastforce
          let ?log = "log\<lparr>cg_answers := cg_answers log @ [(i, says_yes stdin)]\<rparr>"
          have "chat_drive uuid ?log (tl stdin) c2 = (log', stdin', c')"
            using less.prems n projection Some r by (simp add: chat_drive.simps[of uuid log stdin c] i_def Let_def)
          moreover have "length (cl_in c2) < length (cl_in c)" using client_request_shorter[OF r] short by simp
          ultimately obtain qs where qs: "stdin' = drop (length qs) (tl stdin)" "cg_answers log' = cg_answers ?log @ prompt_answers qs (tl stdin)"
            "asked uuid (map answer_ask (prompt_answers qs (tl stdin))) c2 c'" using less.hyps[of c2 ?log "tl stdin"] by blast
          from asked_after_frame[OF n asked_trans[OF asked_request[OF r] qs(3)]] qs(1,2) show ?thesis
            by (intro exI[of _ "i # qs"]) (simp add: answer_ask_def drop_Suc)
        qed
      qed
    qed
  qed
qed

lemma turn_asks:
  assumes "chat_turn uuid sid line stdin c = (r, stdin', c')"
  shows "\<exists>qs. stdin' = drop (length qs) stdin \<and> asked uuid (start_ask sid line # map answer_ask (prompt_answers qs stdin)) c c'"
proof (cases "client_request uuid ''turn.start'' (JObj [(''content'', JStr line), (''sessionId'', JStr sid)]) c")
  case (Pair q c1)
  note a = asked_request[OF Pair, folded start_ask_def]
  show ?thesis
  proof (cases q)
    case (Inl e)
    with Pair a assms show ?thesis by (intro exI[of _ "[]"]) (simp add: chat_turn_def)
  next
    case (Inr v)
    obtain log where d: "chat_drive uuid chat_log_new stdin c1 = (log, stdin', c')"
      using assms Pair Inr by (auto simp: chat_turn_def split: prod.splits)
    from drive_asks[OF d] obtain qs where "stdin' = drop (length qs) stdin"
      "asked uuid (map answer_ask (prompt_answers qs stdin)) c1 c'" by blast
    with asked_trans[OF a] show ?thesis by (intro exI[of _ "qs"]) simp
  qed
qed

function chat_loop ::
    "(nat \<Rightarrow> string) \<Rightarrow> string \<Rightarrow> string list \<Rightarrow> host_client \<Rightarrow> (chat_log, client_error) result list \<times> host_client" where
  "chat_loop uuid sid [] c = ([], c)"
| "chat_loop uuid sid (raw # stdin) c =
     (let line = typed_line raw in
      if line = [] then chat_loop uuid sid stdin c
      else (case chat_turn uuid sid line stdin c of
              (r, stdin', c') \<Rightarrow> (case chat_loop uuid sid stdin' c' of (rs, c'') \<Rightarrow> (r # rs, c''))))"
  by pat_completeness auto
termination
  by (relation "measure (\<lambda>(_, _, stdin, _). length stdin)") (auto dest!: turn_asks[OF sym])

text \<open>
  What a chat asks of the daemon for the lines of its input: every line is used once and in order,
  skipped when it is empty, as the start of a turn, or as the answer to a prompt of the turn before.
\<close>

inductive chat_trace :: "string \<Rightarrow> string list \<Rightarrow> (string \<times> json) list \<Rightarrow> bool" for sid where
  trace_end: "chat_trace sid [] []"
| trace_blank: "typed_line raw = [] \<Longrightarrow> chat_trace sid stdin asks \<Longrightarrow> chat_trace sid (raw # stdin) asks"
| trace_turn: "typed_line raw \<noteq> [] \<Longrightarrow> chat_trace sid (drop (length ids) stdin) asks \<Longrightarrow>
    chat_trace sid (raw # stdin) (start_ask sid (typed_line raw) # map answer_ask (prompt_answers ids stdin) @ asks)"

inductive_simps chat_trace_end [simp]: "chat_trace sid [] asks"

lemma chat_loop_trace:
  "chat_loop uuid sid stdin c = (rs, c') \<Longrightarrow> \<exists>asks. chat_trace sid stdin asks \<and> asked uuid asks c c'"
proof (induction "length stdin" arbitrary: stdin c rs c' rule: less_induct)
  case less
  show ?case
  proof (cases stdin)
    case Nil
    with less.prems show ?thesis by (intro exI[of _ "[]"]) (simp add: asked_none)
  next
    case (Cons raw rest)
    show ?thesis
    proof (cases "typed_line raw = []")
      case True
      with less Cons show ?thesis by (fastforce intro: trace_blank)
    next
      case False
      obtain r stdin1 c1 where t: "chat_turn uuid sid (typed_line raw) rest c = (r, stdin1, c1)" by (metis prod_cases3)
      obtain rs1 where l: "chat_loop uuid sid stdin1 c1 = (rs1, c')"
        using less.prems Cons False t by (auto simp: Let_def split: prod.splits)
      from turn_asks[OF t] obtain ids where ids: "stdin1 = drop (length ids) rest"
        "asked uuid (start_ask sid (typed_line raw) # map answer_ask (prompt_answers ids rest)) c c1" by blast
      have "length stdin1 < length stdin" using ids(1) Cons by (simp add: less_Suc_eq_le)
      from less.hyps[OF this l] obtain asks where "chat_trace sid stdin1 asks" "asked uuid asks c1 c'" by blast
      with trace_turn[OF False, of sid ids rest asks] asked_trans[OF ids(2)] ids(1) Cons show ?thesis by fastforce
    qed
  qed
qed

text \<open>Nothing is allowed that was not typed, and a chat whose input has ended allows nothing.\<close>

lemma allowed_was_typed:
  "chat_trace sid stdin asks \<Longrightarrow> (''interaction.answer'', answer_input i True) \<in> set asks \<Longrightarrow> \<exists>raw \<in> set stdin. says_yes [raw]"
proof (induction rule: chat_trace.induct)
  case (trace_turn raw ids stdin asks)
  have yes: "(i, True) \<in> set (prompt_answers ids stdin) \<Longrightarrow> \<exists>raw \<in> set stdin. says_yes [raw]" for i ids stdin
  proof (induction ids stdin rule: prompt_answers.induct)
    case (2 j ids stdin)
    then show ?case by (cases stdin) (auto simp: says_yes_def)
  qed simp
  have answers: "answer_ask a = (''interaction.answer'', answer_input i True) \<Longrightarrow> a = (i, True)" for a
    by (cases a) (auto simp: answer_ask_def answer_input_def split: if_splits)
  from trace_turn.prems consider "(''interaction.answer'', answer_input i True) \<in> set asks"
    | "(i, True) \<in> set (prompt_answers ids stdin)" using answers by (auto simp: start_ask_def)
  then show ?case
  proof cases
    case 1
    with trace_turn.IH show ?thesis by (auto dest: in_set_dropD)
  qed (use yes in force)
qed auto

subsection \<open>The chat command\<close>

text \<open>
  \<open>connected\<close> is what the election answers: the client and the host's epoch, or an error, which ends
  the program.  A session or a subscription that is refused ends the chat.
\<close>

datatype 'e chat_end =
  Chat_Unconnected 'e
| Chat_Refused string client_error
| Chat_Ended "(chat_log, client_error) result list" host_client

definition run_chat ::
    "(nat \<Rightarrow> string) \<Rightarrow> string \<Rightarrow> string \<Rightarrow> (host_client \<times> string, 'e) result \<Rightarrow> string list \<Rightarrow> 'e chat_end" where
  "run_chat uuid sid cwd connected stdin =
     (case connected of
        Err e \<Rightarrow> Chat_Unconnected e
      | Ok (c, epoch) \<Rightarrow>
          (case client_request uuid ''session.create'' (JObj [(''cwd'', JStr cwd), (''sessionId'', JStr sid)]) c of
             (Err e, c1) \<Rightarrow> Chat_Refused ''session.create'' e
           | (Ok _, c1) \<Rightarrow>
               (case client_request uuid ''subscription.open'' (JObj [(''sessionId'', JStr sid)]) c1 of
                  (Err e, c2) \<Rightarrow> Chat_Refused ''subscription.open'' e
                | (Ok _, c2) \<Rightarrow> (case chat_loop uuid sid stdin c2 of (rs, c3) \<Rightarrow> Chat_Ended rs c3))))"

lemma chat_requests:
  assumes "run_chat uuid sid cwd (Ok (c, epoch)) stdin = Chat_Ended rs c'"
  shows "\<exists>asks. chat_trace sid stdin asks \<and>
    asked uuid ((''session.create'', JObj [(''cwd'', JStr cwd), (''sessionId'', JStr sid)]) #
      (''subscription.open'', JObj [(''sessionId'', JStr sid)]) # asks) c c'"
proof -
  obtain v w c1 c2 where r: "client_request uuid ''session.create'' (JObj [(''cwd'', JStr cwd), (''sessionId'', JStr sid)]) c = (v, c1)"
    "client_request uuid ''subscription.open'' (JObj [(''sessionId'', JStr sid)]) c1 = (w, c2)" by fastforce
  with assms have "chat_loop uuid sid stdin c2 = (rs, c')" by (auto simp: run_chat_def split: sum.splits prod.splits)
  from chat_loop_trace[OF this] obtain asks where "chat_trace sid stdin asks" "asked uuid asks c2 c'" by blast
  with asked_trans[OF asked_request[OF r(1)] asked_trans[OF asked_request[OF r(2)]]] show ?thesis by auto
qed

subsection \<open>The headless command\<close>

definition headless_task :: "string \<Rightarrow> string \<Rightarrow> string \<Rightarrow> task_definition" where
  "headless_task sid cwd instruction =
     \<lparr>df_task_id = ''task-'' @ sid, df_instruction = instruction, df_workspace_dir = cwd\<rparr>"

definition headless_gate :: "cli \<Rightarrow> (nat \<Rightarrow> backend_send_input \<Rightarrow> session_event list) \<Rightarrow> self_check_gate" where
  "headless_gate c check attempt st =
     (if cl_self_check c then model_gate_decision (check attempt) attempt else default_gate_decision attempt st)"

text \<open>
  \<open>opened\<close> is the database, or why it cannot be opened; \<open>send\<close> and \<open>check\<close> are the streams of the
  backend that is built, for the attempts and for the self-checks.
\<close>

definition run_headless ::
    "(json \<Rightarrow> string) \<Rightarrow> (chat_message list \<Rightarrow> (string, string) result) \<Rightarrow>
     (backend_setup option \<Rightarrow> nat \<Rightarrow> backend_send_input \<Rightarrow> session_event list) \<Rightarrow>
     (backend_setup option \<Rightarrow> nat \<Rightarrow> backend_send_input \<Rightarrow> session_event list) \<Rightarrow>
     (runtime_event \<Rightarrow> (string, string) result) \<Rightarrow> (string \<Rightarrow> (runtime_event, string) result) \<Rightarrow>
     (task_event \<Rightarrow> (string, string) result) \<Rightarrow> (string \<Rightarrow> (task_event, string) result) \<Rightarrow>
     (string \<Rightarrow> string option) \<Rightarrow> string \<Rightarrow> cli \<Rightarrow> string \<Rightarrow> string \<Rightarrow> (event_table \<times> task_run_row list, string) result \<Rightarrow>
     ((task_run \<times> event_table \<times> task_run_row list) option, string) result" where
  "run_headless json_text compact send check enc_ev dec_ev enc dec vars sid c cwd instruction opened =
     (case opened of
        Err e \<Rightarrow> Err (''open store '' @ unwrap_or (default_db vars) (cl_db c) @ '': '' @ e)
      | Ok (events, rows) \<Rightarrow>
          (case build_backend vars c True of
             Err e \<Rightarrow> Err e
           | Ok b \<Rightarrow> Ok (run_task json_text compact (send b) (sql_append_event enc_ev) (sql_ensure_terminal enc_ev dec_ev)
               (sql_append_task_event enc) (sql_read_task_events dec) (headless_gate c (check b)) (''headless-'' @ sid)
               (headless_task sid cwd instruction) (unwrap_or 3 (cl_max_attempts c)) events rows)))"

text \<open>
  The command names its task run by its session, which is the same for every command that does not
  say otherwise: once a task has failed in a database, the next one there is reported as failed
  even when its first attempt completes and nothing checks it.
\<close>

lemma headless_rerun_reports_failed:
  assumes codec: "\<forall>e. \<exists>j. enc e = Ok j \<and> dec j = Ok e"
    and fresh: "\<forall>r \<in> set rows. tk_task_run_id r \<noteq> ''headless-'' @ sid"
    and first: "run_headless json_text compact send check enc_ev dec_ev enc dec vars sid c cwd instr (Ok (events, rows)) =
      Ok (Some (r1, events1, rows1))" "tn_status r1 = TR_Failed" "1 < unwrap_or 3 (cl_max_attempts c)"
    and again: "run_headless json_text compact send' check enc_ev dec_ev enc dec vars sid c' cwd' instr' (Ok (events1, rows1)) =
      Ok (Some (r2, events2, rows2))" "\<not> cl_self_check c'" "unwrap_or 3 (cl_max_attempts c') = Suc left"
    and completes: "\<And>b. \<exists>m s t. send_turn json_text compact (send' b 0) (sql_append_event enc_ev) (sql_ensure_terminal enc_ev dec_ev)
      (session_new (''headless-'' @ sid @ ''-s'' @ show_nat 0)) events1 instr' None [] = Some (m, s, t) \<and> tr_status t = Run_Completed"
  shows "tn_status r2 = TR_Failed"
proof -
  obtain b where b: "run_task json_text compact (send b) (sql_append_event enc_ev) (sql_ensure_terminal enc_ev dec_ev)
      (sql_append_task_event enc) (sql_read_task_events dec) (headless_gate c (check b)) (''headless-'' @ sid)
      (headless_task sid cwd instr) (unwrap_or 3 (cl_max_attempts c)) events rows = Some (r1, events1, rows1)"
    using first(1) by (auto simp: run_headless_def split: sum.splits)
  obtain b' where b': "run_task json_text compact (send' b') (sql_append_event enc_ev) (sql_ensure_terminal enc_ev dec_ev)
      (sql_append_task_event enc) (sql_read_task_events dec) (headless_gate c' (check b')) (''headless-'' @ sid)
      (headless_task sid cwd' instr') (Suc left) events1 rows1 = Some (r2, events2, rows2)"
    using again(1,3) by (auto simp: run_headless_def split: sum.splits)
  obtain m s t where t: "send_turn json_text compact (send' b' 0) (sql_append_event enc_ev) (sql_ensure_terminal enc_ev dec_ev)
      (session_new (''headless-'' @ sid @ ''-s'' @ show_nat 0)) events1 instr' None [] = Some (m, s, t)" "tr_status t = Run_Completed"
    using completes[of b'] by blast
  show ?thesis
    by (rule completed_rerun_reports_failed[OF codec fresh b first(2,3) b' _ t(2)])
      (use t(1) again(2) in \<open>simp_all add: headless_task_def headless_gate_def default_gate_decision_def\<close>)
qed

end
