(* ===== verification/Restart.thy ===== *)
theory Restart
  imports Turn_Coordinator Agent_Loop
begin

text \<open>
  The host across restarts.  A restart keeps the database and loses everything else: the managers
  of \<^verbatim>\<open>server/composition.rs\<close>, the running turns of \<^verbatim>\<open>server/turn/coordinator.rs\<close> and
  the subscribers, which \<^verbatim>\<open>bin/host.rs\<close> all builds anew.  The first part specifies the
  host by its database alone and shows when the host is a refinement of that; the second part
  shows what the backends of \<^verbatim>\<open>server/provider_factory.rs\<close> do to it, which are built anew
  for every turn and number their events from one.
\<close>

subsection \<open>Restarting\<close>

definition host_restart :: "turn_host \<Rightarrow> turn_host" where
  "host_restart h = h\<lparr>th_managers := (\<lambda>_. None), th_active := (\<lambda>_. None), th_cancelled := [],
     th_continuity := continuity_new\<rparr>"

text \<open>The conversation the next turn of a session starts from.\<close>

definition conversation ::
    "(json \<Rightarrow> string) \<Rightarrow> (string \<Rightarrow> (runtime_event, string) result) \<Rightarrow> string \<Rightarrow> turn_host \<Rightarrow> chat_message list" where
  "conversation json_text dec sid h = sm_messages (fst (composition_session json_text dec sid h))"

text \<open>One request after the other: a turn that is refused, a turn that runs to its end, or a restart.\<close>

datatype host_command = Host_Turn int string string | Host_Restart

fun host_command_step ::
    "(json \<Rightarrow> string) \<Rightarrow> (runtime_event \<Rightarrow> (string, string) result) \<Rightarrow> (string \<Rightarrow> (runtime_event, string) result) \<Rightarrow>
     (chat_message list \<Rightarrow> (string, string) result) \<Rightarrow> (string \<Rightarrow> backend_send_input \<Rightarrow> session_event list) \<Rightarrow>
     (root_admission list \<Rightarrow> root_admission list) \<Rightarrow> (string \<Rightarrow> nat) \<Rightarrow> string option \<Rightarrow> string \<Rightarrow>
     turn_host \<Rightarrow> host_command \<Rightarrow> turn_host" where
  "host_command_step json_text enc dec compact send scan takes sys host_epoch h Host_Restart = host_restart h"
| "host_command_step json_text enc dec compact send scan takes sys host_epoch h (Host_Turn now sid content) =
     (case begin_turn json_text dec scan now sid content h of
        (Err e, h1) \<Rightarrow> h1
      | (Ok t, h1) \<Rightarrow> drain_turn json_text enc dec compact (send sid) takes sys host_epoch sid content h1)"

subsection \<open>The host as its database\<close>

text \<open>A turn starts from the session's id and messages; a conversation within the bounds is not compacted.\<close>

definition turn_of :: "string \<Rightarrow> string option \<Rightarrow> string \<Rightarrow> chat_message list \<Rightarrow> invocation_context \<times> backend_send_input" where
  "turn_of sid sys content ms = snd (start_turn ((session_new sid)\<lparr>sm_messages := ms\<rparr>) content sys [])"

definition turn_events ::
    "(backend_send_input \<Rightarrow> session_event list) \<Rightarrow> string \<Rightarrow> string option \<Rightarrow> string \<Rightarrow> chat_message list \<Rightarrow> runtime_event list" where
  "turn_events send sid sys content ms =
     (case turn_of sid sys content ms of
        (ctx, inp) \<Rightarrow> user_event ctx content # map (\<lambda>se. map_session_event se ctx) (send inp))"

definition context_kept :: "(json \<Rightarrow> string) \<Rightarrow> chat_message list \<Rightarrow> bool" where
  "context_kept json_text ms \<longleftrightarrow>
     sum_list (map (message_char_len json_text) ms) \<le> DEFAULT_THRESHOLD_CHARS \<or> length ms \<le> DEFAULT_KEEP_RECENT"

record database =
  db_sessions :: catalog
  db_admissions :: "root_admission list"
  db_claims :: "continuation_claim list"
  db_events :: event_table

definition stored :: "turn_host \<Rightarrow> database" where
  "stored h = \<lparr>db_sessions = th_sessions h, db_admissions = th_admissions h, db_claims = th_claims h, db_events = th_events h\<rparr>"

definition db_conversation ::
    "(json \<Rightarrow> string) \<Rightarrow> (string \<Rightarrow> (runtime_event, string) result) \<Rightarrow> string \<Rightarrow> database \<Rightarrow> chat_message list" where
  "db_conversation json_text dec sid d =
     (case sql_read_session dec sid (db_events d) of Err _ \<Rightarrow> [] | Ok ledger \<Rightarrow> messages_from_runtime_events json_text ledger)"

definition db_admits :: "(root_admission list \<Rightarrow> root_admission list) \<Rightarrow> string \<Rightarrow> database \<Rightarrow> bool" where
  "db_admits scan sid d =
     ((case get_session sid (db_sessions d) of None \<Rightarrow> False | Some r \<Rightarrow> \<not> sc_is_archived r) \<and>
      (case read_admission_tip scan sid (db_admissions d) of None \<Rightarrow> True | Some t \<Rightarrow> \<not> ra_poisoned t))"

text \<open>A turn, said of the database: an admission and the turn's events, both fixed by what is stored.\<close>

definition db_turn ::
    "(json \<Rightarrow> string) \<Rightarrow> (runtime_event \<Rightarrow> (string, string) result) \<Rightarrow> (string \<Rightarrow> (runtime_event, string) result) \<Rightarrow>
     (string \<Rightarrow> backend_send_input \<Rightarrow> session_event list) \<Rightarrow> (root_admission list \<Rightarrow> root_admission list) \<Rightarrow> string option \<Rightarrow>
     database \<Rightarrow> int \<times> string \<times> string \<Rightarrow> database" where
  "db_turn json_text enc dec send scan sys d turn =
     (case turn of (now, sid, content) \<Rightarrow>
        if db_admits scan sid d then
          (let ms = db_conversation json_text dec sid d;
               n = show_nat (length ms + 1);
               adm = \<lparr>ra_session_id = sid, ra_turn_id = ''turn-'' @ n, ra_run_id = ''run-'' @ n,
                 ra_previous_root_turn_id = map_option (\<lambda>t. ra_turn_id t) (read_admission_tip scan sid (db_admissions d)),
                 ra_identity_json = identity_json json_text n content, ra_admitted_at = now, ra_poisoned = False\<rparr>
           in d\<lparr>db_admissions := extend_admission_chain adm (db_admissions d),
                db_events := persist_events (sql_append_event enc) sid (''run-'' @ n) (turn_events (send sid) sid sys content ms)
                  (db_events d)\<rparr>)
        else d)"

fun turns_of :: "host_command list \<Rightarrow> (int \<times> string \<times> string) list" where
  "turns_of [] = []"
| "turns_of (Host_Restart # cs) = turns_of cs"
| "turns_of (Host_Turn now sid content # cs) = (now, sid, content) # turns_of cs"

text \<open>
  What a turn needs for this: its conversation is within the bounds, the backend's stream is tidy,
  and the event table accepts its events, which takes ids that are new in the whole database.
\<close>

definition db_turn_ok ::
    "(json \<Rightarrow> string) \<Rightarrow> (runtime_event \<Rightarrow> (string, string) result) \<Rightarrow> (string \<Rightarrow> (runtime_event, string) result) \<Rightarrow>
     (string \<Rightarrow> backend_send_input \<Rightarrow> session_event list) \<Rightarrow> (root_admission list \<Rightarrow> root_admission list) \<Rightarrow> string option \<Rightarrow>
     database \<Rightarrow> int \<times> string \<times> string \<Rightarrow> bool" where
  "db_turn_ok json_text enc dec send scan sys d turn =
     (case turn of (now, sid, content) \<Rightarrow>
        db_admits scan sid d \<longrightarrow>
          (let ms = db_conversation json_text dec sid d; (ctx, inp) = turn_of sid sys content ms
           in context_kept json_text (ms @ [User_Msg content]) \<and> tidy None (send sid inp) \<and>
              turn_fits enc dec sid (ctx_run_id ctx) (ctx_invocation_id ctx) (turn_events (send sid) sid sys content ms) (db_events d)))"

fun db_turns_ok ::
    "(json \<Rightarrow> string) \<Rightarrow> (runtime_event \<Rightarrow> (string, string) result) \<Rightarrow> (string \<Rightarrow> (runtime_event, string) result) \<Rightarrow>
     (string \<Rightarrow> backend_send_input \<Rightarrow> session_event list) \<Rightarrow> (root_admission list \<Rightarrow> root_admission list) \<Rightarrow> string option \<Rightarrow>
     database \<Rightarrow> (int \<times> string \<times> string) list \<Rightarrow> bool" where
  "db_turns_ok json_text enc dec send scan sys d [] = True"
| "db_turns_ok json_text enc dec send scan sys d (t # ts) =
     (db_turn_ok json_text enc dec send scan sys d t \<and>
      db_turns_ok json_text enc dec send scan sys (db_turn json_text enc dec send scan sys d t) ts)"

text \<open>
  The invariant: no turn is running, the event table is well formed, every session's ledger is
  settled, and every manager in memory holds the projection of its ledger.
\<close>

definition faithful_session ::
    "(json \<Rightarrow> string) \<Rightarrow> (string \<Rightarrow> (runtime_event, string) result) \<Rightarrow> turn_host \<Rightarrow> string \<Rightarrow> bool" where
  "faithful_session json_text dec h sid =
     (case sql_read_session dec sid (th_events h) of
        Err _ \<Rightarrow> False
      | Ok ledger \<Rightarrow> settled ledger \<and>
          (case th_managers h sid of
             None \<Rightarrow> True
           | Some m \<Rightarrow> sm_session_id m = sid \<and> sm_messages m = messages_from_runtime_events json_text ledger))"

definition faithful :: "(json \<Rightarrow> string) \<Rightarrow> (string \<Rightarrow> (runtime_event, string) result) \<Rightarrow> turn_host \<Rightarrow> bool" where
  "faithful json_text dec h \<longleftrightarrow>
     table_wf dec (th_events h) \<and> (\<forall>sid. faithful_session json_text dec h sid \<and> th_active h sid = None)"

subsection \<open>A turn refines its specification\<close>

lemma context_kept_compact:
  "context_kept json_text ms \<Longrightarrow>
   compact_if_needed_rolling json_text compact ms prev = \<lparr>cr_messages = ms, cr_summary = None\<rparr>"
  by (auto simp: context_kept_def compact_if_needed_rolling_def compact_if_needed_with_def Let_def)

lemma start_turn_of: "sm_session_id m = sid \<Longrightarrow> snd (start_turn m content sys []) = turn_of sid sys content (sm_messages m)"
  by (simp add: turn_of_def start_turn_def session_new_def Let_def)

lemma turn_of_simps [simp]:
  "ctx_session_id (fst (turn_of sid sys content ms)) = sid"
  "ctx_run_id (fst (turn_of sid sys content ms)) = ''run-'' @ show_nat (Suc (length ms))"
  "ctx_invocation_id (fst (turn_of sid sys content ms)) = ''inv-'' @ show_nat (Suc (length ms))"
  "in_messages (snd (turn_of sid sys content ms)) = ms @ [User_Msg content]"
  by (simp_all add: turn_of_def start_turn_def session_new_def Let_def)

lemma tidy_closed: "tidy w stream \<Longrightarrow> \<exists>se \<in> set stream. is_terminal_se se"
  by (induction w stream rule: tidy.induct) auto

lemma turn_events_closed:
  assumes "tidy None (send (snd (turn_of sid sys content ms)))"
  shows "has_terminal (turn_events send sid sys content ms)"
proof -
  obtain se where "se \<in> set (send (snd (turn_of sid sys content ms)))" "is_terminal_se se" using tidy_closed[OF assms] by blast
  then show ?thesis by (auto simp: turn_events_def has_terminal_def list_ex_iff case_prod_unfold)
qed


lemma turn_of_inp:
  assumes "turn_of sid sys content ms = (ctx, inp)"
  shows "in_messages inp = ms @ [User_Msg content]" and "inp\<lparr>in_messages := ms @ [User_Msg content]\<rparr> = inp"
    and "in_max_steps inp = None" and "ctx_run_id ctx = ''run-'' @ show_nat (Suc (length ms))"
  using assms by (auto simp: turn_of_def start_turn_def session_new_def Let_def)

lemma runner_of_turn:
  assumes "sm_session_id m = sid" and "start_turn m content sys [] = (m1, ctx, inp)"
    and "runner_run json_text compact send ctx inp prev = Some r" and "context_kept json_text (sm_messages m @ [User_Msg content])"
  shows "turn_of sid sys content (sm_messages m) = (ctx, inp)"
    and "rr_events r = turn_events send sid sys content (sm_messages m)"
    and "rr_messages r = rn_messages (final_state (sm_messages m @ [User_Msg content]) (send inp))"
proof -
  show t: "turn_of sid sys content (sm_messages m) = (ctx, inp)" using start_turn_of[OF assms(1)] assms(2) by (metis snd_conv)
  have i: "in_messages inp = sm_messages m @ [User_Msg content]" using turn_of_simps(4)[of sid sys content "sm_messages m"] by (simp add: t)
  note c = context_kept_compact[OF assms(4)]
  have "inp\<lparr>in_messages := sm_messages m @ [User_Msg content]\<rparr> = inp" by (simp add: i[symmetric])
  with runner_run_facts(2,3)[OF assms(3)] show "rr_events r = turn_events send sid sys content (sm_messages m)"
    "rr_messages r = rn_messages (final_state (sm_messages m @ [User_Msg content]) (send inp))"
    by (simp_all add: c turn_events_def t i user_turn_def)
qed

lemma turn_session_reads:
  assumes "table_wf dec rows" and "turn_fits enc dec sid rid iv es rows" and "rows' = persist_events (sql_append_event enc) sid rid es rows"
  shows "table_wf dec rows'"
    and "sql_read_session dec sid rows = Ok olds \<Longrightarrow> sql_read_session dec sid rows' = Ok (olds @ es)"
    and "s \<noteq> sid \<Longrightarrow> sql_read_session dec s rows' = sql_read_session dec s rows"
proof -
  show "table_wf dec rows'" using sql.persist_run[OF assms(1) turn_fits_all[OF assms(1,2)]] by (simp add: assms(3))
  obtain rs where rs: "rows' = rows @ rs" "decode_rows dec rs = Ok es" "\<forall>r \<in> set rs. er_session_id r = sid \<and> er_run_id r = rid"
    using sql_persist_rows[OF assms(1,2)] assms(3) by blast
  have own: "filter (\<lambda>r. er_session_id r = sid) rs = rs" using rs(3) by (simp add: filter_id_conv)
  show "sql_read_session dec sid rows = Ok olds \<Longrightarrow> sql_read_session dec sid rows' = Ok (olds @ es)"
    by (simp add: sql_read_session_def rs(1) own decode_rows_append rs(2))
  show "sql_read_session dec s rows' = sql_read_session dec s rows" if "s \<noteq> sid"
  proof -
    have "filter (\<lambda>r. er_session_id r = s) rs = []" using rs(3) that by (simp add: filter_empty_conv)
    then show ?thesis by (simp add: sql_read_session_def rs(1))
  qed
qed

lemma drain_faithful:
  fixes compact :: "chat_message list \<Rightarrow> (string, string) result" and takes :: "string \<Rightarrow> nat" and host_epoch :: string
  assumes wf: "table_wf dec (th_events h)" and fs: "\<And>s. faithful_session json_text dec h s" and m: "th_managers h sid = Some m"
    and kept: "context_kept json_text (sm_messages m @ [User_Msg content])"
    and tidy: "tidy None (send (snd (turn_of sid sys content (sm_messages m))))"
    and fits: "turn_fits enc dec sid (''run-'' @ show_nat (Suc (length (sm_messages m)))) iv (turn_events send sid sys content (sm_messages m)) (th_events h)"
  defines "h2 \<equiv> drain_turn json_text enc dec compact send takes sys host_epoch sid content h"
  shows "th_events h2 = persist_events (sql_append_event enc) sid (''run-'' @ show_nat (Suc (length (sm_messages m))))
      (turn_events send sid sys content (sm_messages m)) (th_events h)"
    and "table_wf dec (th_events h2)" and "faithful_session json_text dec h2 s" and "th_active h2 = (th_active h)(sid := None)"
    and "th_sessions h2 = th_sessions h" "th_admissions h2 = th_admissions h" "th_claims h2 = th_claims h"
proof -
  let ?rid = "''run-'' @ show_nat (Suc (length (sm_messages m)))" and ?es = "turn_events send sid sys content (sm_messages m)"
  from fs[of sid] m obtain ledger where l: "sql_read_session dec sid (th_events h) = Ok ledger" "settled ledger" "sm_session_id m = sid"
    "sm_messages m = messages_from_runtime_events json_text ledger" by (auto simp: faithful_session_def split: sum.splits)
  obtain m1 ctx inp r m2 rows' res where s: "start_turn m content sys [] = (m1, ctx, inp)"
    and r: "runner_run json_text compact send ctx inp (sm_compact_summary m) = Some r"
    and f: "finalize_turn (sql_append_event enc) (sql_ensure_terminal enc dec) m1 (th_events h)
      (ctx_run_id ctx) (rr_terminal r) (rr_events r) (rr_messages r) (rr_compact_summary r) (rr_status r) = (m2, rows', res)"
    and h2: "h2 = h\<lparr>th_managers := (th_managers h)(sid \<mapsto> m2), th_events := rows',
      th_continuity := publish_events takes sid (ctx_run_id ctx) host_epoch (rr_events r) (th_continuity h),
      th_active := (th_active h)(sid := None)\<rparr>"
    unfolding h2_def by (rule drain_turn_run[OF m])
  note t = runner_of_turn[OF l(3) s r kept]
  have ctx: "ctx_run_id ctx = ?rid" using turn_of_simps(2)[of sid sys content "sm_messages m"] by (simp add: t(1))
  have m1: "sm_session_id m1 = sid" using start_turn_ctx(3)[of m content sys "[]"] by (simp add: s l(3))
  have rows: "rows' = persist_events (sql_append_event enc) sid ?rid ?es (th_events h)"
    by (rule finalize_closed[OF wf fits turn_events_closed m1]) (use tidy f ctx t(2) in simp_all)
  note reads = turn_session_reads[OF wf fits rows]
  show "th_events h2 = persist_events (sql_append_event enc) sid ?rid ?es (th_events h)" "table_wf dec (th_events h2)"
    "th_active h2 = (th_active h)(sid := None)" "th_sessions h2 = th_sessions h" "th_admissions h2 = th_admissions h"
    "th_claims h2 = th_claims h" using reads(1) rows by (simp_all add: h2)
  have es: "?es = user_event ctx content # map (\<lambda>se. map_session_event se ctx) (send inp)" by (simp add: turn_events_def t(1))
  have tidy': "tidy None (send inp)" using tidy by (simp add: t(1))
  have "sm_messages m2 = messages_from_runtime_events json_text (ledger @ ?es) \<and> settled (ledger @ ?es)"
    using live_conversation_is_projection[OF l(2) tidy', of json_text content ctx] finalize_messages[OF f] t(3) es by (simp add: l(4))
  then show "faithful_session json_text dec h2 s"
    using fs[of s] reads(2)[OF l(1)] reads(3)[of s] finalize_messages[OF f] m1
    by (cases "s = sid") (simp_all add: faithful_session_def h2 split: sum.splits)
qed


subsection \<open>Every command refines its specification\<close>

lemma faithful_session_cong:
  assumes "th_events g = th_events h" and "th_managers g s = th_managers h s"
  shows "faithful_session json_text dec g s = faithful_session json_text dec h s"
  unfolding faithful_session_def assms ..

lemma faithful_conversation:
  assumes "faithful_session json_text dec h sid" and "composition_session json_text dec sid h = (m, hm)"
  shows "sm_session_id m = sid" and "sm_messages m = db_conversation json_text dec sid (stored h)"
    and "conversation json_text dec sid h = db_conversation json_text dec sid (stored h)" and "faithful_session json_text dec h s \<Longrightarrow> faithful_session json_text dec hm s"
proof -
  show a: "sm_session_id m = sid" and b: "sm_messages m = db_conversation json_text dec sid (stored h)"
    using assms by (auto simp: faithful_session_def composition_session_def db_conversation_def stored_def session_resume_def Let_def
        split: option.splits sum.splits)
  then show "conversation json_text dec sid h = db_conversation json_text dec sid (stored h)" by (simp add: conversation_def assms(2))
  have "th_managers hm s = (if s = sid then Some m else th_managers h s)" "th_events hm = th_events h"
    using assms(2) by (auto simp: composition_session_def Let_def split: option.splits)
  then show "faithful_session json_text dec h s \<Longrightarrow> faithful_session json_text dec hm s"
    using assms(1) a b by (auto simp: faithful_session_def db_conversation_def stored_def split: option.splits sum.splits)
qed

lemma restart_faithful:
  "faithful json_text dec h \<Longrightarrow> faithful json_text dec (host_restart h) \<and> stored (host_restart h) = stored h"
  by (auto simp: faithful_def faithful_session_def host_restart_def stored_def split: sum.splits)

text \<open>Admission changes the admission chain alone, and the manager it leaves is the one the turn runs on.\<close>

lemma begin_refines:
  assumes f: "faithful json_text dec h" and b: "begin_turn json_text dec scan now sid content h = (res, h1)"
  defines "ms \<equiv> db_conversation json_text dec sid (stored h)"
  shows "\<not> db_admits scan sid (stored h) \<Longrightarrow> (\<exists>e. res = Err e) \<and> stored h1 = stored h \<and> faithful json_text dec h1"
    and "db_admits scan sid (stored h) \<Longrightarrow> \<exists>t m. res = Ok t \<and> th_managers h1 sid = Some m \<and> sm_messages m = ms \<and>
      th_events h1 = th_events h \<and> (\<forall>s. faithful_session json_text dec h1 s \<and> (s \<noteq> sid \<longrightarrow> th_active h1 s = None)) \<and>
      stored h1 = (stored h)\<lparr>db_admissions := db_admissions (db_turn json_text enc dec send scan sys (stored h) (now, sid, content))\<rparr>"
proof -
  obtain m hm where c: "composition_session json_text dec sid h = (m, hm)" by fastforce
  note cs = composition_session_simps[OF c]
  have fs: "faithful_session json_text dec h s" and idle: "th_active h s = None" and wf: "table_wf dec (th_events h)" for s
    using f by (simp_all add: faithful_def)
  note m = faithful_conversation[OF fs c]
  have hm: "faithful_session json_text dec hm s" for s by (rule m(4)[OF fs])
  have b': "admit_turn json_text dec scan now sid content h = (res, h1)" using b idle by (simp add: begin_turn_def check_idle_def)
  show "(\<exists>e. res = Err e) \<and> stored h1 = stored h \<and> faithful json_text dec h1" if "\<not> db_admits scan sid (stored h)"
    using that b' f hm cs wf idle
    by (auto simp: admit_turn_def c db_admits_def stored_def faithful_def Let_def split: option.splits if_splits)
  show "\<exists>t m. res = Ok t \<and> th_managers h1 sid = Some m \<and> sm_messages m = ms \<and> th_events h1 = th_events h \<and>
      (\<forall>s. faithful_session json_text dec h1 s \<and> (s \<noteq> sid \<longrightarrow> th_active h1 s = None)) \<and>
      stored h1 = (stored h)\<lparr>db_admissions := db_admissions (db_turn json_text enc dec send scan sys (stored h) (now, sid, content))\<rparr>"
    if d: "db_admits scan sid (stored h)"
  proof -
    from d obtain r where r: "get_session sid (th_sessions h) = Some r" "\<not> sc_is_archived r"
      "\<not> (case read_admission_tip scan sid (th_admissions h) of None \<Rightarrow> False | Some t \<Rightarrow> ra_poisoned t)"
      by (auto simp: db_admits_def stored_def split: option.splits)
    obtain t where "res = Ok t" and h1: "h1 = hm\<lparr>th_admissions := db_admissions (db_turn json_text enc dec send scan sys (stored h) (now, sid, content)),
        th_active := (th_active hm)(sid \<mapsto> th_next_token hm), th_next_token := th_next_token hm + 1\<rparr>"
      using b' r d cs m(2) by (auto simp: admit_turn_def c Let_def db_turn_def stored_def)
    moreover have "faithful_session json_text dec h1 s" for s using hm[of s] faithful_session_cong[of h1 hm s] by (simp add: h1)
    ultimately show ?thesis
      using cs m(2) idle by (intro exI[of _ t] exI[of _ m]) (auto simp: h1 stored_def ms_def)
  qed
qed

lemma turn_refines:
  fixes compact :: "chat_message list \<Rightarrow> (string, string) result" and takes :: "string \<Rightarrow> nat" and host_epoch :: string
  assumes f: "faithful json_text dec h" and ok: "db_turn_ok json_text enc dec send scan sys (stored h) (now, sid, content)"
  defines "h' \<equiv> host_command_step json_text enc dec compact send scan takes sys host_epoch h (Host_Turn now sid content)"
  shows "faithful json_text dec h' \<and> stored h' = db_turn json_text enc dec send scan sys (stored h) (now, sid, content)"
proof -
  obtain res h1 where b: "begin_turn json_text dec scan now sid content h = (res, h1)" by fastforce
  note spec = begin_refines(1)[OF f b] begin_refines(2)[OF f b, where enc = enc and send = send and sys = sys]
  show ?thesis
  proof (cases "db_admits scan sid (stored h)")
    case False
    with spec(1) b show ?thesis by (auto simp: h'_def db_turn_def)
  next
    case True
    let ?ms = "db_conversation json_text dec sid (stored h)"
    from spec(2)[OF True] obtain t m where h1: "res = Ok t" "th_managers h1 sid = Some m" "sm_messages m = ?ms" "th_events h1 = th_events h"
      "\<And>s. faithful_session json_text dec h1 s" "\<And>s. s \<noteq> sid \<Longrightarrow> th_active h1 s = None"
      "stored h1 = (stored h)\<lparr>db_admissions := db_admissions (db_turn json_text enc dec send scan sys (stored h) (now, sid, content))\<rparr>" by blast
    obtain ctx inp where c: "turn_of sid sys content ?ms = (ctx, inp)" by fastforce
    from ok True have reg: "context_kept json_text (?ms @ [User_Msg content])" "tidy None (send sid inp)"
      "turn_fits enc dec sid (ctx_run_id ctx) (ctx_invocation_id ctx) (turn_events (send sid) sid sys content ?ms) (db_events (stored h))"
      by (simp_all add: db_turn_ok_def c Let_def)
    have rid: "ctx_run_id ctx = ''run-'' @ show_nat (Suc (length ?ms))" using turn_of_simps(2)[of sid sys content ?ms] by (simp add: c)
    have wf: "table_wf dec (th_events h1)" using f h1(4) by (simp add: faithful_def)
    have p: "context_kept json_text (sm_messages m @ [User_Msg content])" "tidy None (send sid (snd (turn_of sid sys content (sm_messages m))))"
      "turn_fits enc dec sid (''run-'' @ show_nat (Suc (length (sm_messages m)))) (ctx_invocation_id ctx)
        (turn_events (send sid) sid sys content (sm_messages m)) (th_events h1)"
      using reg rid c h1(3,4) by (simp_all add: stored_def)
    note d = drain_faithful[OF wf h1(5) h1(2) p, where compact = compact and takes = takes and host_epoch = host_epoch]
    have h': "h' = drain_turn json_text enc dec compact (send sid) takes sys host_epoch sid content h1" using b h1(1) by (simp add: h'_def)
    have "faithful json_text dec h'" using d(2,3,4) h1(6) by (auto simp: faithful_def h')
    moreover have "stored h' = db_turn json_text enc dec send scan sys (stored h) (now, sid, content)"
      using d(1,5-7) h1(3,4,7) True by (simp add: h' stored_def db_turn_def Let_def)
    ultimately show ?thesis by simp
  qed
qed




subsection \<open>Backends that number their events from one\<close>

text \<open>
  The stream of a backend that is built for one turn: its counter starts at zero.
  \<open>answering ds\<close> is a provider that answers with the text deltas \<open>ds\<close> and calls no tool.
\<close>

definition fresh_send ::
    "(string \<Rightarrow> string) \<Rightarrow> (json \<Rightarrow> string) \<Rightarrow> (nat \<Rightarrow> chat_message list \<Rightarrow> provider_answer) \<Rightarrow> agent_config \<Rightarrow> gate_world \<Rightarrow>
     backend_send_input \<Rightarrow> session_event list" where
  "fresh_send sha256 json_text provider c w inp = ag_events (agent_send sha256 json_text (\<lambda>_. False) provider c 0 w inp)"

definition answering :: "string list \<Rightarrow> nat \<Rightarrow> chat_message list \<Rightarrow> provider_answer" where
  "answering ds step ms = Provider_Parts (map (\<lambda>d. Ok (Part_TextDelta ''m'' d)) ds)"

definition answer_events :: "string \<Rightarrow> nat \<Rightarrow> string list \<Rightarrow> session_event list" where
  "answer_events turn_id n ds = map (\<lambda>(k, d). SE_TextDelta (aimux_id (Suc k)) turn_id (int (Suc k)) ''m'' None d) (enumerate n ds)"

lemma consume_answer:
  assumes "\<not> st_failed s"
  shows "let s' = foldl (consume_part turn_id) s (map (\<lambda>d. Ok (Part_TextDelta ''m'' d)) ds) in
    \<not> st_failed s' \<and> st_tool_calls s' = st_tool_calls s \<and> ag_counter (st_agent s') = ag_counter (st_agent s) + length ds \<and>
    ag_events (st_agent s') = ag_events (st_agent s) @ answer_events turn_id (ag_counter (st_agent s)) ds"
  using assms
proof (induction ds arbitrary: s)
  case (Cons d ds)
  let ?s = "consume_part turn_id s (Ok (Part_TextDelta ''m'' d))"
  have "\<not> st_failed ?s" "st_tool_calls ?s = st_tool_calls s" "ag_counter (st_agent ?s) = Suc (ag_counter (st_agent s))"
    "ag_events (st_agent ?s) = ag_events (st_agent s) @ [SE_TextDelta (aimux_id (Suc (ag_counter (st_agent s)))) turn_id
       (int (Suc (ag_counter (st_agent s)))) ''m'' None d]" using Cons.prems by (simp_all add: consume_part_def Let_def)
  with Cons.IH[of ?s] show ?case by (simp add: Let_def answer_events_def)
qed (simp add: answer_events_def)

lemma fresh_answer:
  assumes "in_max_steps inp = None"
  shows "fresh_send sha256 json_text (answering ds) c w inp =
    answer_events (in_turn_id inp) 0 ds @ [done_event (in_turn_id inp) (Suc (length ds)) Stop_EndTurn]"
proof -
  have n: "unwrap_or 50 (in_max_steps inp) = Suc 49" by (simp add: assms)
  let ?s = "\<lparr>st_agent = \<lparr>ag_counter = 0, ag_messages = in_messages inp, ag_events = [], ag_operations = [], ag_world = w\<rparr>,
    st_tool_calls = [], st_text = [], st_thinking = [], st_blocks = [], st_failed = False\<rparr>"
  show ?thesis
    unfolding fresh_send_def agent_send_def n agent_steps.simps answering_def consume_parts_def
    using consume_answer[of ?s "in_turn_id inp" ds] by (simp add: Let_def answering_def)
qed

lemma answer_tidy:
  assumes "[] \<notin> set ds"
  shows "tidy None (answer_events turn_id n ds @ [done_event turn_id m r])"
  using assms by (induction ds arbitrary: n) (auto simp: answer_events_def done_event_def)

lemma answer_messages:
  assumes "ds \<noteq> []" and "[] \<notin> set ds"
  shows "rn_messages (final_state ms (answer_events turn_id n ds @ [done_event turn_id m r])) = ms @ [Assistant_Msg (Some (concat ds)) [] []]"
proof -
  have "foldl runner_step s (answer_events turn_id n ds) = s\<lparr>rn_pending := rn_pending s @ concat ds\<rparr>" for s n
    by (induction ds arbitrary: s n) (simp_all add: answer_events_def)
  moreover have "concat ds \<noteq> []" using assms by (cases ds) auto
  ultimately show ?thesis by (simp add: final_state_def done_event_def end_turn_def)
qed

lemma answer_ids:
  "se_id ` set (answer_events turn_id 0 ds @ [done_event turn_id (Suc (length ds)) r]) = aimux_id ` {1..Suc (length ds)}"
proof -
  have "se_id ` set (answer_events turn_id n ds) = aimux_id ` {Suc n..n + length ds}" for n
  proof (induction ds arbitrary: n)
    case (Cons d ds)
    have "{Suc n..n + length (d # ds)} = insert (Suc n) {Suc (Suc n)..Suc n + length ds}" by auto
    with Cons[of "Suc n"] show ?case by (simp add: answer_events_def)
  qed (simp add: answer_events_def)
  from this[of 0] show ?thesis by (auto simp: done_event_def atLeastAtMostSuc_conv)
qed

subsection \<open>Events whose ids are taken\<close>

lemma persist_taken:
  "ev_id ` set es \<subseteq> er_event_id ` set rows \<Longrightarrow> persist_events (sql_append_event enc) sid rid es rows = rows"
proof (induction es)
  case (Cons e es)
  have "ev_id e \<in> er_event_id ` set rows" using Cons.prems by auto
  from sql_append_taken[OF this] obtain x where "sql_append_event enc sid rid e rows = Err x" by blast
  with Cons show ?case by (simp add: persist_events_def keep_going_def)
qed (simp add: persist_events_def)

lemma persist_ids:
  "table_wf dec rows \<Longrightarrow> turn_fits enc dec sid rid iv es rows \<Longrightarrow>
   er_event_id ` set (persist_events (sql_append_event enc) sid rid es rows) = er_event_id ` set rows \<union> ev_id ` set es"
proof (induction es arbitrary: rows)
  case (Cons e es)
  obtain r where r: "sql_append_event enc sid rid e rows = Ok (rows @ [r])" "table_wf dec (rows @ [r])"
    "turn_fits enc dec sid rid iv es (rows @ [r])" by (rule turn_fits_step[OF Cons.prems])
  have "er_event_id r = ev_id e" using sql_append_row[OF r(1)] by auto
  with Cons.IH[OF r(2,3)] r(1) show ?case by (simp add: persist_events_def keep_going_def)
qed (simp add: persist_events_def)

lemma user_event_projects:
  "messages_from_runtime_events json_text (ledger @ [user_event ctx body]) = messages_from_runtime_events json_text ledger @ [User_Msg body]"
proof -
  have "responded_ids (ledger @ [user_event ctx body]) = responded_ids ledger"
    by (simp add: responded_ids_append) (simp add: responded_ids_def response_id_def user_event_def List.map_filter_def)
  then show ?thesis
    by (cases "foldl (project_step json_text (responded_ids ledger)) ([], None, []) ledger")
      (simp add: messages_from_runtime_events_def project_step_def user_event_def)
qed


text \<open>A turn whose events all have ids that are taken leaves its user message and nothing else.\<close>

lemma drain_reused:
  fixes compact :: "chat_message list \<Rightarrow> (string, string) result" and takes :: "string \<Rightarrow> nat" and host_epoch :: string
  assumes wf: "table_wf dec (th_events h)" and l: "sql_read_session dec sid (th_events h) = Ok ledger"
    and m: "th_managers h sid = Some m" "sm_session_id m = sid" and kept: "context_kept json_text (sm_messages m @ [User_Msg content])"
    and turn: "turn_of sid sys content (sm_messages m) = (ctx, inp)" and closed: "\<exists>se \<in> set (send inp). is_terminal_se se"
    and ids: "se_id ` set (send inp) \<subseteq> er_event_id ` set (th_events h)"
    and fits: "turn_fits enc dec sid (ctx_run_id ctx) iv [user_event ctx content] (th_events h)"
  defines "h2 \<equiv> drain_turn json_text enc dec compact send takes sys host_epoch sid content h"
  shows "conversation json_text dec sid h2 = rn_messages (final_state (sm_messages m @ [User_Msg content]) (send inp))"
    and "conversation json_text dec sid (host_restart h2) = messages_from_runtime_events json_text ledger @ [User_Msg content]"
proof -
  obtain m1 ctx' inp' r m2 rows' res where s: "start_turn m content sys [] = (m1, ctx', inp')"
    and r: "runner_run json_text compact send ctx' inp' (sm_compact_summary m) = Some r"
    and f: "finalize_turn (sql_append_event enc) (sql_ensure_terminal enc dec) m1 (th_events h)
      (ctx_run_id ctx') (rr_terminal r) (rr_events r) (rr_messages r) (rr_compact_summary r) (rr_status r) = (m2, rows', res)"
    and h2: "h2 = h\<lparr>th_managers := (th_managers h)(sid \<mapsto> m2), th_events := rows',
      th_continuity := publish_events takes sid (ctx_run_id ctx') host_epoch (rr_events r) (th_continuity h),
      th_active := (th_active h)(sid := None)\<rparr>"
    unfolding h2_def by (rule drain_turn_run[OF m(1)])
  note t = runner_of_turn[OF m(2) s r kept]
  have same: "ctx' = ctx" "inp' = inp" using t(1) turn by simp_all
  have live: "sm_messages m2 = rr_messages r" using finalize_messages[OF f] by simp
  then show "conversation json_text dec sid h2 = rn_messages (final_state (sm_messages m @ [User_Msg content]) (send inp))"
    using t(3) same by (simp add: conversation_def composition_session_def h2)
  have m1: "sm_session_id m1 = sid" using start_turn_ctx(3)[of m content sys "[]"] by (simp add: s m(2))
  have es: "rr_events r = user_event ctx content # map (\<lambda>se. map_session_event se ctx) (send inp)"
    using t(2) turn by (simp add: turn_events_def)
  obtain q where q: "sql_append_event enc sid (ctx_run_id ctx) (user_event ctx content) (th_events h) = Ok (th_events h @ [q])"
    "dec (er_payload_json q) = Ok (user_event ctx content)" "er_session_id q = sid" by (rule turn_fits_step[OF wf fits])
  define rows where "rows = th_events h @ [q]"
  have taken: "ev_id ` set (map (\<lambda>se. map_session_event se ctx) (send inp)) \<subseteq> er_event_id ` set rows"
    using ids by (auto simp: rows_def)
  have mid: "persist_events (sql_append_event enc) sid (ctx_run_id ctx) (rr_events r) (th_events h) = rows"
    using persist_taken[OF taken] q(1) by (simp add: es persist_events_def keep_going_def rows_def)
  obtain se where se: "se \<in> set (send inp)" "rr_terminal r = map_session_event se ctx"
  proof -
    from closed obtain t where "last_terminal (send inp) = Some t"
      by (cases "last_terminal (send inp)") (auto simp: last_terminal_def filter_empty_conv split: list.splits)
    with r kept last_terminal_is show thesis
      using that[of t] context_kept_compact[OF kept, of compact "sm_compact_summary m"]
      by (auto simp: runner_run_eq Let_def same turn_of_inp[OF turn])
  qed
  have "ev_id (rr_terminal r) \<in> er_event_id ` set rows" using ids se by (auto simp: rows_def)
  from sql_append_taken[OF this, of enc sid "ctx_run_id ctx"] have "keep_going rows (sql_ensure_terminal enc dec sid (ctx_run_id ctx) (rr_terminal r) rows) = rows"
    by (auto simp: sql_ensure_terminal_def keep_going_def split: sum.split)
  then have "rows' = rows" using f m1 mid by (simp add: finalize_turn_def Let_def same)
  then have "sql_read_session dec sid (th_events h2) = Ok (ledger @ [user_event ctx content])"
    using l q by (simp add: h2 rows_def sql_read_session_def decode_rows_append)
  then show "conversation json_text dec sid (host_restart h2) = messages_from_runtime_events json_text ledger @ [User_Msg content]"
    by (simp add: conversation_def composition_session_def host_restart_def session_resume_def Let_def user_event_projects)
qed


text \<open>After a turn with a text answer the ids of the first events of any fresh backend are taken.\<close>

lemma answer_ids_stored:
  assumes wf: "table_wf dec (db_events d)" and a: "db_admits scan sid d"
    and ok: "db_turn_ok json_text enc dec (\<lambda>_. fresh_send sha256 json_text (answering ds) c w) scan sys d (now, sid, content)"
  shows "aimux_id ` {1..Suc (length ds)} \<subseteq> er_event_id ` set (db_events
    (db_turn json_text enc dec (\<lambda>_. fresh_send sha256 json_text (answering ds) c w) scan sys d (now, sid, content)))"
proof -
  let ?send = "fresh_send sha256 json_text (answering ds) c w" and ?ms = "db_conversation json_text dec sid d"
  let ?es = "turn_events ?send sid sys content ?ms"
  obtain ctx inp where t: "turn_of sid sys content ?ms = (ctx, inp)" by fastforce
  have "turn_fits enc dec sid (ctx_run_id ctx) (ctx_invocation_id ctx) ?es (db_events d)"
    using ok a by (simp add: db_turn_ok_def t Let_def)
  from persist_ids[OF wf this] turn_of_inp(4)[OF t] a
  have "ev_id ` set ?es \<subseteq> er_event_id ` set (db_events (db_turn json_text enc dec (\<lambda>_. ?send) scan sys d (now, sid, content)))"
    by (auto simp: db_turn_def Let_def)
  moreover have "aimux_id ` {1..Suc (length ds)} \<subseteq> ev_id ` set ?es"
    unfolding turn_events_def t prod.case fresh_answer[OF turn_of_inp(3)[OF t]]
    by (subst answer_ids[of "in_turn_id inp" ds Stop_EndTurn, symmetric]) (force simp: image_iff)
  ultimately show ?thesis by blast
qed

text \<open>
  C6. The daemon builds its backend anew for every turn, so every turn numbers its events from
  one, and event ids are unique in the whole database.  After one turn with a text answer is
  stored, a later turn of any session whose answer has no more deltas loses its answer: the live
  session shows it, every event of it is refused by the table, and after a restart the
  conversation has the question without the answer.
\<close>

theorem later_answers_not_kept:
  fixes compact :: "chat_message list \<Rightarrow> (string, string) result" and takes :: "string \<Rightarrow> nat" and host_epoch :: string
    and sid2 content2 :: string and now2 :: int and c2 :: agent_config and w2 :: gate_world
  assumes f: "faithful json_text dec h" and a1: "db_admits scan sid1 (stored h)"
    and ok1: "db_turn_ok json_text enc dec (\<lambda>_. fresh_send sha256 json_text (answering ds1) c1 w1) scan sys (stored h) (now1, sid1, content1)"
  defines "h1 \<equiv> host_command_step json_text enc dec compact (\<lambda>_. fresh_send sha256 json_text (answering ds1) c1 w1) scan takes sys host_epoch
      h (Host_Turn now1 sid1 content1)"
  defines "ms \<equiv> conversation json_text dec sid2 h1"
  assumes a2: "db_admits scan sid2 (stored h1)" and kept: "context_kept json_text (ms @ [User_Msg content2])"
    and fits: "case turn_of sid2 sys content2 ms of (ctx, inp) \<Rightarrow>
      turn_fits enc dec sid2 (ctx_run_id ctx) (ctx_invocation_id ctx) [user_event ctx content2] (th_events h1)"
    and ds: "ds2 \<noteq> []" "[] \<notin> set ds2" "length ds2 \<le> length ds1"
  defines "h2 \<equiv> host_command_step json_text enc dec compact (\<lambda>_. fresh_send sha256 json_text (answering ds2) c2 w2) scan takes sys host_epoch
      h1 (Host_Turn now2 sid2 content2)"
  shows "conversation json_text dec sid2 h2 = ms @ [User_Msg content2, Assistant_Msg (Some (concat ds2)) [] []] \<and>
    conversation json_text dec sid2 (host_restart h2) = ms @ [User_Msg content2]"
proof -
  let ?send1 = "\<lambda>_ :: string. fresh_send sha256 json_text (answering ds1) c1 w1" and ?send2 = "fresh_send sha256 json_text (answering ds2) c2 w2"
  note t1 = turn_refines[OF f ok1, where compact = compact and takes = takes and host_epoch = host_epoch, folded h1_def]
  have ids1: "aimux_id ` {1..Suc (length ds1)} \<subseteq> er_event_id ` set (th_events h1)"
  proof -
    have "table_wf dec (db_events (stored h))" using f by (simp add: faithful_def stored_def)
    from answer_ids_stored[OF this a1 ok1, folded conjunct2[OF t1]] show ?thesis by (simp add: stored_def)
  qed
  have ms: "ms = db_conversation json_text dec sid2 (stored h1)"
  proof -
    obtain m hm where "composition_session json_text dec sid2 h1 = (m, hm)" by fastforce
    from faithful_conversation(3)[OF _ this] t1 show ?thesis by (simp add: faithful_def ms_def)
  qed
  obtain res g where b: "begin_turn json_text dec scan now2 sid2 content2 h1 = (res, g)" by fastforce
  from begin_refines(2)[OF conjunct1[OF t1] b a2, where enc = enc and send = "\<lambda>_. ?send2" and sys = sys]
  obtain t m where g: "res = Ok t" "th_managers g sid2 = Some m" "sm_messages m = ms" "th_events g = th_events h1"
    "\<And>s. faithful_session json_text dec g s" unfolding ms by blast
  from g(2,3) g(5)[of sid2] obtain ledger where l: "sql_read_session dec sid2 (th_events g) = Ok ledger" "sm_session_id m = sid2"
    "ms = messages_from_runtime_events json_text ledger" by (auto simp: faithful_session_def split: sum.splits)
  obtain ctx inp where c: "turn_of sid2 sys content2 ms = (ctx, inp)" by fastforce
  note ev2 = fresh_answer[OF turn_of_inp(3)[OF c], of sha256 json_text ds2 c2 w2]
  have wf: "table_wf dec (th_events g)" using t1 g(4) by (simp add: faithful_def)
  have "se_id ` set (?send2 inp) \<subseteq> er_event_id ` set (th_events g)"
    unfolding ev2 answer_ids g(4) using ids1 ds(3) by fastforce
  moreover have "\<exists>se \<in> set (?send2 inp). is_terminal_se se" unfolding ev2 by (simp add: done_event_def)
  moreover have "turn_fits enc dec sid2 (ctx_run_id ctx) (ctx_invocation_id ctx) [user_event ctx content2] (th_events g)"
    using fits by (simp add: c g(4))
  ultimately have d: "conversation json_text dec sid2 (drain_turn json_text enc dec compact ?send2 takes sys host_epoch sid2 content2 g) =
      rn_messages (final_state (ms @ [User_Msg content2]) (?send2 inp))"
    "conversation json_text dec sid2 (host_restart (drain_turn json_text enc dec compact ?send2 takes sys host_epoch sid2 content2 g)) =
      ms @ [User_Msg content2]"
    using drain_reused[OF wf l(1) g(2) l(2), where json_text = json_text and send = ?send2 and ctx = ctx and inp = inp and sys = sys
        and content = content2 and enc = enc and iv = "ctx_invocation_id ctx" and compact = compact and takes = takes
        and host_epoch = host_epoch] kept c g(3) l(3) by simp_all
  show ?thesis using d b g(1) answer_messages[OF ds(1,2)] by (simp add: h2_def ev2)
qed

subsection \<open>Witnesses\<close>

text \<open>What \<open>sample_enc\<close> and \<open>sample_dec\<close> make of \<open>turn_fits\<close>, to compute with.\<close>

definition sample_fits :: "runtime_event list \<Rightarrow> string \<Rightarrow> string \<Rightarrow> string \<Rightarrow> runtime_event list \<Rightarrow> event_table \<Rightarrow> bool" where
  "sample_fits known sid rid iv es rows =
     (distinct (map (\<lambda>e. ev_session_id e @ ev_id e) known) \<and>
      list_all (\<lambda>e. e \<in> set known \<and> ev_session_id e = sid \<and> ev_run_id e = rid \<and> ev_invocation_id e = iv) es \<and>
      distinct (map ev_id es) \<and> list_all (\<lambda>r. er_event_id r \<notin> set (map ev_id es)) rows \<and>
      list_all (\<lambda>r. er_session_id r = sid \<and> er_run_id r = rid \<longrightarrow> er_invocation_id r = iv) rows)"

lemma sample_fits_turn:
  assumes "sample_fits known sid rid iv es rows"
  shows "turn_fits (sample_enc known) (sample_dec known) sid rid iv es rows"
proof -
  have d: "distinct (map (\<lambda>e. ev_session_id e @ ev_id e) known)" using assms by (simp add: sample_fits_def)
  have "\<exists>j. sample_enc known e = Ok j \<and> sample_dec known j = Ok e" if "e \<in> set known" for e
  proof -
    have "sample_enc known e = Ok (ev_session_id e @ ev_id e)" using that by (simp add: sample_enc_def)
    with sample_codec[OF d this] show ?thesis by blast
  qed
  moreover have "set (map ev_id es) \<inter> er_event_id ` set rows = {}" using assms by (fastforce simp: sample_fits_def list_all_iff)
  ultimately show ?thesis using assms by (auto simp: sample_fits_def turn_fits_def list_all_iff)
qed

definition sample_turn_ok ::
    "runtime_event list \<Rightarrow> (string \<Rightarrow> backend_send_input \<Rightarrow> session_event list) \<Rightarrow> database \<Rightarrow> int \<times> string \<times> string \<Rightarrow> bool" where
  "sample_turn_ok known send d turn =
     (case turn of (now, sid, content) \<Rightarrow>
        (let ms = db_conversation (\<lambda>_. []) (sample_dec known) sid d; (ctx, inp) = turn_of sid None content ms
         in context_kept (\<lambda>_. []) (ms @ [User_Msg content]) \<and> tidy None (send sid inp) \<and>
            sample_fits known sid (ctx_run_id ctx) (ctx_invocation_id ctx) (turn_events (send sid) sid None content ms) (db_events d)))"

lemma sample_turn_ok_turn:
  "sample_turn_ok known send d turn \<Longrightarrow> db_turn_ok (\<lambda>_. []) (sample_enc known) (sample_dec known) send id None d turn"
  by (auto simp: sample_turn_ok_def db_turn_ok_def Let_def sample_fits_turn split: prod.splits)

lemma sample_host_faithful: "faithful json_text dec sample_host"
  by (simp add: faithful_def faithful_session_def table_wf_def sample_host_def sql_read_session_def settled_def)

definition sample_restart_send :: "string \<Rightarrow> backend_send_input \<Rightarrow> session_event list" where
  "sample_restart_send sid inp = [SE_TextDelta (in_turn_id inp @ ''-a'') (in_turn_id inp) 1 ''m'' None ''hi'',
     SE_Complete (in_turn_id inp @ ''-b'') (in_turn_id inp) 2 Stop_EndTurn]"

definition two_turns_ledger :: "runtime_event list" where
  "two_turns_ledger = turn_events (sample_restart_send ''s'') ''s'' None ''go'' [] @
     turn_events (sample_restart_send ''s'') ''s'' None ''more'' [User_Msg ''go'', Assistant_Msg (Some ''hi'') [] []]"

abbreviation sample_db_turn :: "database \<Rightarrow> int \<times> string \<times> string \<Rightarrow> database" where
  "sample_db_turn \<equiv> db_turn (\<lambda>_. []) (sample_enc two_turns_ledger) (sample_dec two_turns_ledger) sample_restart_send id None"

lemma two_turns_computed:
  "sample_turn_ok two_turns_ledger sample_restart_send (stored sample_host) (7, ''s'', ''go'')"
  "sample_turn_ok two_turns_ledger sample_restart_send (sample_db_turn (stored sample_host) (7, ''s'', ''go'')) (8, ''s'', ''more'')"
  "db_conversation (\<lambda>_. []) (sample_dec two_turns_ledger) ''s''
     (sample_db_turn (sample_db_turn (stored sample_host) (7, ''s'', ''go'')) (8, ''s'', ''more'')) =
   [User_Msg ''go'', Assistant_Msg (Some ''hi'') [] [], User_Msg ''more'', Assistant_Msg (Some ''hi'') [] []]"
  by code_simp+


definition sample_fresh_send :: "string list \<Rightarrow> backend_send_input \<Rightarrow> session_event list" where
  "sample_fresh_send ds = fresh_send (\<lambda>_. []) (\<lambda>_. []) (answering ds) sample_config sample_world"

definition lost_ledger :: "runtime_event list" where
  "lost_ledger = turn_events (sample_fresh_send [''hi'']) ''s'' None ''go'' [] @
     [user_event (fst (turn_of ''s'' None ''more'' [User_Msg ''go'', Assistant_Msg (Some ''hi'') [] []])) ''more'']"

abbreviation sample_answered :: database where
  "sample_answered \<equiv> db_turn (\<lambda>_. []) (sample_enc lost_ledger) (sample_dec lost_ledger) (\<lambda>_. sample_fresh_send [''hi'']) id None
     (stored sample_host) (7, ''s'', ''go'')"

lemma lost_computed:
  "sample_turn_ok lost_ledger (\<lambda>_. sample_fresh_send [''hi'']) (stored sample_host) (7, ''s'', ''go'')"
  "db_admits id ''s'' (stored sample_host)" "db_admits id ''s'' sample_answered"
  "db_conversation (\<lambda>_. []) (sample_dec lost_ledger) ''s'' sample_answered = [User_Msg ''go'', Assistant_Msg (Some ''hi'') [] []]"
  "case turn_of ''s'' None ''more'' [User_Msg ''go'', Assistant_Msg (Some ''hi'') [] []] of (ctx, inp) \<Rightarrow>
     sample_fits lost_ledger ''s'' (ctx_run_id ctx) (ctx_invocation_id ctx) [user_event ctx ''more''] (db_events sample_answered)"
  by code_simp+

theorem later_answers_not_kept_witness:
  "let step = (\<lambda>ds. host_command_step (\<lambda>_. []) (sample_enc lost_ledger) (sample_dec lost_ledger) (\<lambda>_. Err []) (\<lambda>_. sample_fresh_send ds)
         id (\<lambda>_. 0) None ''e'');
       h2 = step [''yo''] (step [''hi''] sample_host (Host_Turn 7 ''s'' ''go'')) (Host_Turn 8 ''s'' ''more'')
   in conversation (\<lambda>_. []) (sample_dec lost_ledger) ''s'' h2 =
        [User_Msg ''go'', Assistant_Msg (Some ''hi'') [] [], User_Msg ''more'', Assistant_Msg (Some ''yo'') [] []] \<and>
      conversation (\<lambda>_. []) (sample_dec lost_ledger) ''s'' (host_restart h2) =
        [User_Msg ''go'', Assistant_Msg (Some ''hi'') [] [], User_Msg ''more'']"
proof -
  let ?enc = "sample_enc lost_ledger" and ?dec = "sample_dec lost_ledger"
  let ?h1 = "host_command_step (\<lambda>_. []) ?enc ?dec (\<lambda>_. Err []) (\<lambda>_. sample_fresh_send [''hi'']) id (\<lambda>_. 0) None ''e'' sample_host (Host_Turn 7 ''s'' ''go'')"
  note ok = sample_turn_ok_turn[OF lost_computed(1)]
  from turn_refines[OF sample_host_faithful ok] have h1: "faithful (\<lambda>_. []) ?dec ?h1" "stored ?h1 = sample_answered" by simp_all
  obtain m hm where "composition_session (\<lambda>_. []) ?dec ''s'' ?h1 = (m, hm)" by fastforce
  from faithful_conversation(3)[OF _ this] h1 lost_computed(4)
  have ms: "conversation (\<lambda>_. []) ?dec ''s'' ?h1 = [User_Msg ''go'', Assistant_Msg (Some ''hi'') [] []]" by (simp add: faithful_def)
  have ev: "th_events ?h1 = db_events sample_answered" using h1(2) by (metis database.select_convs(4) stored_def)
  have kept: "context_kept (\<lambda>_. []) (conversation (\<lambda>_. []) ?dec ''s'' ?h1 @ [User_Msg ''more''])"
    by (simp only: ms) (simp add: context_kept_def DEFAULT_KEEP_RECENT_def)
  have a2: "db_admits id ''s'' (stored ?h1)" using lost_computed(3) h1(2) by simp
  have fits: "case turn_of ''s'' None ''more'' (conversation (\<lambda>_. []) ?dec ''s'' ?h1) of (ctx, inp) \<Rightarrow>
      turn_fits ?enc ?dec ''s'' (ctx_run_id ctx) (ctx_invocation_id ctx) [user_event ctx ''more''] (th_events ?h1)"
    unfolding ms ev using lost_computed(5) sample_fits_turn by (auto split: prod.splits)
  show ?thesis
    using later_answers_not_kept[where json_text = "\<lambda>_. []" and ?sha256.0 = "\<lambda>_. []" and ?ds1.0 = "[''hi'']" and ?ds2.0 = "[''yo'']" and ?c1.0 = sample_config and ?c2.0 = sample_config
        and ?w1.0 = sample_world and ?w2.0 = sample_world, folded sample_fresh_send_def, OF sample_host_faithful lost_computed(2) ok a2 kept fits] ms
    by (simp add: Let_def)
qed

end
