(* ===== verification/Daemon.thy ===== *)
theory Daemon
  imports Launch
begin

text \<open>
  The daemon's \<^verbatim>\<open>main\<close> (\<^verbatim>\<open>meepo-host/src/bin/host.rs\<close>) from its command
  line to its exit code, over the storage root of theory \<open>Election\<close>: the directory, the
  socket, the database, then \<^verbatim>\<open>serve_owned\<close> (\<^verbatim>\<open>server/kernel.rs\<close>) in the order
  its calls have, with what each failing call leaves behind.  What the operating system answers is
  a record; the life of a serving host, which interleaves with other processes, is a parameter,
  taken to be a run of host steps that ends in the drain.
\<close>

subsection \<open>Paths of a root\<close>

definition root_id_of :: "(string \<Rightarrow> (string, string) result) \<Rightarrow> string \<Rightarrow> string" where
  "root_id_of canonicalize root = (case canonicalize root of Ok p \<Rightarrow> p | Err e \<Rightarrow> root)"

definition host_sock :: "string \<Rightarrow> string" where "host_sock root = root @ ''/host.sock''"

definition host_db :: "string \<Rightarrow> string" where "host_db root = root @ ''/runtime.sqlite''"

subsection \<open>Serving a root\<close>

datatype serve_outcome = Serve_Done | Serve_Loser

text \<open>The answers of the file system to the calls of a starting daemon.\<close>

record daemon_env =
  de_create_dir :: "string \<Rightarrow> (unit, string) result"
  de_bind :: "string \<Rightarrow> (unit, string) result"
  de_open :: "string \<Rightarrow> (unit, string) result"
  de_lock_file :: "string \<Rightarrow> (unit, string) result"
  de_write_registration :: "string \<Rightarrow> (unit, string) result"
  de_canonicalize :: "string \<Rightarrow> (string, string) result"

definition daemon_registration ::
    "daemon_env \<Rightarrow> string \<Rightarrow> string \<Rightarrow> 32 word \<Rightarrow> int \<Rightarrow> host_registration" where
  "daemon_registration env root host_epoch pid now =
     registration_new (root_id_of (de_canonicalize env) root) host_epoch (host_sock root) State_Ready pid now"

text \<open>
  \<open>lives\<close> is what happens to the root from the record being written to the end of the drain.
  An error after the lock is taken drops the listener and the ownership.
\<close>

definition serve_owned ::
    "daemon_env \<Rightarrow> (nat \<Rightarrow> root_world \<Rightarrow> root_world) \<Rightarrow> string \<Rightarrow> host_registration \<Rightarrow> nat \<Rightarrow> nat \<Rightarrow> root_world \<Rightarrow>
     (serve_outcome, string) result \<times> root_world" where
  "serve_owned env lives root r p idle_grace w =
     (case de_lock_file env root of
        Err e \<Rightarrow> (Err e, set_phase p Ph_Gone w)
      | Ok _ \<Rightarrow>
          (case try_acquire p w of
             (False, w1) \<Rightarrow> (Ok Serve_Loser, set_phase p Ph_Gone w1)
           | (True, w1) \<Rightarrow>
               (let w2 = set_phase p Ph_Owning w1 in
                case de_write_registration env root of
                  Err e \<Rightarrow> (Err e, set_phase p Ph_Gone (drop_ownership p w2))
                | Ok _ \<Rightarrow>
                    (let w3 = lives idle_grace (set_phase p Ph_Serving (write_registration r w2)) in
                     (Ok Serve_Done,
                      set_phase p Ph_Gone (drop_ownership p (remove_registration (hr_host_epoch r) w3)))))))"

subsection \<open>The daemon's main\<close>

definition DEFAULT_IDLE_GRACE :: nat where "DEFAULT_IDLE_GRACE = 30000"

definition host_usage :: "string \<Rightarrow> string list" where
  "host_usage msg = [''meepo-host: '' @ msg,
     ''usage: meepo-host --root <dir> [--provider fake|openai|anthropic] [--model M] '' @
     ''[--base-url U] [--mode explore|ask|execute|bypass] [--system S] [--idle-grace-ms N]'']"

definition serve_exit :: "string \<Rightarrow> (serve_outcome, string) result \<Rightarrow> nat \<times> string list" where
  "serve_exit root out =
     (case out of
        Ok Serve_Loser \<Rightarrow> (0, [''[meepo-host] another process owns '' @ in_quotes root @ '' '' @ [CHR 0xE2, CHR 0x80, CHR 0x94] @ '' exiting''])
      | Ok Serve_Done \<Rightarrow> (0, [''[meepo-host] shut down''])
      | Err e \<Rightarrow> (1, [''[meepo-host] fatal: '' @ e]))"

text \<open>
  \<open>p\<close> is the process, \<open>ident\<close> its epoch, pid and clock.  A failing \<open>bind\<close> has removed the
  socket file; a failing database finds the socket bound, and the process leaves it behind.
\<close>

definition daemon_main ::
    "daemon_env \<Rightarrow> (nat \<Rightarrow> root_world \<Rightarrow> root_world) \<Rightarrow> string \<times> 32 word \<times> int \<Rightarrow> nat \<Rightarrow> string list \<Rightarrow> root_world \<Rightarrow>
     (nat \<times> string list) \<times> root_world" where
  "daemon_main env lives ident p args w =
     (case parse_host_args args of
        Err msg \<Rightarrow> ((2, host_usage msg), w)
      | Ok (root, h) \<Rightarrow>
          (case de_create_dir env root of
             Err e \<Rightarrow> ((2, [''meepo-host: cannot create root '' @ in_quotes root @ '': '' @ e]), w)
           | Ok _ \<Rightarrow>
               (let sock = host_sock root in
                case de_bind env sock of
                  Err e \<Rightarrow> ((2, [''meepo-host: bind '' @ sock @ '': '' @ e]), w\<lparr>rw_socket := None\<rparr>)
                | Ok _ \<Rightarrow>
                    (let w1 = set_phase p Ph_Bound (bind_socket p w); db = host_db root in
                     case de_open env db of
                       Err e \<Rightarrow> ((2, [''meepo-host: open '' @ db @ '': '' @ e]), set_phase p Ph_Gone w1)
                     | Ok _ \<Rightarrow>
                         (case ident of (host_epoch, pid, now) \<Rightarrow>
                            let idle_grace = unwrap_or DEFAULT_IDLE_GRACE (ha_idle_grace_ms h);
                                (out, w2) = serve_owned env lives root (daemon_registration env root host_epoch pid now) p idle_grace w1
                            in (serve_exit root out, w2))))))"

subsection \<open>A daemon is a process of the election\<close>

text \<open>What \<open>lives\<close> has to be: a run of host steps at whose end the process drains.\<close>

definition lives_and_drains :: "(nat \<Rightarrow> host_registration) \<Rightarrow> nat \<Rightarrow> (nat \<Rightarrow> root_world \<Rightarrow> root_world) \<Rightarrow> bool" where
  "lives_and_drains reg p lives \<longleftrightarrow>
     (\<forall>grace w. phase w p = Ph_Serving \<longrightarrow> (host_step reg)\<^sup>*\<^sup>* w (lives grace w) \<and> phase (lives grace w) p = Ph_Draining)"

lemma lives_until_signal: "lives_and_drains reg p (\<lambda>_. set_phase p Ph_Draining)"
  by (auto simp: lives_and_drains_def intro!: r_into_rtranclp step_signal)

lemma killed_step:
  "phase w p \<notin> {Ph_Absent, Ph_Gone} \<Longrightarrow> rw_lock w \<noteq> Some p \<Longrightarrow> host_step reg w (set_phase p Ph_Gone w)"
  using step_killed[of w p reg] by (simp add: drop_ownership_def)

lemma serve_owned_runs:
  assumes "lives_and_drains reg p lives" and "phase w p = Ph_Bound" and "rw_lock w \<noteq> Some p"
  shows "(host_step reg)\<^sup>*\<^sup>* w (snd (serve_owned env lives root (reg p) p grace w))"
proof (cases "de_lock_file env root")
  case (Inl e)
  then show ?thesis using killed_step[of w p reg] assms(2,3) by (auto simp: serve_owned_def)
next
  case (Inr u)
  obtain got w1 where a: "try_acquire p w = (got, w1)" by fastforce
  show ?thesis
  proof (cases got)
    case False
    then show ?thesis using step_lose[of w p w1 reg] assms(2) a Inr by (auto simp: serve_owned_def)
  next
    case True
    let ?w2 = "set_phase p Ph_Owning w1"
    have own: "host_step reg w ?w2" using step_own[of w p w1 reg] assms(2) a True by simp
    show ?thesis
    proof (cases "de_write_registration env root")
      case (Inl e)
      have "host_step reg ?w2 (set_phase p Ph_Gone (drop_ownership p ?w2))" by (rule step_killed) simp
      with own show ?thesis using Inr a True Inl by (simp add: serve_owned_def Let_def)
    next
      case (Inr v)
      let ?w3 = "set_phase p Ph_Serving (write_registration (reg p) ?w2)"
      let ?w4 = "lives grace ?w3"
      have announce: "host_step reg ?w2 ?w3" by (rule step_announce) simp
      have life: "(host_step reg)\<^sup>*\<^sup>* ?w3 ?w4" and d: "phase ?w4 p = Ph_Draining"
        using assms(1) by (simp_all add: lives_and_drains_def)
      have "(host_step reg)\<^sup>*\<^sup>* w ?w3" using own announce by (rule rtranclp.rtrancl_into_rtrancl[OF r_into_rtranclp])
      also note life
      also note step_leave[OF d, of reg]
      finally show ?thesis by (simp add: serve_owned_def Let_def \<open>de_lock_file env root = Inr u\<close> a[unfolded eqTrueI[OF True]] Inr)
    qed
  qed
qed

text \<open>
  Whatever the command line and wherever it fails, a daemon whose socket can be bound does
  to the root what a process of \<open>host_step\<close> may do, so every invariant of the election holds of it.
\<close>

lemma daemon_main_runs:
  assumes lives: "lives_and_drains reg p lives" and start: "phase w p = Ph_Absent" and free: "rw_lock w \<noteq> Some p"
    and bind: "\<And>sock. de_bind env sock = Ok ()"
    and reg: "\<And>root h. parse_host_args args = Ok (root, h) \<Longrightarrow> reg p = daemon_registration env root host_epoch pid now"
  shows "(host_step reg)\<^sup>*\<^sup>* w (snd (daemon_main env lives (host_epoch, pid, now) p args w))"
proof (cases "parse_host_args args")
  case (Inr rh)
  obtain root h where rh: "rh = (root, h)" by fastforce
  let ?w1 = "set_phase p Ph_Bound (bind_socket p w)"
  have b: "host_step reg w ?w1" by (rule step_bind[OF start])
  show ?thesis
  proof (cases "de_create_dir env root")
    case created: (Inr u)
    show ?thesis
    proof (cases "de_open env (host_db root)")
      case (Inl e)
      have "host_step reg ?w1 (set_phase p Ph_Gone ?w1)" by (rule killed_step) (simp_all add: free)
      with b show ?thesis using Inr rh created Inl by (simp add: daemon_main_def bind Let_def)
    next
      case opened: (Inr v)
      have "(host_step reg)\<^sup>*\<^sup>* ?w1 (snd (serve_owned env lives root (reg p) p (unwrap_or DEFAULT_IDLE_GRACE (ha_idle_grace_ms h)) ?w1))"
        by (rule serve_owned_runs[OF lives]) (simp_all add: free)
      then show ?thesis using b Inr rh created opened reg[of root h]
        by (simp add: daemon_main_def bind Let_def case_prod_unfold)
    qed
  qed (simp add: daemon_main_def Inr rh)
qed (simp add: daemon_main_def)

subsection \<open>Exit codes and failed starts\<close>

text \<open>A daemon exits with 2 before it serves, with 1 when serving fails, and with 0 also when it lost the root.\<close>

lemma daemon_exit_code:
  "fst (fst (daemon_main env lives ident p args w)) =
     (case parse_host_args args of
        Err msg \<Rightarrow> 2
      | Ok (root, h) \<Rightarrow>
          if de_create_dir env root \<noteq> Ok () \<or> de_bind env (host_sock root) \<noteq> Ok () \<or> de_open env (host_db root) \<noteq> Ok () then 2
          else if de_lock_file env root \<noteq> Ok () \<or> rw_lock w = None \<and> de_write_registration env root \<noteq> Ok () then 1
          else 0)"
proof (cases "parse_host_args args")
  case (Inr rh)
  have ok: "v = Ok () \<or> (\<exists>e. v = Err e)" for v :: "(unit, string) result" by (cases v) auto
  obtain root h where rh: "rh = (root, h)" by fastforce
  from ok[of "de_create_dir env root"] ok[of "de_bind env (host_sock root)"] ok[of "de_open env (host_db root)"]
    ok[of "de_lock_file env root"] ok[of "de_write_registration env root"]
  show ?thesis
    by (elim disjE exE)
      (auto simp: daemon_main_def Inr rh serve_owned_def serve_exit_def try_acquire_def Let_def split: prod.splits option.splits)
qed (simp add: daemon_main_def)

text \<open>
  The socket is bound before the database is opened and before the lock is tried for.  A daemon
  whose database does not open exits, and leaves the owner of the root, if there is one,
  serving under a socket path that leads to nobody.
\<close>

lemma failed_start_takes_endpoint:
  assumes "parse_host_args args = Ok (root, h)" and "de_create_dir env root = Ok ()" and "de_bind env (host_sock root) = Ok ()"
    and "de_open env (host_db root) = Err e" and "q \<noteq> p"
  shows "case daemon_main env lives ident p args w of ((code, out), w') \<Rightarrow>
    code = 2 \<and> host_connect w' = None \<and> rw_lock w' = rw_lock w \<and> rw_registration w' = rw_registration w \<and> phase w' q = phase w q"
  using assms by (simp add: daemon_main_def Let_def host_connect_def)

text \<open>A client that finds no owner finds, at its first poll, the daemon it launched, once that serves.\<close>

lemma launched_daemon_found:
  fixes env :: daemon_env and root host_epoch :: string and pid :: "32 word" and p :: nat
  assumes "try_owner w = None" and "i64_ok now" and "rw_lock w = None"
  defines "r \<equiv> daemon_registration env root host_epoch pid now"
  defines "serving \<equiv> set_phase p Ph_Serving (write_registration r (set_phase p Ph_Owning (snd (try_acquire p (set_phase p Ph_Bound (bind_socket p w))))))"
  shows "connect_or_spawn_with deadline w (\<lambda>_. serving) extra = Ok p" and "read_registration serving = Some r"
proof -
  have reg: "rw_registration serving = Some (registration_json r)" and sock: "rw_socket serving = Some p" and ph: "phase serving p = Ph_Serving"
    by (simp_all add: serving_def try_acquire_def assms(3) write_registration_def)
  have now: "i64_ok (hr_created_at r)" using assms(2) by (simp add: r_def daemon_registration_def registration_new_def)
  show read: "read_registration serving = Some r" by (rule read_written[OF reg now])
  have "hr_state r = State_Ready" by (simp add: r_def daemon_registration_def registration_new_def)
  then have "try_owner serving = Some p" by (simp add: try_owner_def read host_connect_def sock ph)
  then show "connect_or_spawn_with deadline w (\<lambda>_. serving) extra = Ok p"
    using assms(1) by (simp add: connect_or_spawn_with_def poll_election.simps)
qed

end
